(* ===== verification/Prelude.thy ===== *)
theory Prelude
  imports Main "HOL-Library.Sublist"
begin

text \<open>
  Shared ground of the development: the types that stand for Go's strings, instants and
  durations, the functions of Go's \<^verbatim>\<open>strings\<close>, \<^verbatim>\<open>unicode/utf8\<close>, \<^verbatim>\<open>encoding/hex\<close> and
  \<^verbatim>\<open>net/http\<close> (header) packages that the sources call, the generic lemmas about them, and
  the \<^theory_text>\<open>named_theorems\<close> collections that the component theories fill.

  A Go string and a \<^verbatim>\<open>[]byte\<close> are both a list of bytes, and \<^typ>\<open>char\<close> is an 8-bit byte, so
  both are a \<^typ>\<open>string\<close> here; \<^const>\<open>length\<close> is Go's \<^verbatim>\<open>len\<close>.  An instant is the number of
  nanoseconds since Go's zero time (so \<^verbatim>\<open>IsZero\<close> is \<open>= 0\<close>), a \<^verbatim>\<open>time.Duration\<close> a number of
  nanoseconds.  An operation that reads the clock takes the readings as an argument of type
  \<open>clock\<close>: \<open>clk i\<close> is what its \<open>i\<close>-th call of \<^verbatim>\<open>time.Now\<close> returns.
\<close>

type_synonym bytes = string
type_synonym gotime = int
type_synonym duration = int
type_synonym clock = "nat \<Rightarrow> gotime"

named_theorems go_string_simps "equations of the modelled functions of Go's strings package"
named_theorems store_simps "what each store operation does to the key map"
named_theorems breaker_simps "definitions of the circuit breaker's operations"
named_theorems handler_simps "definitions unfolded when a request handler is evaluated"


section \<open>Time\<close>

definition minDuration :: duration where
  "minDuration = - (2 ^ 63)"

definition maxDuration :: duration where
  "maxDuration = 2 ^ 63 - 1"

text \<open>\<^verbatim>\<open>t.Sub(u)\<close> saturates at the ends of the 64-bit range of a duration.\<close>

definition time_Sub :: "gotime \<Rightarrow> gotime \<Rightarrow> duration" where
  "time_Sub t u = max minDuration (min maxDuration (t - u))"

definition Second :: duration where
  "Second = 1000000000"

definition Millisecond :: duration where
  "Millisecond = 1000000"

definition Minute :: duration where
  "Minute = 60 * Second"

lemmas duration_defs = minDuration_def maxDuration_def Second_def Millisecond_def Minute_def

lemma time_Sub_exact: "\<bar>t - u\<bar> < 2 ^ 63 \<Longrightarrow> time_Sub t u = t - u"
  by (simp add: time_Sub_def duration_defs)

lemma time_Sub_self [simp]: "time_Sub t t = 0"
  by (simp add: time_Sub_def duration_defs)

lemma time_Sub_mono: "t \<le> t' \<Longrightarrow> time_Sub t u \<le> time_Sub t' u"
  by (simp add: time_Sub_def min_def max_def)

lemma time_Sub_le: "0 \<le> t - u \<Longrightarrow> time_Sub t u \<le> t - u"
  by (simp add: time_Sub_def duration_defs)


section \<open>Strings\<close>

subsection \<open>Prefixes, suffixes, splitting\<close>

definition strings_HasPrefix :: "string \<Rightarrow> string \<Rightarrow> bool" where
  "strings_HasPrefix s pre = prefix pre s"

definition strings_HasSuffix :: "string \<Rightarrow> string \<Rightarrow> bool" where
  "strings_HasSuffix s suf = suffix suf s"

definition strings_TrimPrefix :: "string \<Rightarrow> string \<Rightarrow> string" where
  "strings_TrimPrefix s pre = (if prefix pre s then drop (length pre) s else s)"

text \<open>
  The sources cut and split at one-byte separators only, so the separator is a byte.
  \<open>strings_Cut\<close> returns \<^const>\<open>None\<close> for Go's \<^verbatim>\<open>found = false\<close>.
\<close>

fun strings_Cut :: "string \<Rightarrow> char \<Rightarrow> (string \<times> string) option" where
  "strings_Cut [] sep = None"
| "strings_Cut (c # s) sep =
     (if c = sep then Some ([], s)
      else map_option (\<lambda>(a, b). (c # a, b)) (strings_Cut s sep))"

fun strings_Split :: "string \<Rightarrow> char \<Rightarrow> string list" where
  "strings_Split [] sep = [[]]"
| "strings_Split (c # s) sep =
     (if c = sep then [] # strings_Split s sep
      else (case strings_Split s sep of
              [] \<Rightarrow> [[c]]
            | p # ps \<Rightarrow> (c # p) # ps))"

fun strings_Join :: "string list \<Rightarrow> string \<Rightarrow> string" where
  "strings_Join [] sep = []"
| "strings_Join [p] sep = p"
| "strings_Join (p # q # ps) sep = p @ sep @ strings_Join (q # ps) sep"

definition strings_ContainsAny :: "string \<Rightarrow> string \<Rightarrow> bool" where
  "strings_ContainsAny s chars = list_ex (\<lambda>c. c \<in> set chars) s"

lemma strings_Split_ne [simp]: "strings_Split s sep \<noteq> []"
  by (induction s) (auto split: list.split)

lemma strings_Cut_append:
  "sep \<notin> set a \<Longrightarrow> strings_Cut (a @ sep # b) sep = Some (a, b)"
  by (induction a) auto

lemma strings_Cut_SomeD:
  "strings_Cut s sep = Some (a, b) \<Longrightarrow> s = a @ sep # b \<and> sep \<notin> set a"
proof (induction s arbitrary: a)
  case Nil
  then show ?case by simp
next
  case (Cons c s)
  then show ?case by (fastforce split: if_splits)
qed

lemma strings_Cut_None_iff: "strings_Cut s sep = None \<longleftrightarrow> sep \<notin> set s"
  by (induction s) auto

lemma strings_Split_nosep: "sep \<notin> set s \<Longrightarrow> strings_Split s sep = [s]"
  by (induction s) auto

lemma strings_Split_append:
  "sep \<notin> set a \<Longrightarrow> strings_Split (a @ sep # b) sep = a # strings_Split b sep"
  by (induction a) auto

lemma strings_Split_append_Split:
  "strings_Split (a @ sep # b) sep = strings_Split a sep @ strings_Split b sep"
proof (induction a)
  case (Cons c a)
  then show ?case by (cases "strings_Split a sep") simp_all
qed simp

lemma strings_Split_elem_nosep: "p \<in> set (strings_Split s sep) \<Longrightarrow> sep \<notin> set p"
proof (induction s arbitrary: p)
  case Nil
  then show ?case by simp
next
  case (Cons c s)
  then show ?case by (cases "strings_Split s sep") (auto split: if_splits)
qed

lemma strings_Join_Cons: "ps \<noteq> [] \<Longrightarrow> strings_Join (p # ps) sep = p @ sep @ strings_Join ps sep"
  by (cases ps) auto

lemma strings_Split_Join:
  "ps \<noteq> [] \<Longrightarrow> \<forall>p \<in> set ps. sep \<notin> set p \<Longrightarrow> strings_Split (strings_Join ps [sep]) sep = ps"
proof (induction ps)
  case Nil
  then show ?case by simp
next
  case (Cons p ps)
  then show ?case
    by (cases "ps = []") (auto simp: strings_Split_nosep strings_Join_Cons strings_Split_append)
qed

lemma strings_Join_Split: "strings_Join (strings_Split s sep) [sep] = s"
proof (induction s)
  case Nil
  then show ?case by simp
next
  case (Cons c s)
  then show ?case
    by (cases "strings_Split s sep"; cases "tl (strings_Split s sep)")
       (auto simp: strings_Join_Cons)
qed


subsection \<open>UTF-8 and white space\<close>

text \<open>
  \<^verbatim>\<open>utf8.DecodeRune\<close>: the width of the encoding at the head of a byte list, \<^const>\<open>None\<close> where
  Go yields \<^verbatim>\<open>RuneError\<close> of width 1.
\<close>

definition byte_in :: "int \<Rightarrow> int \<Rightarrow> char \<Rightarrow> bool" where
  "byte_in lo hi c = (lo \<le> of_char c \<and> of_char c \<le> hi)"

definition utf8_width :: "string \<Rightarrow> nat option" where
  "utf8_width s =
     (case s of
        [] \<Rightarrow> None
      | b0 # r \<Rightarrow>
          (if byte_in 0 0x7F b0 then Some 1
           else if byte_in 0xC2 0xDF b0 then
             (case r of b1 # _ \<Rightarrow> if byte_in 0x80 0xBF b1 then Some 2 else None | _ \<Rightarrow> None)
           else if byte_in 0xE0 0xEF b0 then
             (case r of
                b1 # b2 # _ \<Rightarrow>
                  (if byte_in (if of_char b0 = (0xE0::int) then 0xA0 else 0x80)
                              (if of_char b0 = (0xED::int) then 0x9F else 0xBF) b1
                      \<and> byte_in 0x80 0xBF b2 then Some 3 else None)
              | _ \<Rightarrow> None)
           else if byte_in 0xF0 0xF4 b0 then
             (case r of
                b1 # b2 # b3 # _ \<Rightarrow>
                  (if byte_in (if of_char b0 = (0xF0::int) then 0x90 else 0x80)
                              (if of_char b0 = (0xF4::int) then 0x8F else 0xBF) b1
                      \<and> byte_in 0x80 0xBF b2 \<and> byte_in 0x80 0xBF b3 then Some 4 else None)
              | _ \<Rightarrow> None)
           else None))"

definition RuneError_bytes :: string where
  "RuneError_bytes = [char_of (0xEF::int), char_of (0xBF::int), char_of (0xBD::int)]"

lemma utf8_width_pos: "utf8_width s = Some n \<Longrightarrow> 0 < n \<and> n \<le> length s"
  by (auto simp: utf8_width_def split: list.splits if_splits)

text \<open>
  \<^verbatim>\<open>for _, c := range s\<close> followed by \<^verbatim>\<open>WriteRune(c)\<close>: the list of the byte encodings that are
  written, one per rune.  An invalid byte is written as the encoding of U+FFFD.
\<close>

function range_runes :: "string \<Rightarrow> string list" where
  "range_runes s =
     (if s = [] then []
      else (case utf8_width s of
              Some n \<Rightarrow> take n s # range_runes (drop n s)
            | None \<Rightarrow> RuneError_bytes # range_runes (tl s)))"
  by pat_completeness auto
termination
  by (relation "measure length") (auto dest: utf8_width_pos)

declare range_runes.simps [simp del]

definition valid_utf8 :: "string \<Rightarrow> bool" where
  "valid_utf8 s = (concat (range_runes s) = s)"

text \<open>The bytes of a longer encoding are not ASCII, and a valid string is the list of its runes.\<close>

definition high :: "char \<Rightarrow> bool" where
  "high c \<longleftrightarrow> (128 :: int) \<le> of_char c"

lemma byte_in_high: "byte_in lo hi c \<Longrightarrow> 128 \<le> lo \<Longrightarrow> high c"
  by (auto simp: byte_in_def high_def)

lemma utf8_width_high:
  assumes "utf8_width s = Some n" and "n \<noteq> 1"
  shows "\<forall>c \<in> set (take n s). high c"
proof (cases s)
  case (Cons b0 r)
  have "n = 2 \<and> high b0 \<and> (\<exists>b1 t. r = b1 # t \<and> high b1) \<or>
      n = 3 \<and> high b0 \<and> (\<exists>b1 b2 t. r = b1 # b2 # t \<and> high b1 \<and> high b2) \<or>
      n = 4 \<and> high b0 \<and> (\<exists>b1 b2 b3 t. r = b1 # b2 # b3 # t \<and> high b1 \<and> high b2 \<and> high b3)"
    using assms Cons unfolding utf8_width_def
    by (simp split: if_split_asm list.split_asm) (auto dest: byte_in_high)
  then show ?thesis
    using Cons by (elim disjE conjE exE) (simp_all add: eval_nat_numeral)
qed simp

lemma length_range_runes: "length s \<le> length (concat (range_runes s))"
proof (induction s rule: range_runes.induct)
  case (1 s)
  show ?case
  proof (cases "s = []")
    case False
    then show ?thesis
      using 1 utf8_width_pos [of s] range_runes.simps [of s]
      by (cases "utf8_width s") (auto simp: RuneError_bytes_def)
  qed simp
qed

lemma valid_utf8_Some:
  assumes "valid_utf8 s" and "s \<noteq> []"
  obtains n where "utf8_width s = Some n" "valid_utf8 (drop n s)" "range_runes s = take n s # range_runes (drop n s)"
proof (cases "utf8_width s")
  case None
  then have "length (concat (range_runes s)) = 3 + length (concat (range_runes (tl s)))"
    using assms(2) range_runes.simps [of s] by (simp add: RuneError_bytes_def)
  then have "length s < length (concat (range_runes s))"
    using length_range_runes [of "tl s"] assms(2) by (cases s) auto
  then show ?thesis
    using assms(1) by (simp add: valid_utf8_def)
next
  case (Some n)
  then have r: "range_runes s = take n s # range_runes (drop n s)"
    using assms(2) range_runes.simps [of s] by simp
  then have "take n s @ concat (range_runes (drop n s)) = take n s @ drop n s"
    using assms(1) by (simp add: valid_utf8_def)
  then have "valid_utf8 (drop n s)" unfolding valid_utf8_def by (simp only: same_append_eq)
  from that [OF Some this r] show ?thesis .
qed

text \<open>
  The UTF-8 encodings of the runes for which \<^verbatim>\<open>unicode.IsSpace\<close> holds.
\<close>

definition space_runes :: "string list" where
  "space_runes =
     map (\<lambda>c. [char_of (c::int)]) [0x09, 0x0A, 0x0B, 0x0C, 0x0D, 0x20] @
     map (map (char_of :: int \<Rightarrow> char))
       ([[0xC2, 0x85], [0xC2, 0xA0], [0xE1, 0x9A, 0x80]] @
        map (\<lambda>c. [0xE2, 0x80, c])
          [0x80, 0x81, 0x82, 0x83, 0x84, 0x85, 0x86, 0x87, 0x88, 0x89, 0x8A, 0xA8, 0xA9, 0xAF] @
        [[0xE2, 0x81, 0x9F], [0xE3, 0x80, 0x80]])"

lemma space_runes_ne: "r \<in> set space_runes \<Longrightarrow> r \<noteq> []"
  by (auto simp: space_runes_def)

lemma find_space_rune: "find p space_runes = Some r \<Longrightarrow> r \<in> set space_runes \<and> r \<noteq> [] \<and> p r"
  using space_runes_ne by (auto simp: find_Some_iff)

function trimLeftSpace :: "string \<Rightarrow> string" where
  "trimLeftSpace s =
     (case find (\<lambda>r. prefix r s) space_runes of
        None \<Rightarrow> s
      | Some r \<Rightarrow> trimLeftSpace (drop (length r) s))"
  by pat_completeness auto
termination
  by (relation "measure length")
     (auto dest!: find_space_rune simp: prefix_def)

function trimRightSpace :: "string \<Rightarrow> string" where
  "trimRightSpace s =
     (case find (\<lambda>r. suffix r s) space_runes of
        None \<Rightarrow> s
      | Some r \<Rightarrow> trimRightSpace (take (length s - length r) s))"
  by pat_completeness auto
termination
  by (relation "measure length")
     (auto dest!: find_space_rune simp: suffix_def)

declare trimLeftSpace.simps [simp del] trimRightSpace.simps [simp del]

definition strings_TrimSpace :: "string \<Rightarrow> string" where
  "strings_TrimSpace s = trimRightSpace (trimLeftSpace s)"

text \<open>\<^verbatim>\<open>strings.TrimRight(s, cutset)\<close> for an ASCII cutset.\<close>

definition strings_TrimRight :: "string \<Rightarrow> string \<Rightarrow> string" where
  "strings_TrimRight s cutset = rev (dropWhile (\<lambda>c. c \<in> set cutset) (rev s))"

text \<open>
  \<^verbatim>\<open>strings.EqualFold\<close> where one side is ASCII without the letters k and s (the only ASCII
  letters that fold to a rune outside ASCII): the case of ASCII letters is ignored.
\<close>

definition ascii_lower :: "char \<Rightarrow> char" where
  "ascii_lower c = (if byte_in 65 90 c then char_of (of_char c + 32 :: int) else c)"

definition ascii_upper :: "char \<Rightarrow> char" where
  "ascii_upper c = (if byte_in 97 122 c then char_of (of_char c - 32 :: int) else c)"

definition strings_EqualFold :: "string \<Rightarrow> string \<Rightarrow> bool" where
  "strings_EqualFold s t = (map ascii_lower s = map ascii_lower t)"

lemma trimLeftSpace_cong: "\<forall>r \<in> set space_runes. \<not> prefix r s \<Longrightarrow> trimLeftSpace s = s"
  by (subst trimLeftSpace.simps) (auto split: option.split dest!: find_space_rune)

lemma trimRightSpace_cong: "\<forall>r \<in> set space_runes. \<not> suffix r s \<Longrightarrow> trimRightSpace s = s"
  by (subst trimRightSpace.simps) (auto split: option.split dest!: find_space_rune)

lemma trimLeftSpace_id: "\<forall>r \<in> set space_runes. hd r \<noteq> c \<Longrightarrow> trimLeftSpace (c # s) = c # s"
  using space_runes_ne by (intro trimLeftSpace_cong) (auto simp: prefix_Cons)

lemma trimRightSpace_id: "\<forall>r \<in> set space_runes. last r \<noteq> c \<Longrightarrow> trimRightSpace (s @ [c]) = s @ [c]"
  using space_runes_ne by (intro trimRightSpace_cong) (auto simp: suffix_snoc)


section \<open>Hexadecimal\<close>

definition hextable :: string where
  "hextable = ''0123456789abcdef''"

definition hex_EncodeToString :: "bytes \<Rightarrow> string" where
  "hex_EncodeToString bs =
     concat (map (\<lambda>b. [hextable ! (of_char b div 16), hextable ! (of_char b mod 16)]) bs)"

definition fromHexChar :: "char \<Rightarrow> int option" where
  "fromHexChar c =
     (if byte_in 48 57 c then Some (of_char c - 48)
      else if byte_in 97 102 c then Some (of_char c - 97 + 10)
      else if byte_in 65 70 c then Some (of_char c - 65 + 10)
      else None)"

text \<open>\<^verbatim>\<open>hex.DecodeString\<close>; \<^const>\<open>None\<close> is an error (a bad byte, or an odd length).\<close>

fun hex_DecodeString :: "string \<Rightarrow> bytes option" where
  "hex_DecodeString [] = Some []"
| "hex_DecodeString [c] = None"
| "hex_DecodeString (c # d # s) =
     (case (fromHexChar c, fromHexChar d) of
        (Some a, Some b) \<Rightarrow> map_option (\<lambda>r. char_of (16 * a + b) # r) (hex_DecodeString s)
      | _ \<Rightarrow> None)"

lemma length_hextable [simp]: "length hextable = 16"
  by (simp add: hextable_def)

lemma less16_cases: "(n::nat) < 16 \<Longrightarrow> n \<in> {0,1,2,3,4,5,6,7,8,9,10,11,12,13,14,15}"
  by (simp add: less_Suc_eq numeral_eq_Suc)

lemma fromHexChar_hextable: "n < 16 \<Longrightarrow> fromHexChar (hextable ! n) = Some (int n)"
  by (drule less16_cases) (auto simp: hextable_def fromHexChar_def byte_in_def)

lemma hex_Decode_Encode: "hex_DecodeString (hex_EncodeToString bs) = Some bs"
proof (induction bs)
  case Nil
  then show ?case by (simp add: hex_EncodeToString_def)
next
  case (Cons b bs)
  have lt: "of_char b div 16 < (16::nat)" "of_char b mod 16 < (16::nat)"
    using nat_of_char_less_256 [of b] by (auto simp: less_mult_imp_div_less)
  have "16 * int (of_char b div 16) + int (of_char b mod 16) = (of_char b :: int)"
    by (simp only: zdiv_int zmod_int of_nat_of_char) simp
  then have rec: "char_of (16 * int (of_char b div 16) + int (of_char b mod 16)) = b"
    by (simp only: char_of_char)
  show ?case
    using Cons.IH rec
    by (simp add: hex_EncodeToString_def fromHexChar_hextable lt del: of_nat_add of_nat_mult)
qed

lemma length_hex_Encode: "length (hex_EncodeToString bs) = 2 * length bs"
  by (induction bs) (auto simp: hex_EncodeToString_def)

lemma hex_Encode_chars: "c \<in> set (hex_EncodeToString bs) \<Longrightarrow> c \<in> set hextable"
proof -
  have lt: "of_char b div 16 < length hextable" "of_char b mod 16 < length hextable" for b
    using nat_of_char_less_256 [of b] by (auto simp: less_mult_imp_div_less)
  assume "c \<in> set (hex_EncodeToString bs)"
  then show ?thesis
    using lt by (auto simp: hex_EncodeToString_def intro: nth_mem)
qed

end
