(* ===== verification/Float64.thy ===== *)
theory Float64
  imports Complex_Main "HOL-Library.Log_Nat"
begin

text \<open>
  Go's \<^verbatim>\<open>float64\<close> arithmetic as far as the rate limiter uses it.  A finite value is a rational
  number, and every operation is the exact one followed by rounding to 53 significant bits, to
  nearest with ties to even.  The exponent range is left unbounded: the numbers that occur, token
  counts up to the burst size and nanosecond durations in seconds times a rate, are far from
  overflow and underflow.
\<close>

text \<open>The \<open>e\<close> with \<open>2\<^sup>e \<le> x < 2\<^sup>e\<^sup>+\<^sup>1\<close>, for a positive rational.\<close>

definition pow2 :: "int \<Rightarrow> rat" where
  "pow2 e = (if 0 \<le> e then 2 ^ nat e else 1 / 2 ^ nat (- e))"

definition exponent :: "rat \<Rightarrow> int" where
  "exponent x =
     (let (a, b) = quotient_of x; e = bitlen a - bitlen b
      in if pow2 e \<le> x then e else e - 1)"

definition round_even :: "rat \<Rightarrow> int" where
  "round_even x =
     (let n = \<lfloor>x\<rfloor>; d = x - of_int n
      in if d < 1 / 2 then n else if 1 / 2 < d then n + 1 else if even n then n else n + 1)"

definition f64pos :: "rat \<Rightarrow> rat" where
  "f64pos x = (let s = pow2 (exponent x - 52) in of_int (round_even (x / s)) * s)"

definition f64 :: "rat \<Rightarrow> rat" where
  "f64 x = (if x = 0 then 0 else if 0 < x then f64pos x else - f64pos (- x))"


section \<open>Exponents\<close>

lemma pow2_pos [simp]: "0 < pow2 e"
  by (simp add: pow2_def)

lemma pow2_nz [simp]: "pow2 e \<noteq> 0"
  using pow2_pos [of e] by linarith

lemma pow2_nonneg [simp]: "0 \<le> pow2 e"
  by (simp add: less_imp_le)

lemma pow2_powi: "pow2 e = 2 powi e"
  by (auto simp: pow2_def power_int_def field_simps)

lemma pow2_add: "pow2 (a + b) = pow2 a * pow2 b"
  by (simp add: pow2_powi power_int_add)

lemma pow2_le: "a \<le> b \<Longrightarrow> pow2 a \<le> pow2 b"
  by (simp add: pow2_powi power_int_increasing)

lemma pow2_Suc: "pow2 (e + 1) = 2 * pow2 e"
  by (simp add: pow2_add) (simp add: pow2_def)

lemma bitlen_rat_bounds:
  assumes "0 < (a :: int)"
  shows "pow2 (bitlen a - 1) \<le> of_int a" and "of_int a < pow2 (bitlen a)"
proof -
  have b: "2 ^ nat (bitlen a - 1) \<le> a" "a < 2 ^ nat (bitlen a)"
    using assms bitlen_bounds by blast+
  have "0 \<le> bitlen a - 1"
    using assms by (auto simp: bitlen_alt_def)
  then show "pow2 (bitlen a - 1) \<le> of_int a" "of_int a < pow2 (bitlen a)"
    using b by (simp_all add: pow2_def)
qed

lemma exponent_bounds:
  assumes "0 < x"
  shows "pow2 (exponent x) \<le> x" and "x < pow2 (exponent x + 1)"
proof -
  obtain a b where q: "quotient_of x = (a, b)" by (cases "quotient_of x")
  have "0 < b" using quotient_of_denom_pos [OF q] .
  have x: "x = of_int a / of_int b" using quotient_of_div [OF q] .
  have "0 < a" using assms x \<open>0 < b\<close> by (simp add: zero_less_divide_iff)
  let ?e = "bitlen a - bitlen b"
  have "pow2 (bitlen a - 1) / pow2 (bitlen b) \<le> x"
    unfolding x using bitlen_rat_bounds [OF \<open>0 < a\<close>] bitlen_rat_bounds [OF \<open>0 < b\<close>] \<open>0 < b\<close>
      \<open>0 < a\<close> by (intro frac_le) auto
  then have lo: "pow2 (?e - 1) \<le> x"
    by (simp add: pow2_powi power_int_diff divide_simps)
  have "x < pow2 (bitlen a) / pow2 (bitlen b - 1)"
    unfolding x using bitlen_rat_bounds [OF \<open>0 < a\<close>] bitlen_rat_bounds [OF \<open>0 < b\<close>] \<open>0 < a\<close> \<open>0 < b\<close>
    by (intro frac_less) auto
  then have hi: "x < pow2 (?e + 1)"
    by (simp add: pow2_powi power_int_diff power_int_add divide_simps)
  show "pow2 (exponent x) \<le> x" "x < pow2 (exponent x + 1)"
    using lo hi q by (auto simp: exponent_def Let_def)
qed

section \<open>Rounding\<close>

text \<open>Rounding the number \<open>n + d\<close> with \<open>0 \<le> d < 1\<close>.\<close>

definition round_frac :: "int \<Rightarrow> rat \<Rightarrow> int" where
  "round_frac n d = (if d < 1 / 2 then n else if 1 / 2 < d then n + 1 else if even n then n else n + 1)"

lemma round_even_frac: "round_even x = round_frac \<lfloor>x\<rfloor> (frac x)"
  by (simp add: round_even_def round_frac_def frac_def Let_def)

lemma round_frac_cases: "round_frac n d = n \<and> d \<le> 1 / 2 \<or> round_frac n d = n + 1 \<and> 1 / 2 \<le> d"
  by (auto simp: round_frac_def)

lemma round_frac_mono: "d \<le> d' \<Longrightarrow> round_frac n d \<le> round_frac n d'"
  by (auto simp: round_frac_def)

lemma round_even_error: "\<bar>of_int (round_even x) - x\<bar> \<le> 1 / 2"
proof -
  have x: "x = of_int \<lfloor>x\<rfloor> + frac x" "0 \<le> frac x" "frac x < 1"
    using frac_lt_1 [of x] frac_ge_0 [of x] by (simp_all add: frac_def)
  consider "round_even x = \<lfloor>x\<rfloor>" "frac x \<le> 1 / 2" | "round_even x = \<lfloor>x\<rfloor> + 1" "1 / 2 \<le> frac x"
    using round_frac_cases [of "\<lfloor>x\<rfloor>" "frac x"] by (auto simp: round_even_frac)
  then show ?thesis
    by cases (use x in \<open>simp_all add: abs_le_iff\<close>)
qed

lemma round_even_of_int [simp]: "round_even (of_int n) = n"
  by (simp add: round_even_def)

lemma round_even_mono:
  assumes "x \<le> y"
  shows "round_even x \<le> round_even y"
proof (cases "\<lfloor>x\<rfloor> = \<lfloor>y\<rfloor>")
  case True
  then have "frac x \<le> frac y" using assms by (simp add: frac_def)
  with True show ?thesis by (simp add: round_even_frac round_frac_mono)
next
  case False
  then have "\<lfloor>x\<rfloor> + 1 \<le> \<lfloor>y\<rfloor>" using floor_mono [OF assms] by linarith
  then show ?thesis
    using round_frac_cases [of "\<lfloor>x\<rfloor>" "frac x"] round_frac_cases [of "\<lfloor>y\<rfloor>" "frac y"]
    by (auto simp: round_even_frac)
qed

lemma f64pos_error:
  assumes "0 < x"
  shows "\<bar>f64pos x - x\<bar> \<le> x / 2 ^ 53"
proof -
  let ?s = "pow2 (exponent x - 52)"
  have "f64pos x - x = (of_int (round_even (x / ?s)) - x / ?s) * ?s"
    using pow2_pos [of "exponent x - 52"] by (simp add: f64pos_def Let_def left_diff_distrib)
  then have "\<bar>f64pos x - x\<bar> = \<bar>of_int (round_even (x / ?s)) - x / ?s\<bar> * ?s"
    by (simp add: abs_mult)
  also have "\<dots> \<le> 1 / 2 * ?s"
    using round_even_error by (intro mult_right_mono) auto
  also have "\<dots> = pow2 (exponent x) / 2 ^ 53"
    by (simp add: pow2_powi power_int_diff)
  also have "\<dots> \<le> x / 2 ^ 53"
    using exponent_bounds(1) [OF assms] by (intro divide_right_mono) auto
  finally show ?thesis .
qed

lemma f64_error: "\<bar>f64 x - x\<bar> \<le> \<bar>x\<bar> / 2 ^ 53"
proof -
  consider "x = 0" | "0 < x" | "x < 0" by linarith
  then show ?thesis
  proof cases
    case 3
    then have "\<bar>f64pos (- x) - (- x)\<bar> \<le> (- x) / 2 ^ 53" by (intro f64pos_error) simp
    moreover have "\<bar>f64 x - x\<bar> = \<bar>f64pos (- x) - (- x)\<bar>" using 3 by (simp add: f64_def)
    ultimately show ?thesis using 3 by simp
  qed (use f64pos_error [of x] in \<open>simp_all add: f64_def\<close>)
qed

lemma f64_nonneg: "0 \<le> x \<Longrightarrow> 0 \<le> f64 x"
  using f64_error [of x] unfolding abs_le_iff by simp

lemma f64_upper: "0 \<le> x \<Longrightarrow> f64 x \<le> x * (1 + 1 / 2 ^ 53)"
  using f64_error [of x] unfolding abs_le_iff by (simp add: algebra_simps)

lemma f64_0 [simp]: "f64 0 = 0"
  by (simp add: f64_def)

lemma f64pos_int_multiple:
  assumes "0 < x" and "x = of_int n * pow2 (exponent x - 52)"
  shows "f64pos x = x"
proof -
  have "x / pow2 (exponent x - 52) = of_int n"
    using assms(2) pow2_pos [of "exponent x - 52"] by (simp add: nonzero_divide_eq_eq)
  then show ?thesis using assms(2) by (simp add: f64pos_def Let_def)
qed

lemma exponent_less:
  assumes "0 < x" and "x < pow2 k"
  shows "exponent x < k"
proof (rule ccontr)
  assume "\<not> exponent x < k"
  then have "pow2 k \<le> pow2 (exponent x)" by (simp add: pow2_le)
  then show False using exponent_bounds(1) [OF assms(1)] assms(2) by simp
qed

text \<open>Integers below \<open>2\<^sup>5\<^sup>3\<close> are represented exactly.\<close>

lemma f64_of_int:
  assumes "\<bar>n\<bar> < 2 ^ 53"
  shows "f64 (of_int n) = of_int n"
proof -
  have pos: "f64pos (of_int k) = of_int k" if k: "0 < k" "k < 2 ^ 53" for k :: int
  proof (rule f64pos_int_multiple [where n = "k * 2 ^ nat (52 - exponent (of_int k))"])
    show "(0 :: rat) < of_int k" using k by simp
    have "of_int k < (pow2 53 :: rat)" using k(2) by (simp add: pow2_def)
    then have e: "exponent (of_int k) \<le> 52" using exponent_less [of "of_int k" 53] k by simp
    have "(2 ^ nat (52 - exponent (of_int k)) :: rat) * pow2 (exponent (of_int k) - 52) = 1"
      using e by (simp add: pow2_def)
    then show "(of_int k :: rat) = of_int (k * 2 ^ nat (52 - exponent (of_int k))) * pow2 (exponent (of_int k) - 52)"
      by simp
  qed
  show ?thesis
    using pos [of n] pos [of "- n"] assms by (auto simp: f64_def)
qed

lemma f64pos_scaled:
  assumes "0 < x"
  shows "pow2 (exponent x) \<le> f64pos x" and "f64pos x \<le> pow2 (exponent x + 1)"
proof -
  let ?s = "pow2 (exponent x - 52)"
  have s: "pow2 (exponent x) / ?s = of_int (2 ^ 52)" "pow2 (exponent x + 1) / ?s = of_int (2 ^ 53)"
    by (simp_all add: pow2_powi power_int_diff power_int_add)
  have "of_int (2 ^ 52) \<le> x / ?s" "x / ?s \<le> of_int (2 ^ 53)"
    unfolding s [symmetric] using exponent_bounds [OF assms]
    by (intro divide_right_mono; simp)+
  then have "2 ^ 52 \<le> round_even (x / ?s)" "round_even (x / ?s) \<le> 2 ^ 53"
    using round_even_mono round_even_of_int by metis+
  then have "of_int (2 ^ 52) * ?s \<le> f64pos x" "f64pos x \<le> of_int (2 ^ 53) * ?s"
    unfolding f64pos_def Let_def by (intro mult_right_mono; simp)+
  then show "pow2 (exponent x) \<le> f64pos x" "f64pos x \<le> pow2 (exponent x + 1)"
    unfolding s [symmetric] by simp_all
qed

lemma f64pos_mono:
  assumes "0 < x" and "x \<le> y"
  shows "f64pos x \<le> f64pos y"
proof (cases "exponent x = exponent y")
  case True
  have "round_even (x / pow2 (exponent y - 52)) \<le> round_even (y / pow2 (exponent y - 52))"
    using assms by (intro round_even_mono divide_right_mono) auto
  then show ?thesis
    using True by (simp add: f64pos_def Let_def mult_right_mono)
next
  case False
  have "exponent x < exponent y + 1"
    using exponent_less [of x "exponent y + 1"] exponent_bounds(2) [of y] assms by simp
  then have "pow2 (exponent x + 1) \<le> pow2 (exponent y)"
    using False by (intro pow2_le) simp
  then show ?thesis
    using f64pos_scaled [of x] f64pos_scaled [of y] assms by simp
qed

lemma f64_mono: "0 \<le> x \<Longrightarrow> x \<le> y \<Longrightarrow> f64 x \<le> f64 y"
  using f64pos_mono [of x y] f64_nonneg [of y] by (cases "x = 0") (auto simp: f64_def)

end
