(* ===== verification/Json.thy ===== *)
theory Json
  imports Prelude Float64 "HOL-Library.Char_ord" "HOL-Library.List_Lexorder"
begin

text \<open>
  What the gateway uses of \<^verbatim>\<open>encoding/json\<close>: the scanner behind \<^verbatim>\<open>json.Valid\<close>, the decoder into \<^verbatim>\<open>any\<close>
  (\<^verbatim>\<open>json.Unmarshal\<close>) and the encoder (\<^verbatim>\<open>json.Marshal\<close>), and \<^verbatim>\<open>strconv.Quote\<close> on bytes.

  A value keeps its numbers as literals and its objects as lists of members in the order of the
  text.  Choosing the shortest decimal of a float64 is left to an argument \<open>fmt\<close>.
\<close>

section \<open>Values and strings\<close>

datatype json =
  JNull
| JBool bool
| JNum string
| JStr string
| JArr "json list"
| JObj "(string \<times> json) list"

definition isJsonSpace :: "char \<Rightarrow> bool" where
  "isJsonSpace c \<longleftrightarrow> c \<in> {CHR '' '', CHR 0x09, CHR 0x0D, CHR 0x0A}"

definition jskip :: "string \<Rightarrow> string" where
  "jskip s = dropWhile isJsonSpace s"

definition jsonDigit :: "char \<Rightarrow> bool" where
  "jsonDigit c = byte_in 48 57 c"

definition isHex :: "char \<Rightarrow> bool" where
  "isHex c \<longleftrightarrow> fromHexChar c \<noteq> None"

text \<open>The rest of a string literal after its opening quote: its raw contents and what follows.\<close>

fun scanStr :: "string \<Rightarrow> (string \<times> string) option" where
  "scanStr [] = None"
| "scanStr (c # s) =
     (if c = CHR 0x22 then Some ([], s)
      else if c = CHR 0x5C then
        (case s of
           [] \<Rightarrow> None
         | e # s' \<Rightarrow>
             (if e \<in> {CHR 0x22, CHR 0x5C, CHR ''/'', CHR ''b'', CHR ''f'', CHR ''n'', CHR ''r'', CHR ''t''}
              then map_option (\<lambda>(a, r). (c # e # a, r)) (scanStr s')
              else if e = CHR ''u'' then
                (case s' of
                   h1 # h2 # h3 # h4 # s'' \<Rightarrow>
                     (if isHex h1 \<and> isHex h2 \<and> isHex h3 \<and> isHex h4
                      then map_option (\<lambda>(a, r). (c # e # h1 # h2 # h3 # h4 # a, r)) (scanStr s'')
                      else None)
                 | _ \<Rightarrow> None)
              else None))
      else if byte_in 0 0x1F c then None
      else map_option (\<lambda>(a, r). (c # a, r)) (scanStr s))"

definition utf8_encode :: "int \<Rightarrow> string" where
  "utf8_encode r =
     map char_of
       (if r < 0x80 then [r]
        else if r < 0x800 then [0xC0 + r div 64, 0x80 + r mod 64]
        else if r < 0x10000 then [0xE0 + r div 4096, 0x80 + r div 64 mod 64, 0x80 + r mod 64]
        else [0xF0 + r div 262144, 0x80 + r div 4096 mod 64, 0x80 + r div 64 mod 64, 0x80 + r mod 64])"

definition hexval :: "char \<Rightarrow> int" where
  "hexval c = (case fromHexChar c of None \<Rightarrow> 0 | Some x \<Rightarrow> x)"

text \<open>\<^verbatim>\<open>getu4\<close>: the code unit of an escape at the head, or -1.\<close>

definition getu4 :: "string \<Rightarrow> int" where
  "getu4 s =
     (case s of
        b # u # h1 # h2 # h3 # h4 # _ \<Rightarrow>
          (if b = CHR 0x5C \<and> u = CHR ''u'' \<and> isHex h1 \<and> isHex h2 \<and> isHex h3 \<and> isHex h4
           then ((hexval h1 * 16 + hexval h2) * 16 + hexval h3) * 16 + hexval h4 else -1)
      | _ \<Rightarrow> -1)"

definition escapeByte :: "char \<Rightarrow> char" where
  "escapeByte e =
     (if e = CHR ''b'' then CHR 0x08 else if e = CHR ''f'' then CHR 0x0C
      else if e = CHR ''n'' then CHR 0x0A else if e = CHR ''r'' then CHR 0x0D
      else if e = CHR ''t'' then CHR 0x09 else e)"

text \<open>
  \<^verbatim>\<open>unquote\<close> on the contents of a scanned literal; \<open>unquoteStep\<close> gives the bytes and how far to go.
  The scanner admits no escape but those of JSON, so the branches for others are not reached.
\<close>

definition unquoteStep :: "string \<Rightarrow> string \<times> nat" where
  "unquoteStep s =
     (case s of
        [] \<Rightarrow> ([], 1)
      | [c] \<Rightarrow> (if byte_in 0 0x7F c then [c] else RuneError_bytes, 1)
      | c # e # _ \<Rightarrow>
          (if c = CHR 0x5C then
             (if e = CHR ''u'' then
                (let rr = getu4 s; r2 = getu4 (drop 6 s)
                 in if 0xD800 \<le> rr \<and> rr < 0xDC00 \<and> 0xDC00 \<le> r2 \<and> r2 < 0xE000
                    then (utf8_encode (0x10000 + (rr - 0xD800) * 0x400 + (r2 - 0xDC00)), 12)
                    else if rr < 0 \<or> 0xD800 \<le> rr \<and> rr < 0xE000 then (RuneError_bytes, 6)
                    else (utf8_encode rr, 6))
              else (if byte_in 0 0x7F e then [escapeByte e] else RuneError_bytes, 2))
           else
             (case utf8_width s of
                Some n \<Rightarrow> (take n s, n)
              | None \<Rightarrow> (RuneError_bytes, 1))))"

lemma unquoteStep_pos: "s \<noteq> [] \<Longrightarrow> 0 < snd (unquoteStep s)"
  by (auto simp: unquoteStep_def Let_def split: list.split option.split dest: utf8_width_pos)

function unquote :: "string \<Rightarrow> string" where
  "unquote s = (if s = [] then [] else case unquoteStep s of (b, n) \<Rightarrow> b @ unquote (drop n s))"
  by pat_completeness auto
termination
proof (relation "measure length")
  show "(drop n s, s) \<in> measure length" if "s \<noteq> []" "(b, n) = unquoteStep s" for s b n
  proof -
    have "0 < n" using unquoteStep_pos [OF that(1)] by (simp flip: that(2))
    then show ?thesis using that(1) by simp
  qed
qed simp

declare unquote.simps [simp del]


section \<open>The parser\<close>

definition spanDigits :: "string \<Rightarrow> string \<times> string" where
  "spanDigits s = (takeWhile jsonDigit s, dropWhile jsonDigit s)"

definition scanFrac :: "string \<Rightarrow> (string \<times> string) option" where
  "scanFrac s =
     (case s of
        c # s' \<Rightarrow>
          (if c = CHR ''.'' then
             (let (ds, r) = spanDigits s' in if ds = [] then None else Some (c # ds, r))
           else Some ([], s))
      | [] \<Rightarrow> Some ([], s))"

definition scanExp :: "string \<Rightarrow> (string \<times> string) option" where
  "scanExp s =
     (case s of
        c # s' \<Rightarrow>
          (if c = CHR ''e'' \<or> c = CHR ''E'' then
             (let (sign, s'') = (case s' of
                    d # t \<Rightarrow> if d = CHR ''+'' \<or> d = CHR ''-'' then ([d], t) else ([], s')
                  | [] \<Rightarrow> ([], s'));
                  (ds, r) = spanDigits s''
              in if ds = [] then None else Some (c # sign @ ds, r))
           else Some ([], s))
      | [] \<Rightarrow> Some ([], s))"

definition scanNum :: "string \<Rightarrow> (string \<times> string) option" where
  "scanNum s =
     (let (sign, s1) = (case s of c # t \<Rightarrow> if c = CHR ''-'' then ([c], t) else ([], s) | [] \<Rightarrow> ([], s));
          (ds, s2) = (case s1 of
             c # t \<Rightarrow> if c = CHR ''0'' then ([c], t) else spanDigits s1
           | [] \<Rightarrow> ([], s1))
      in if ds = [] then None
         else Option.bind (scanFrac s2) (\<lambda>(fr, s3).
              map_option (\<lambda>(ex, s4). (sign @ ds @ fr @ ex, s4)) (scanExp s3)))"

definition maxNestingDepth :: nat where
  "maxNestingDepth = 10000"

definition scanLit :: "string \<Rightarrow> json \<Rightarrow> string \<Rightarrow> (json \<times> string) option" where
  "scanLit lit v s = (if prefix lit s then Some (v, drop (length lit) s) else None)"

text \<open>
  The first argument bounds the number of nested calls; every value, element list and member
  list costs one, so twice the length of the text and two more are always enough.
\<close>

fun parseValue :: "nat \<Rightarrow> nat \<Rightarrow> string \<Rightarrow> (json \<times> string) option"
  and parseElems :: "nat \<Rightarrow> nat \<Rightarrow> string \<Rightarrow> (json list \<times> string) option"
  and parseMembers :: "nat \<Rightarrow> nat \<Rightarrow> string \<Rightarrow> ((string \<times> json) list \<times> string) option" where
  "parseValue 0 d s = None"
| "parseValue (Suc n) d s =
     (case jskip s of
        [] \<Rightarrow> None
      | c # r \<Rightarrow>
          (if c = CHR 0x22 then map_option (\<lambda>(raw, r'). (JStr (unquote raw), r')) (scanStr r)
           else if c = CHR ''{'' then
             (if d < maxNestingDepth then
                (if prefix ''}'' (jskip r) then Some (JObj [], tl (jskip r))
                 else map_option (\<lambda>(ms, r'). (JObj ms, r')) (parseMembers n (Suc d) r))
              else None)
           else if c = CHR ''['' then
             (if d < maxNestingDepth then
                (if prefix '']'' (jskip r) then Some (JArr [], tl (jskip r))
                 else map_option (\<lambda>(vs, r'). (JArr vs, r')) (parseElems n (Suc d) r))
              else None)
           else if c = CHR ''t'' then scanLit ''true'' (JBool True) (c # r)
           else if c = CHR ''f'' then scanLit ''false'' (JBool False) (c # r)
           else if c = CHR ''n'' then scanLit ''null'' JNull (c # r)
           else map_option (\<lambda>(lit, r'). (JNum lit, r')) (scanNum (c # r))))"
| "parseElems 0 d s = None"
| "parseElems (Suc n) d s =
     (case parseValue n d s of
        None \<Rightarrow> None
      | Some (v, r) \<Rightarrow>
          (case jskip r of
             [] \<Rightarrow> None
           | c # r' \<Rightarrow>
               (if c = CHR '']'' then Some ([v], r')
                else if c = CHR '','' then map_option (\<lambda>(vs, r''). (v # vs, r'')) (parseElems n d r')
                else None)))"
| "parseMembers 0 d s = None"
| "parseMembers (Suc n) d s =
     (case jskip s of
        [] \<Rightarrow> None
      | q # r \<Rightarrow>
          (if q \<noteq> CHR 0x22 then None
           else (case scanStr r of
             None \<Rightarrow> None
           | Some (raw, r1) \<Rightarrow>
               (case jskip r1 of
                  [] \<Rightarrow> None
                | c # r2 \<Rightarrow>
                    (if c \<noteq> CHR '':'' then None
                     else (case parseValue n d r2 of
                       None \<Rightarrow> None
                     | Some (v, r3) \<Rightarrow>
                         (case jskip r3 of
                            [] \<Rightarrow> None
                          | c' # r4 \<Rightarrow>
                              (if c' = CHR ''}'' then Some ([(unquote raw, v)], r4)
                               else if c' = CHR '','' then
                                 map_option (\<lambda>(ms, r5). ((unquote raw, v) # ms, r5)) (parseMembers n d r4)
                               else None)))))))) "

definition parseFuel :: "string \<Rightarrow> nat" where
  "parseFuel s = 2 * length s + 2"

text \<open>The first value of a stream, and a text that is one value.\<close>

definition json_first :: "string \<Rightarrow> (json \<times> string) option" where
  "json_first s = parseValue (parseFuel s) 0 s"

definition json_parse :: "string \<Rightarrow> json option" where
  "json_parse s = (case json_first s of Some (v, r) \<Rightarrow> if jskip r = [] then Some v else None | None \<Rightarrow> None)"

definition json_Valid :: "string \<Rightarrow> bool" where
  "json_Valid s \<longleftrightarrow> json_parse s \<noteq> None"


section \<open>The encoder\<close>

definition hexDigits :: "char \<Rightarrow> string" where
  "hexDigits c = hex_EncodeToString [c]"

text \<open>\<^verbatim>\<open>appendString\<close> with HTML escaping, on one rune of a valid string.\<close>

definition encodeRune :: "string \<Rightarrow> string" where
  "encodeRune r =
     (case r of
        [c] \<Rightarrow>
          (if c = CHR 0x22 \<or> c = CHR 0x5C then [CHR 0x5C, c]
           else if c = CHR 0x08 then [CHR 0x5C, CHR ''b''] else if c = CHR 0x0C then [CHR 0x5C, CHR ''f'']
           else if c = CHR 0x0A then [CHR 0x5C, CHR ''n''] else if c = CHR 0x0D then [CHR 0x5C, CHR ''r'']
           else if c = CHR 0x09 then [CHR 0x5C, CHR ''t'']
           else if byte_in 0 0x1F c \<or> c \<in> {CHR ''<'', CHR ''>'', CHR ''&''} then CHR 0x5C # ''u00'' @ hexDigits c
           else [c])
      | _ \<Rightarrow>
          (if r = [CHR 0xE2, CHR 0x80, CHR 0xA8] then CHR 0x5C # ''u2028''
           else if r = [CHR 0xE2, CHR 0x80, CHR 0xA9] then CHR 0x5C # ''u2029''
           else r))"

text \<open>An invalid byte is written as an escape of the replacement rune.\<close>

function encodeRunes :: "string \<Rightarrow> string" where
  "encodeRunes s =
     (if s = [] then []
      else (case utf8_width s of
              Some n \<Rightarrow> encodeRune (take n s) @ encodeRunes (drop n s)
            | None \<Rightarrow> CHR 0x5C # ''ufffd'' @ encodeRunes (tl s)))"
  by pat_completeness auto
termination
  by (relation "measure length") (auto dest: utf8_width_pos)

declare encodeRunes.simps [simp del]

definition encodeString :: "string \<Rightarrow> string" where
  "encodeString s = CHR 0x22 # encodeRunes s @ [CHR 0x22]"

fun json_encode :: "json \<Rightarrow> string" where
  "json_encode JNull = ''null''"
| "json_encode (JBool b) = (if b then ''true'' else ''false'')"
| "json_encode (JNum lit) = lit"
| "json_encode (JStr s) = encodeString s"
| "json_encode (JArr vs) = ''['' @ strings_Join (map json_encode vs) '','' @ '']''"
| "json_encode (JObj ms) =
     ''{'' @ strings_Join (map (\<lambda>(k, v). encodeString k @ '':'' @ json_encode v) ms) '','' @ ''}''"


section \<open>Strings survive encoding\<close>

lemma scanStr_plain:
  "\<forall>c \<in> set bs. high c \<Longrightarrow> scanStr (bs @ t) = map_option (\<lambda>(a, r). (bs @ a, r)) (scanStr t)"
  by (induction bs) (auto simp: high_def byte_in_def option.map_comp o_def split_def option.map_ident)

lemma utf8_width_append:
  assumes "utf8_width s = Some n"
  shows "utf8_width (take n s @ t) = Some n"
proof (cases s)
  case (Cons b0 r)
  then show ?thesis
    using assms unfolding utf8_width_def
    by (simp split: if_split_asm list.split_asm) (auto simp: eval_nat_numeral)
qed (use assms in \<open>simp add: utf8_width_def\<close>)

lemma hexDigits_cases:
  obtains a b where "hexDigits c = [a, b]" "isHex a" "isHex b" "16 * hexval a + hexval b = of_char c"
proof -
  let ?n = "of_char c :: nat"
  have lt: "?n div 16 < 16" "?n mod 16 < 16"
    using nat_of_char_less_256 [of c] by (auto simp: less_mult_imp_div_less)
  have "(of_char c :: int) = int ?n" by (simp only: of_nat_of_char)
  also have "\<dots> = 16 * int (?n div 16) + int (?n mod 16)"
    using mult_div_mod_eq [of 16 ?n] by (metis of_nat_add of_nat_mult of_nat_numeral)
  finally have "(of_char c :: int) = 16 * int (?n div 16) + int (?n mod 16)" .
  then show thesis
    using that [of "hextable ! (of_char c div 16)" "hextable ! (of_char c mod 16)"]
      fromHexChar_hextable [OF lt(1)] fromHexChar_hextable [OF lt(2)]
    by (simp add: hexDigits_def hex_EncodeToString_def isHex_def hexval_def)
qed


lemma getu4_short: "isHex a \<Longrightarrow> isHex b \<Longrightarrow> getu4 (CHR 0x5C # CHR ''u'' # CHR ''0'' # CHR ''0'' # a # b # t) = 16 * hexval a + hexval b"
  by (simp add: getu4_def isHex_def hexval_def fromHexChar_def byte_in_def)

lemma isHex_consts: "isHex CHR ''0''" "isHex CHR ''2''" "isHex CHR ''8''" "isHex CHR ''9''"
  by (simp_all add: isHex_def fromHexChar_def byte_in_def)

lemma utf8_encode_ascii: "of_char c < (0x80 :: int) \<Longrightarrow> utf8_encode (of_char c) = [c]"
  by (simp add: utf8_encode_def)

lemma unquote_step: "unquoteStep s = (b, n) \<Longrightarrow> s \<noteq> [] \<Longrightarrow> unquote s = b @ unquote (drop n s)"
  by (subst unquote.simps) simp

lemma line_separators:
  "utf8_encode 0x2028 = [CHR 0xE2, CHR 0x80, CHR 0xA8]" "utf8_encode 0x2029 = [CHR 0xE2, CHR 0x80, CHR 0xA9]"
  by code_simp+

lemma encodeRune_long:
  "length r \<noteq> 1 \<Longrightarrow>
   encodeRune r = (if r = [CHR 0xE2, CHR 0x80, CHR 0xA8] then CHR 0x5C # ''u2028''
                   else if r = [CHR 0xE2, CHR 0x80, CHR 0xA9] then CHR 0x5C # ''u2029'' else r)"
  by (cases r; cases "tl r") (simp_all add: encodeRune_def)

text \<open>One rune of a valid string, as it is written and as it is read.\<close>

lemma scanStr_rune:
  assumes "utf8_width s = Some n"
  shows "scanStr (encodeRune (take n s) @ t) = map_option (\<lambda>(a, r). (encodeRune (take n s) @ a, r)) (scanStr t)"
proof (cases "n = 1")
  case True
  then obtain c where c: "take n s = [c]" using utf8_width_pos [OF assms] by (cases s) auto
  obtain a b where "hexDigits c = [a, b]" "isHex a" "isHex b" by (rule hexDigits_cases)
  then show ?thesis
    by (simp add: c encodeRune_def isHex_consts)
next
  case False
  note hi = utf8_width_high [OF assms False]
  have "length (take n s) \<noteq> 1" using utf8_width_pos [OF assms] False by auto
  then have "encodeRune (take n s) = take n s \<or> encodeRune (take n s) = CHR 0x5C # ''u2028'' \<or>
      encodeRune (take n s) = CHR 0x5C # ''u2029''"
    using encodeRune_long [of "take n s"] by presburger
  then show ?thesis
    using scanStr_plain [OF hi, of t] by (elim disjE) (simp_all add: isHex_consts)
qed

lemma unquote_rune:
  assumes "utf8_width s = Some n"
  shows "unquote (encodeRune (take n s) @ t) = take n s @ unquote t"
proof (cases "n = 1")
  case True
  then obtain c where c: "take n s = [c]" and lt: "byte_in 0 0x7F c"
    using assms by (cases s) (auto simp: utf8_width_def split: if_splits list.splits)
  obtain a b where h: "hexDigits c = [a, b]" "isHex a" "isHex b" "16 * hexval a + hexval b = of_char c"
    by (rule hexDigits_cases)
  have u: "unquoteStep (CHR 0x5C # CHR ''u'' # CHR ''0'' # CHR ''0'' # a # b # t) = ([c], 6)"
    using lt by (simp add: unquoteStep_def getu4_short h utf8_encode_ascii byte_in_def)
  have plain: "unquoteStep (c # t) = ([c], 1)" if "c \<noteq> CHR 0x5C"
    using lt that by (cases t) (auto simp: unquoteStep_def utf8_width_def)
  have esc: "unquoteStep (CHR 0x5C # e # t) = ([escapeByte e], 2)" if "e \<noteq> CHR ''u''" "byte_in 0 0x7F e" for e
    using that by (simp add: unquoteStep_def)
  show ?thesis
    using unquote_step [OF u] unquote_step [OF plain] unquote_step [OF esc]
    by (simp add: c encodeRune_def h(1) escapeByte_def byte_in_def)
next
  case False
  note hi = utf8_width_high [OF assms False]
  have len: "length (take n s) = n" "n \<noteq> 1" "n \<noteq> 0" using utf8_width_pos [OF assms] False by auto
  consider "encodeRune (take n s) = take n s" | "take n s = [CHR 0xE2, CHR 0x80, CHR 0xA8]" | "take n s = [CHR 0xE2, CHR 0x80, CHR 0xA9]"
    using encodeRune_long [of "take n s"] len(1,2) by metis
  then show ?thesis
  proof cases
    case 1
    obtain x y zs where r: "take n s = x # y # zs" using len by (cases "take n s" rule: remdups_adj.cases) auto
    have "unquoteStep (take n s @ t) = (take n s, n)"
      using utf8_width_append [OF assms, of t] hi len(1) by (auto simp: unquoteStep_def r high_def)
    from unquote_step [OF this] show ?thesis using 1 len by (auto simp: r)
  next
    case 2
    have "unquoteStep (CHR 0x5C # ''u2028'' @ t) = (take n s, 6)"
      unfolding 2 by (simp add: unquoteStep_def getu4_def isHex_consts hexval_def fromHexChar_def byte_in_def line_separators)
    from unquote_step [OF this] show ?thesis by (simp add: 2 encodeRune_def)
  next
    case 3
    have "unquoteStep (CHR 0x5C # ''u2029'' @ t) = (take n s, 6)"
      unfolding 3 by (simp add: unquoteStep_def getu4_def isHex_consts hexval_def fromHexChar_def byte_in_def line_separators)
    from unquote_step [OF this] show ?thesis by (simp add: 3 encodeRune_def)
  qed
qed


lemma encodeString_roundtrip:
  assumes "valid_utf8 s"
  shows "scanStr (encodeRunes s @ CHR 0x22 # t) = Some (encodeRunes s, t) \<and> unquote (encodeRunes s) = s"
  using assms
proof (induction s rule: length_induct)
  case (1 s)
  show ?case
  proof (cases "s = []")
    case True
    then show ?thesis by (simp add: encodeRunes.simps unquote.simps)
  next
    case False
    then obtain n where n: "utf8_width s = Some n" "valid_utf8 (drop n s)"
      using 1(2) valid_utf8_Some by blast
    have enc: "encodeRunes s = encodeRune (take n s) @ encodeRunes (drop n s)"
      using False n(1) by (subst encodeRunes.simps) simp
    have "length (drop n s) < length s" using utf8_width_pos [OF n(1)] by auto
    then have IH: "scanStr (encodeRunes (drop n s) @ CHR 0x22 # t) = Some (encodeRunes (drop n s), t)"
        "unquote (encodeRunes (drop n s)) = drop n s"
      using 1(1) n(2) by blast+
    show ?thesis
      using scanStr_rune [OF n(1), of "encodeRunes (drop n s) @ CHR 0x22 # t"] unquote_rune [OF n(1)]
      by (simp add: enc IH)
  qed
qed


section \<open>Values survive encoding\<close>

text \<open>Values whose strings are valid, whose numbers are number literals, and which are not too deep.\<close>

fun json_wf :: "json \<Rightarrow> bool" where
  "json_wf (JNum lit) \<longleftrightarrow> scanNum lit = Some (lit, [])"
| "json_wf (JStr s) \<longleftrightarrow> valid_utf8 s"
| "json_wf (JArr vs) \<longleftrightarrow> (\<forall>v \<in> set vs. json_wf v)"
| "json_wf (JObj ms) \<longleftrightarrow> (\<forall>(k, v) \<in> set ms. valid_utf8 k \<and> json_wf v)"
| "json_wf _ \<longleftrightarrow> True"

fun jdepth :: "json \<Rightarrow> nat" where
  "jdepth (JArr vs) = Suc (fold max (map jdepth vs) 0)"
| "jdepth (JObj ms) = Suc (fold max (map (\<lambda>(k, v). jdepth v) ms) 0)"
| "jdepth _ = 0"

fun jfuel :: "json \<Rightarrow> nat" where
  "jfuel (JArr vs) = Suc (sum_list (map (\<lambda>v. Suc (jfuel v)) vs))"
| "jfuel (JObj ms) = Suc (sum_list (map (\<lambda>(k, v). Suc (jfuel v)) ms))"
| "jfuel _ = 1"

text \<open>What may follow a value inside a text.\<close>

definition delim :: "string \<Rightarrow> bool" where
  "delim t \<longleftrightarrow> (case t of [] \<Rightarrow> True | c # _ \<Rightarrow> c \<in> {CHR '','', CHR '']'', CHR ''}''})"

lemma fold_max_le: "fold max xs (a :: nat) \<le> m \<longleftrightarrow> a \<le> m \<and> (\<forall>x \<in> set xs. x \<le> m)"
  by (induction xs arbitrary: a) auto

lemma delim_digit: "delim t \<Longrightarrow> takeWhile jsonDigit t = [] \<and> dropWhile jsonDigit t = t"
  by (auto simp: delim_def jsonDigit_def byte_in_def split: list.splits)

lemma spanDigits_append:
  "delim t \<Longrightarrow> spanDigits (s @ t) = (case spanDigits s of (ds, r) \<Rightarrow> (ds, r @ t))"
  using delim_digit [of t]
  by (induction s) (auto simp: spanDigits_def)

lemma scanFrac_append: "scanFrac s = Some (a, r) \<Longrightarrow> delim t \<Longrightarrow> scanFrac (s @ t) = Some (a, r @ t)"
  by (cases s)
     (auto simp: scanFrac_def delim_def spanDigits_append split: list.splits if_splits prod.splits)

lemma scanExp_append: "scanExp s = Some (a, r) \<Longrightarrow> delim t \<Longrightarrow> scanExp (s @ t) = Some (a, r @ t)"
  using spanDigits_append [of t]
  by (cases s; cases "tl s")
     (auto simp: scanExp_def delim_def Let_def spanDigits_def split: list.splits if_splits prod.splits)

lemma scanNum_append:
  assumes "scanNum s = Some (a, r)" and "delim t"
  shows "scanNum (s @ t) = Some (a, r @ t)"
proof -
  obtain sign s1 where sign: "(case s of c # u \<Rightarrow> if c = CHR ''-'' then ([c], u) else ([], s) | [] \<Rightarrow> ([], s)) = (sign, s1)"
    by fastforce
  obtain ds s2 where ds: "(case s1 of c # u \<Rightarrow> if c = CHR ''0'' then ([c], u) else spanDigits s1 | [] \<Rightarrow> ([], s1)) = (ds, s2)"
    by fastforce
  obtain fr s3 ex where rest: "ds \<noteq> []" "scanFrac s2 = Some (fr, s3)" "scanExp s3 = Some (ex, r)" "a = sign @ ds @ fr @ ex"
    using assms(1) unfolding scanNum_def sign Let_def prod.case ds
    by (auto simp: bind_eq_Some_conv split: if_splits)
  have s1: "s1 \<noteq> []" using ds rest(1) by (cases s1) auto
  then have "s \<noteq> []" using sign by (cases s) auto
  then have sign': "(case s @ t of c # u \<Rightarrow> if c = CHR ''-'' then ([c], u) else ([], s @ t) | [] \<Rightarrow> ([], s @ t)) = (sign, s1 @ t)"
    using sign by (cases s) (auto split: if_splits)
  have ds': "(case s1 @ t of c # u \<Rightarrow> if c = CHR ''0'' then ([c], u) else spanDigits (s1 @ t) | [] \<Rightarrow> ([], s1 @ t)) = (ds, s2 @ t)"
    using ds s1 spanDigits_append [OF assms(2), of s1] by (cases s1) (auto split: if_splits prod.splits)
  show ?thesis
    unfolding scanNum_def sign' Let_def prod.case ds'
    using rest scanFrac_append [OF rest(2) assms(2)] scanExp_append [OF rest(3) assms(2)] by simp
qed


lemma scanNum_first:
  assumes "scanNum lit = Some (lit, [])"
  obtains c r where "lit = c # r" "c = CHR ''-'' \<or> jsonDigit c"
proof (cases lit)
  case Nil
  then show thesis using assms by (simp add: scanNum_def)
next
  case (Cons c r)
  have "c = CHR ''-'' \<or> jsonDigit c"
  proof (rule ccontr)
    assume "\<not> (c = CHR ''-'' \<or> jsonDigit c)"
    then have c: "c \<noteq> CHR ''-''" "\<not> jsonDigit c" "c \<noteq> CHR ''0''" by (auto simp: jsonDigit_def byte_in_def)
    then show False using assms by (simp add: Cons scanNum_def spanDigits_def)
  qed
  then show thesis using that Cons by blast
qed

lemma parse_number:
  assumes "scanNum lit = Some (lit, [])" and "delim t" and "0 < n"
  shows "parseValue n d (lit @ t) = Some (JNum lit, t)"
proof -
  obtain c r where lit: "lit = c # r" "c = CHR ''-'' \<or> jsonDigit c"
    using scanNum_first [OF assms(1)] .
  then have c: "\<not> isJsonSpace c" "c \<noteq> CHR 0x22" "c \<noteq> CHR ''{''" "c \<noteq> CHR ''[''" "c \<noteq> CHR ''t''" "c \<noteq> CHR ''f''" "c \<noteq> CHR ''n''"
    by (auto simp: isJsonSpace_def jsonDigit_def byte_in_def)
  obtain m where "n = Suc m" using assms(3) gr0_implies_Suc by blast
  then show ?thesis
    using scanNum_append [OF assms(1,2)] c by (simp add: lit(1) jskip_def)
qed

lemma jskip_Cons: "\<not> isJsonSpace c \<Longrightarrow> jskip (c # s) = c # s"
  by (simp add: jskip_def)

lemma jskip_punct [simp]:
  "jskip (CHR '','' # s) = CHR '','' # s" "jskip (CHR '']'' # s) = CHR '']'' # s"
  "jskip (CHR ''}'' # s) = CHR ''}'' # s" "jskip (CHR '':'' # s) = CHR '':'' # s"
  "jskip (CHR 0x22 # s) = CHR 0x22 # s" "jskip (CHR ''['' # s) = CHR ''['' # s" "jskip (CHR ''{'' # s) = CHR ''{'' # s"
  "jskip (CHR ''t'' # s) = CHR ''t'' # s" "jskip (CHR ''f'' # s) = CHR ''f'' # s" "jskip (CHR ''n'' # s) = CHR ''n'' # s"
  by (simp_all add: jskip_def isJsonSpace_def)

lemma delim_punct [simp]: "delim (CHR '','' # t)" "delim (CHR '']'' # t)" "delim (CHR ''}'' # t)"
  by (simp_all add: delim_def)

lemma json_encode_first:
  assumes "json_wf v"
  obtains c r where "json_encode v = c # r" "\<not> isJsonSpace c" "c \<noteq> CHR '']''"
proof (cases v)
  case (JNum lit)
  obtain c r where "lit = c # r" "c = CHR ''-'' \<or> jsonDigit c"
    using scanNum_first [of lit] assms JNum by auto
  moreover from this(2) have "\<not> isJsonSpace c" "c \<noteq> CHR '']''" by (auto simp: isJsonSpace_def jsonDigit_def byte_in_def)
  ultimately show thesis using that [of c r] by (simp add: JNum)
next
  case (JBool b)
  then show thesis using that by (cases b) (simp_all add: isJsonSpace_def)
qed (use that in \<open>simp_all add: isJsonSpace_def encodeString_def\<close>)

lemma strings_Join_step:
  "strings_Join (x # xs) sep = (if xs = [] then x else x @ sep @ strings_Join xs sep)"
  by (cases xs) auto

lemma parse_elems:
  assumes "\<And>v n d t. v \<in> set vs \<Longrightarrow> jfuel v \<le> n \<Longrightarrow> d + jdepth v \<le> maxNestingDepth \<Longrightarrow> delim t \<Longrightarrow>
      parseValue n d (json_encode v @ t) = Some (v, t)"
    and "vs \<noteq> []" and "sum_list (map (\<lambda>v. Suc (jfuel v)) vs) \<le> n" and "\<forall>v \<in> set vs. d + jdepth v \<le> maxNestingDepth"
  shows "parseElems n d (strings_Join (map json_encode vs) '','' @ CHR '']'' # t) = Some (vs, t)"
  using assms
proof (induction vs arbitrary: n)
  case (Cons v vs)
  obtain m where n: "n = Suc m" using Cons.prems(3) by (cases n) auto
  have pv: "parseValue m d (json_encode v @ u) = Some (v, u)" if "delim u" for u
    using Cons.prems(1) [of v m d u] Cons.prems(3,4) that n by simp
  have rest: "vs \<noteq> [] \<Longrightarrow> parseElems m d (strings_Join (map json_encode vs) '','' @ CHR '']'' # t) = Some (vs, t)"
    using Cons.prems(3,4) n by (intro Cons.IH Cons.prems(1)) auto
  show ?case
    by (cases "vs = []") (simp_all add: n strings_Join_step pv rest)
qed simp

lemma parse_members:
  assumes "\<And>k v n d t. (k, v) \<in> set ms \<Longrightarrow> jfuel v \<le> n \<Longrightarrow> d + jdepth v \<le> maxNestingDepth \<Longrightarrow> delim t \<Longrightarrow>
      parseValue n d (json_encode v @ t) = Some (v, t)"
    and "ms \<noteq> []" and "sum_list (map (\<lambda>(k, v). Suc (jfuel v)) ms) \<le> n"
    and "\<forall>(k, v) \<in> set ms. d + jdepth v \<le> maxNestingDepth \<and> valid_utf8 k"
  shows "parseMembers n d (strings_Join (map (\<lambda>(k, v). encodeString k @ '':'' @ json_encode v) ms) '','' @ CHR ''}'' # t) =
      Some (ms, t)"
  using assms
proof (induction ms arbitrary: n)
  case (Cons kv ms)
  obtain k v where kv: "kv = (k, v)" by fastforce
  obtain m where n: "n = Suc m" using Cons.prems(3) kv by (cases n) auto
  have pv: "parseValue m d (json_encode v @ u) = Some (v, u)" if "delim u" for u
    using Cons.prems(1) [of k v m d u] Cons.prems(3,4) that n kv by simp
  have key: "scanStr (encodeRunes k @ CHR 0x22 # u) = Some (encodeRunes k, u)" "unquote (encodeRunes k) = k" for u
    using encodeString_roundtrip [of k u] Cons.prems(4) kv by auto
  have rest: "ms \<noteq> [] \<Longrightarrow>
      parseMembers m d (strings_Join (map (\<lambda>(k, v). encodeString k @ '':'' @ json_encode v) ms) '','' @ CHR ''}'' # t) = Some (ms, t)"
  proof (rule Cons.IH)
    show "parseValue n d (json_encode v @ t) = Some (v, t)"
      if "(k, v) \<in> set ms" "jfuel v \<le> n" "d + jdepth v \<le> maxNestingDepth" "delim t" for k v n d t
      using Cons.prems(1) [of k v n d t] that by simp
  qed (use Cons.prems(3,4) n kv in auto)
  show ?case
    by (cases "ms = []") (simp_all add: n kv strings_Join_step encodeString_def [of k] key pv rest [simplified])
qed simp


lemma parse_array:
  assumes "d < maxNestingDepth" and "s = c # r" and "\<not> isJsonSpace c" and "c \<noteq> CHR '']''"
    and "parseElems m (Suc d) (s @ t') = Some (vs, t)"
  shows "parseValue (Suc m) d (CHR ''['' # s @ t') = Some (JArr vs, t)"
  using assms by (simp add: jskip_Cons)

lemma parse_encoded_array:
  assumes wf: "\<forall>v \<in> set vs. json_wf v" and fuel: "jfuel (JArr vs) \<le> Suc m"
    and d: "d + jdepth (JArr vs) \<le> maxNestingDepth"
    and IH: "\<And>v n d t. \<lbrakk>v \<in> set vs; json_wf v; jfuel v \<le> n; d + jdepth v \<le> maxNestingDepth; delim t\<rbrakk> \<Longrightarrow>
      parseValue n d (json_encode v @ t) = Some (v, t)"
  shows "parseValue (Suc m) d (json_encode (JArr vs) @ t) = Some (JArr vs, t)"
proof (cases "vs = []")
  case True
  then show ?thesis using d by simp
next
  case False
  have deep: "\<forall>v \<in> set vs. Suc d + jdepth v \<le> maxNestingDepth"
    using d fold_max_le [of "map jdepth vs" 0 "maxNestingDepth - Suc d"] by auto
  have "parseElems m (Suc d) (strings_Join (map json_encode vs) '','' @ CHR '']'' # t) = Some (vs, t)"
    using wf fuel False deep by (intro parse_elems IH) auto
  moreover obtain v vs' where vs: "vs = v # vs'" using False by (cases vs) auto
  moreover obtain c r where "json_encode v = c # r" "\<not> isJsonSpace c" "c \<noteq> CHR '']''"
    by (rule json_encode_first [of v]) (use wf vs in auto)
  moreover from this have "strings_Join (map json_encode vs) '','' = c # tl (strings_Join (map json_encode vs) '','')"
    by (simp add: vs strings_Join_step)
  ultimately have "parseValue (Suc m) d (CHR ''['' # strings_Join (map json_encode vs) '','' @ CHR '']'' # t) = Some (JArr vs, t)"
    using d by (intro parse_array) auto
  then show ?thesis by (simp del: parseValue.simps)
qed

lemma parse_encode:
  "json_wf v \<Longrightarrow> jfuel v \<le> n \<Longrightarrow> d + jdepth v \<le> maxNestingDepth \<Longrightarrow> delim t \<Longrightarrow>
   parseValue n d (json_encode v @ t) = Some (v, t)"
proof (induction v arbitrary: n d t)
  case (JNum lit)
  then show ?case by (simp add: parse_number)
next
  case (JStr s)
  obtain m where "n = Suc m" using JStr.prems(2) by (cases n) auto
  then show ?case using encodeString_roundtrip [of s t] JStr.prems(1) by (simp add: encodeString_def)
next
  case (JArr vs)
  obtain m where n: "n = Suc m" using JArr.prems(2) by (cases n) auto
  show ?case unfolding n
  proof (rule parse_encoded_array)
    show "\<forall>v \<in> set vs. json_wf v" using JArr.prems(1) by simp
  qed (use JArr.prems JArr.IH n in blast)+
next
  case (JObj ms)
  obtain m where n: "n = Suc m" using JObj.prems(2) by (cases n) auto
  show ?case
  proof (cases "ms = []")
    case True
    then show ?thesis using JObj.prems(3) by (simp add: n)
  next
    case False
    have deep: "\<forall>(k, v) \<in> set ms. Suc d + jdepth v \<le> maxNestingDepth \<and> valid_utf8 k"
      using JObj.prems(1,3) fold_max_le [of "map (\<lambda>(k, v). jdepth v) ms" 0 "maxNestingDepth - Suc d"] by fastforce
    have "parseMembers m (Suc d) (strings_Join (map (\<lambda>(k, v). encodeString k @ '':'' @ json_encode v) ms) '','' @ CHR ''}'' # t) =
        Some (ms, t)"
    proof (rule parse_members)
      show "parseValue n d (json_encode v @ t) = Some (v, t)"
        if "(k, v) \<in> set ms" "jfuel v \<le> n" "d + jdepth v \<le> maxNestingDepth" "delim t" for k v n d t
      proof -
        have "json_wf v" using JObj.prems(1) that(1) by auto
        from JObj.IH [OF that(1) _ this that(2-)] show ?thesis by simp
      qed
    qed (use JObj.prems(2) False deep n in auto)
    moreover have "\<exists>r. strings_Join (map (\<lambda>(k, v). encodeString k @ '':'' @ json_encode v) ms) '','' = CHR 0x22 # r"
      using False by (cases ms) (auto simp: strings_Join_step encodeString_def split: if_split)
    then obtain r where "strings_Join (map (\<lambda>(k, v). encodeString k @ '':'' @ json_encode v) ms) '','' = CHR 0x22 # r" ..
    ultimately show ?thesis using JObj.prems(3) by (simp add: n)
  qed
next
  case JNull
  obtain m where "n = Suc m" using JNull.prems(2) by (cases n) auto
  then show ?case by (simp add: scanLit_def)
next
  case (JBool b)
  obtain m where "n = Suc m" using JBool.prems(2) by (cases n) auto
  then show ?case by (simp add: scanLit_def)
qed

lemma length_Join: "length (strings_Join xs '','') + 1 \<ge> sum_list (map length xs) + length xs"
  by (induction xs) (auto simp: strings_Join_step)

lemma jfuel_le: "json_wf v \<Longrightarrow> jfuel v \<le> 2 * length (json_encode v)"
proof (induction v)
  case (JNum lit)
  then obtain c r where "lit = c # r" by (auto elim: scanNum_first)
  then show ?case by simp
next
  case (JArr vs)
  have "sum_list (map (\<lambda>v. Suc (jfuel v)) vs) \<le> sum_list (map (\<lambda>v. Suc (2 * length (json_encode v))) vs)"
    using JArr by (intro sum_list_mono) auto
  also have "\<dots> = 2 * sum_list (map (\<lambda>v. length (json_encode v)) vs) + length vs"
    by (induction vs) auto
  finally show ?case using length_Join [of "map json_encode vs"] by (simp add: o_def)
next
  case (JObj ms)
  let ?e = "\<lambda>(k, v). encodeString k @ '':'' @ json_encode v"
  have "sum_list (map (\<lambda>(k, v). Suc (jfuel v)) ms) \<le> sum_list (map (\<lambda>kv. Suc (2 * length (?e kv))) ms)"
  proof (rule sum_list_mono)
    fix kv assume kv: "kv \<in> set ms"
    have "json_wf (snd kv)" using JObj.prems kv by auto
    from JObj.IH [OF kv _ this] have "jfuel (snd kv) \<le> 2 * length (json_encode (snd kv))"
      by (cases kv) simp
    then show "(case kv of (k, v) \<Rightarrow> Suc (jfuel v)) \<le> Suc (2 * length (?e kv))" by (cases kv) auto
  qed
  also have "\<dots> = 2 * sum_list (map (\<lambda>kv. length (?e kv)) ms) + length ms"
    by (induction ms) auto
  finally show ?case using length_Join [of "map ?e ms"] by (simp add: o_def)
qed (auto simp: encodeString_def)

lemma json_parse_encode: "json_wf v \<Longrightarrow> jdepth v \<le> maxNestingDepth \<Longrightarrow> json_parse (json_encode v) = Some v"
  using parse_encode [of v "parseFuel (json_encode v)" 0 "[]"] jfuel_le [of v]
  by (simp add: json_parse_def json_first_def parseFuel_def delim_def jskip_def)


section \<open>Decoding into any\<close>

definition digitsVal :: "string \<Rightarrow> int" where
  "digitsVal ds = fold (\<lambda>c n. n * 10 + (of_char c - 48)) ds 0"

definition pow10 :: "int \<Rightarrow> rat" where
  "pow10 e = (if 0 \<le> e then 10 ^ nat e else 1 / 10 ^ nat (- e))"

text \<open>The number a literal denotes.\<close>

definition numValue :: "string \<Rightarrow> rat" where
  "numValue lit =
     (let (neg, s1) = (case lit of c # t \<Rightarrow> if c = CHR ''-'' then (True, t) else (False, lit) | [] \<Rightarrow> (False, lit));
          (ds, s2) = spanDigits s1;
          (fr, s3) = (case s2 of c # t \<Rightarrow> if c = CHR ''.'' then spanDigits t else ([], s2) | [] \<Rightarrow> ([], s2));
          ex = (case s3 of
                  c # t \<Rightarrow>
                    (case t of
                       d # u \<Rightarrow> if d = CHR ''-'' then - digitsVal u else if d = CHR ''+'' then digitsVal u else digitsVal t
                     | [] \<Rightarrow> 0)
                | [] \<Rightarrow> 0);
          x = of_int (digitsVal (ds @ fr)) * pow10 (ex - int (length fr))
      in if neg then - x else x)"

text \<open>\<^verbatim>\<open>strconv.ParseFloat\<close> fails for a number that rounds to infinity.\<close>

definition floatOverflow :: "rat \<Rightarrow> bool" where
  "floatOverflow x \<longleftrightarrow> 2 ^ 1024 - 2 ^ 970 \<le> \<bar>x\<bar>"

text \<open>A Go map: the last of several members with one key counts, and \<^verbatim>\<open>json.Marshal\<close> sorts the keys.\<close>

definition goMap :: "(string \<times> 'v) list \<Rightarrow> (string \<times> 'v) list" where
  "goMap ms = map (\<lambda>k. (k, the (map_of (rev ms) k))) (sort (remdups (map fst ms)))"

text \<open>\<^verbatim>\<open>json.Unmarshal\<close> into \<^verbatim>\<open>any\<close>; the literal of a number is that of its float64 value.\<close>

fun toAny :: "(rat \<Rightarrow> string) \<Rightarrow> json \<Rightarrow> json option" where
  "toAny fmt (JNum lit) = (if floatOverflow (numValue lit) then None else Some (JNum (fmt (f64 (numValue lit)))))"
| "toAny fmt (JArr vs) = map_option JArr (those (map (toAny fmt) vs))"
| "toAny fmt (JObj ms) =
     map_option (\<lambda>vs. JObj (goMap (zip (map fst ms) vs))) (those (map (\<lambda>(k, v). toAny fmt v) ms))"
| "toAny fmt v = Some v"

definition json_Unmarshal :: "(rat \<Rightarrow> string) \<Rightarrow> string \<Rightarrow> json option" where
  "json_Unmarshal fmt s = Option.bind (json_parse s) (toAny fmt)"


section \<open>strconv.Quote\<close>

text \<open>\<open>isPrint\<close> is the Unicode table behind \<^verbatim>\<open>strconv.IsPrint\<close>, for runes outside ASCII.\<close>

definition runeCode :: "string \<Rightarrow> int" where
  "runeCode r =
     (case map of_char r of
        [a] \<Rightarrow> a
      | [a, b] \<Rightarrow> (a - 0xC0) * 64 + (b - 0x80)
      | [a, b, c] \<Rightarrow> ((a - 0xE0) * 64 + (b - 0x80)) * 64 + (c - 0x80)
      | [a, b, c, d] \<Rightarrow> (((a - 0xF0) * 64 + (b - 0x80)) * 64 + (c - 0x80)) * 64 + (d - 0x80)
      | _ \<Rightarrow> 0)"

definition hexPad :: "nat \<Rightarrow> int \<Rightarrow> string" where
  "hexPad k n = map (\<lambda>i. hextable ! nat (n div 16 ^ i mod 16)) (rev [0..<k])"

definition quoteRune :: "(string \<Rightarrow> bool) \<Rightarrow> string \<Rightarrow> string" where
  "quoteRune isPrint r =
     (case r of
        [c] \<Rightarrow>
          (if c = CHR 0x22 \<or> c = CHR 0x5C then [CHR 0x5C, c]
           else if byte_in 0x20 0x7E c then [c]
           else if c = CHR 0x07 then [CHR 0x5C, CHR ''a''] else if c = CHR 0x08 then [CHR 0x5C, CHR ''b'']
           else if c = CHR 0x0C then [CHR 0x5C, CHR ''f''] else if c = CHR 0x0A then [CHR 0x5C, CHR ''n'']
           else if c = CHR 0x0D then [CHR 0x5C, CHR ''r''] else if c = CHR 0x09 then [CHR 0x5C, CHR ''t'']
           else if c = CHR 0x0B then [CHR 0x5C, CHR ''v'']
           else CHR 0x5C # CHR ''x'' # hexDigits c)
      | _ \<Rightarrow>
          (if isPrint r then r
           else if runeCode r < 0x10000 then CHR 0x5C # CHR ''u'' # hexPad 4 (runeCode r)
           else CHR 0x5C # CHR ''U'' # hexPad 8 (runeCode r)))"

function quoteRunes :: "(string \<Rightarrow> bool) \<Rightarrow> string \<Rightarrow> string" where
  "quoteRunes isPrint s =
     (if s = [] then []
      else (case utf8_width s of
              Some n \<Rightarrow> quoteRune isPrint (take n s) @ quoteRunes isPrint (drop n s)
            | None \<Rightarrow> CHR 0x5C # CHR ''x'' # hexDigits (hd s) @ quoteRunes isPrint (tl s)))"
  by pat_completeness auto
termination
  by (relation "measure (length \<circ> snd)") (auto dest: utf8_width_pos)

declare quoteRunes.simps [simp del]

definition strconv_Quote :: "(string \<Rightarrow> bool) \<Rightarrow> string \<Rightarrow> string" where
  "strconv_Quote isPrint s = CHR 0x22 # quoteRunes isPrint s @ [CHR 0x22]"


section \<open>Decoded values\<close>

lemma valid_utf8_rune:
  assumes "utf8_width (r @ t) = Some (length r)" and "valid_utf8 t"
  shows "valid_utf8 (r @ t)"
proof -
  have "r \<noteq> []" using utf8_width_pos [OF assms(1)] by auto
  then have "range_runes (r @ t) = r # range_runes t"
    using assms(1) range_runes.simps [of "r @ t"] by simp
  then show ?thesis using assms(2) by (simp add: valid_utf8_def)
qed

lemma of_char_of: "0 \<le> x \<Longrightarrow> x < 256 \<Longrightarrow> of_char (char_of x) = (x :: int)"
  by (simp add: of_char_of)

lemma div_bounds:
  assumes "0 < b" and "a * b \<le> r" and "r < c * b"
  shows "a \<le> r div b \<and> r div b < (c :: int)"
proof
  show "a \<le> r div b" using zdiv_mono1 [OF assms(2,1)] assms(1) by simp
  have "r div b * b \<le> r" using div_mult_mod_eq [of r b] pos_mod_sign [OF assms(1), of r] by linarith
  then have "r div b * b < c * b" using assms(3) by linarith
  then show "r div b < c" using assms(1) by simp
qed

lemma mod64: "0 \<le> x mod (64 :: int)" "x mod (64 :: int) \<le> 63"
  using pos_mod_bound [of 64 x] by (simp, linarith)

lemma utf8_width3:
  assumes "0 \<le> a" "a < 16" "0 \<le> b" "b \<le> 63" "0 \<le> c" "c \<le> 63" and "a = 0 \<Longrightarrow> 32 \<le> b" "a = 13 \<Longrightarrow> b \<le> 31"
  shows "utf8_width (map char_of [0xE0 + a, 0x80 + b, 0x80 + c :: int] @ t) = Some 3"
  using assms by (simp add: utf8_width_def byte_in_def of_char_of)

lemma utf8_width4:
  assumes "0 \<le> a" "a < 5" "0 \<le> b" "b \<le> 63" "0 \<le> c" "c \<le> 63" "0 \<le> d" "d \<le> 63"
    and "a = 0 \<Longrightarrow> 16 \<le> b" "a = 4 \<Longrightarrow> b \<le> 15"
  shows "utf8_width (map char_of [0xF0 + a, 0x80 + b, 0x80 + c, 0x80 + d :: int] @ t) = Some 4"
  using assms by (simp add: utf8_width_def byte_in_def of_char_of)

lemma utf8_width_encode3:
  assumes "0x800 \<le> r" and "r < 0x10000" and "r < 0xD800 \<or> 0xE000 \<le> r"
  shows "utf8_width (utf8_encode r @ t) = Some 3"
proof -
  define q where "q = r div 64"
  define a where "a = q div 64"
  define b where "b = q mod 64"
  have q: "32 \<le> q \<and> q < 1024" using assms unfolding q_def by (intro div_bounds) auto
  have "q < 864 \<or> 896 \<le> q"
    using assms(3) div_bounds [of 64 0 r 864] div_bounds [of 64 896 r 1024] assms(1,2) unfolding q_def by auto
  moreover have split: "q = 64 * a + b" by (simp add: a_def b_def)
  moreover have a: "0 \<le> a" "a < 16" using q div_bounds [of 64 0 q 16] by (auto simp: a_def)
  moreover have b: "0 \<le> b" "b \<le> 63" unfolding b_def by (rule mod64)+
  ultimately have edge: "a = 0 \<Longrightarrow> 32 \<le> b" "a = 13 \<Longrightarrow> b \<le> 31" using q by linarith+
  have "r div 4096 = a" unfolding a_def q_def by (simp flip: zdiv_zmult2_eq)
  then have "utf8_encode r = map char_of [0xE0 + a, 0x80 + b, 0x80 + r mod 64]"
    using assms(1,2) by (simp add: utf8_encode_def b_def q_def)
  then show ?thesis using utf8_width3 [OF a b mod64 [of r] edge] by simp
qed

lemma utf8_width_encode4:
  assumes "0x10000 \<le> r" and "r < 0x110000"
  shows "utf8_width (utf8_encode r @ t) = Some 4"
proof -
  define q where "q = r div 4096"
  define a where "a = q div 64"
  define b where "b = q mod 64"
  have q: "16 \<le> q \<and> q < 272" using assms unfolding q_def by (intro div_bounds) auto
  moreover have split: "q = 64 * a + b" by (simp add: a_def b_def)
  moreover have a: "0 \<le> a" "a < 5" using q div_bounds [of 64 0 q 5] by (auto simp: a_def)
  moreover have b: "0 \<le> b" "b \<le> 63" unfolding b_def by (rule mod64)+
  ultimately have edge: "a = 0 \<Longrightarrow> 16 \<le> b" "a = 4 \<Longrightarrow> b \<le> 15" by linarith+
  have "r div 262144 = a" unfolding a_def q_def by (simp flip: zdiv_zmult2_eq)
  then have "utf8_encode r = map char_of [0xF0 + a, 0x80 + b, 0x80 + r div 64 mod 64, 0x80 + r mod 64]"
    using assms(1) by (simp add: utf8_encode_def b_def q_def)
  then show ?thesis using utf8_width4 [OF a b mod64 [of "r div 64"] mod64 [of r] edge] by simp
qed

lemma utf8_width_encode:
  assumes "0 \<le> r" and "r < 0x110000" and "r < 0xD800 \<or> 0xE000 \<le> r"
  shows "utf8_width (utf8_encode r @ t) = Some (length (utf8_encode r))"
proof -
  consider "r < 0x80" | "0x80 \<le> r" "r < 0x800" | "0x800 \<le> r" "r < 0x10000" | "0x10000 \<le> r" by linarith
  then show ?thesis
  proof cases
    case 1
    then show ?thesis using assms(1) by (simp add: utf8_encode_def utf8_width_def byte_in_def of_char_of)
  next
    case 2
    then have "2 \<le> r div 64 \<and> r div 64 < 32" by (intro div_bounds) auto
    then show ?thesis using 2 mod64 [of r] by (simp add: utf8_encode_def utf8_width_def byte_in_def of_char_of)
  next
    case 3
    then show ?thesis using utf8_width_encode3 [OF 3 assms(3)] by (simp add: utf8_encode_def)
  next
    case 4
    then show ?thesis using utf8_width_encode4 [OF 4 assms(2)] by (simp add: utf8_encode_def)
  qed
qed

lemma utf8_width_RuneError: "utf8_width (RuneError_bytes @ t) = Some (length RuneError_bytes)"
  by (simp add: RuneError_bytes_def utf8_width_def byte_in_def of_char_of)

lemma utf8_width_ascii: "byte_in 0 0x7F c \<Longrightarrow> utf8_width (c # t) = Some 1"
  by (simp add: utf8_width_def)

lemma getu4_bound: "getu4 s < 0x10000"
proof -
  have lt: "hexval c \<le> 15" for c by (auto simp: hexval_def fromHexChar_def byte_in_def)
  have "((hexval a * 16 + hexval b) * 16 + hexval c) * 16 + hexval d < 0x10000" for a b c d
    using lt [of a] lt [of b] lt [of c] lt [of d] unfolding distrib_right by linarith
  then show ?thesis by (auto simp: getu4_def split: list.split)
qed

lemma escapeByte_ascii: "byte_in 0 0x7F e \<Longrightarrow> byte_in 0 0x7F (escapeByte e)"
  by (auto simp: escapeByte_def byte_in_def)

text \<open>Every step of \<^const>\<open>unquote\<close> yields the encoding of one rune.\<close>

lemma unquoteStep_rune:
  assumes "s \<noteq> []" and "unquoteStep s = (b, n)"
  shows "utf8_width (b @ t) = Some (length b)"
proof (cases "\<exists>c. s = [c]")
  case True
  then show ?thesis using assms(2) utf8_width_ascii utf8_width_RuneError
    by (auto simp: unquoteStep_def split: if_splits)
next
  case False
  then obtain c e s' where s: "s = c # e # s'" using assms(1) by (cases s rule: remdups_adj.cases) auto
  note step = assms(2) [unfolded s unquoteStep_def list.case, folded s]
  consider (u) "c = CHR 0x5C" "e = CHR ''u''" | (esc) "c = CHR 0x5C" "e \<noteq> CHR ''u''" | (plain) "c \<noteq> CHR 0x5C" by blast
  then show ?thesis
  proof cases
    case u
    have "utf8_width (utf8_encode (0x10000 + (getu4 s - 0xD800) * 0x400 + (getu4 (drop 6 s) - 0xDC00)) @ t) =
        Some (length (utf8_encode (0x10000 + (getu4 s - 0xD800) * 0x400 + (getu4 (drop 6 s) - 0xDC00))))"
      if "0xD800 \<le> getu4 s" "getu4 s < 0xDC00" "0xDC00 \<le> getu4 (drop 6 s)" "getu4 (drop 6 s) < 0xE000"
      using that by (intro utf8_width_encode) auto
    moreover have "utf8_width (utf8_encode (getu4 s) @ t) = Some (length (utf8_encode (getu4 s)))"
      if "\<not> (getu4 s < 0 \<or> 0xD800 \<le> getu4 s \<and> getu4 s < 0xE000)"
      using that getu4_bound [of s] by (intro utf8_width_encode) auto
    ultimately show ?thesis
      using step u utf8_width_RuneError [of t] by (auto simp: Let_def split: if_splits)
  next
    case esc
    then show ?thesis
      using step utf8_width_RuneError [of t] utf8_width_ascii [OF escapeByte_ascii] by (auto split: if_splits)
  next
    case plain
    then show ?thesis
      using step utf8_width_RuneError [of t] utf8_width_append [of s _ t] utf8_width_pos [of s]
      by (auto split: option.splits)
  qed
qed

lemma valid_unquote: "valid_utf8 (unquote s)"
proof (induction s rule: unquote.induct)
  case (1 s)
  show ?case
  proof (cases "s = []")
    case True
    then show ?thesis by (simp add: unquote.simps valid_utf8_def range_runes.simps)
  next
    case False
    obtain b n where step: "unquoteStep s = (b, n)" by fastforce
    have "valid_utf8 (unquote (drop n s))" using 1 [OF False step [symmetric]] by simp
    then show ?thesis
      using unquote_step [OF step False] unquoteStep_rune [OF False step] valid_utf8_rune by metis
  qed
qed


text \<open>Values as the parser builds them: valid strings and bounded depth.\<close>

fun json_strings_ok :: "json \<Rightarrow> bool" where
  "json_strings_ok (JStr s) \<longleftrightarrow> valid_utf8 s"
| "json_strings_ok (JArr vs) \<longleftrightarrow> (\<forall>v \<in> set vs. json_strings_ok v)"
| "json_strings_ok (JObj ms) \<longleftrightarrow> (\<forall>(k, v) \<in> set ms. valid_utf8 k \<and> json_strings_ok v)"
| "json_strings_ok _ \<longleftrightarrow> True"

lemma jdepth_Arr: "jdepth (JArr vs) \<le> Suc m \<longleftrightarrow> (\<forall>v \<in> set vs. jdepth v \<le> m)"
  by (simp add: fold_max_le)

lemma jdepth_Obj: "jdepth (JObj ms) \<le> Suc m \<longleftrightarrow> (\<forall>(k, v) \<in> set ms. jdepth v \<le> m)"
  by (auto simp: fold_max_le)

definition json_sane :: "nat \<Rightarrow> json \<Rightarrow> bool" where
  "json_sane m v \<longleftrightarrow> json_strings_ok v \<and> jdepth v \<le> m"

lemma json_sane_leaf [simp]: "json_sane m JNull" "json_sane m (JBool b)" "json_sane m (JNum lit)"
  "json_sane m (JStr (unquote raw))"
  by (simp_all add: json_sane_def valid_unquote)

lemma json_sane_Arr: "json_sane (Suc m) (JArr vs) \<longleftrightarrow> (\<forall>v \<in> set vs. json_sane m v)"
  using jdepth_Arr [of vs m] by (auto simp: json_sane_def simp del: jdepth.simps)

lemma json_sane_Obj: "json_sane (Suc m) (JObj ms) \<longleftrightarrow> (\<forall>kv \<in> set ms. valid_utf8 (fst kv) \<and> json_sane m (snd kv))"
  using jdepth_Obj [of ms m] by (auto simp: json_sane_def simp del: jdepth.simps)

lemma scanLit_sane: "scanLit lit v s = Some (v', r) \<Longrightarrow> v' = v"
  by (auto simp: scanLit_def split: if_splits)

lemma parse_sane:
  "parseValue n d s = Some (v, r) \<Longrightarrow> d \<le> maxNestingDepth \<Longrightarrow> json_sane (maxNestingDepth - d) v"
  "parseElems n d s = Some (vs, r) \<Longrightarrow> d \<le> maxNestingDepth \<Longrightarrow> \<forall>v \<in> set vs. json_sane (maxNestingDepth - d) v"
  "parseMembers n d s = Some (ms, r) \<Longrightarrow> d \<le> maxNestingDepth \<Longrightarrow>
     \<forall>kv \<in> set ms. valid_utf8 (fst kv) \<and> json_sane (maxNestingDepth - d) (snd kv)"
proof (induction n d s and n d s and n d s arbitrary: v r and vs r and ms r
    rule: parseValue_parseElems_parseMembers.induct)
  case (2 n d s)
  have deeper: "maxNestingDepth - d = Suc (maxNestingDepth - Suc d)" if "d < maxNestingDepth"
    using that by simp
  obtain c t where s: "jskip s = c # t" using 2(3) by (cases "jskip s") auto
  show ?case
  proof (cases "d < maxNestingDepth")
    case True
    note obj = 2(1) [OF s] and arr = 2(2) [OF s]
    show ?thesis
      using 2(3) True obj arr
      by (auto simp: s deeper json_sane_Arr json_sane_Obj split: if_split_asm dest!: scanLit_sane)
  next
    case False
    then show ?thesis using 2(3) by (auto simp: s split: if_split_asm dest!: scanLit_sane)
  qed
next
  case (4 n d s)
  then show ?case by (auto split: option.splits list.splits if_split_asm)
next
  case (6 n d s)
  then show ?case by (auto simp: valid_unquote split: option.splits list.splits if_split_asm) fastforce+
qed simp_all


lemma json_parse_sane: "json_parse s = Some v \<Longrightarrow> json_sane maxNestingDepth v"
  using parse_sane(1) [of "parseFuel s" 0 s v]
  by (auto simp: json_parse_def json_first_def split: option.splits if_splits)

text \<open>
  A value decoded into \<^verbatim>\<open>any\<close> is well-formed, given that floats are formatted as number literals.
\<close>

definition formats :: "(rat \<Rightarrow> string) \<Rightarrow> bool" where
  "formats fmt \<longleftrightarrow> (\<forall>x. scanNum (fmt x) = Some (fmt x, []))"

lemma those_Some: "those xs = Some ys \<longleftrightarrow> xs = map Some ys"
  by (induction xs arbitrary: ys) (auto split: option.splits)

lemma set_goMap: "set (goMap ms) \<subseteq> set ms"
proof
  fix kv assume "kv \<in> set (goMap ms)"
  then obtain k where k: "k \<in> fst ` set ms" "kv = (k, the (map_of (rev ms) k))" by (auto simp: goMap_def)
  then obtain v where "map_of (rev ms) k = Some v"
    by (metis map_of_eq_None_iff not_None_eq set_rev)
  then show "kv \<in> set ms" using k(2) by (auto dest: map_of_SomeD)
qed

lemma toAny_wf:
  "toAny fmt v = Some v' \<Longrightarrow> json_strings_ok v \<Longrightarrow> formats fmt \<Longrightarrow> json_wf v' \<and> jdepth v' \<le> jdepth v"
proof (induction fmt v arbitrary: v' rule: toAny.induct)
  case (2 fmt vs)
  then obtain vs' where vs': "map (toAny fmt) vs = map Some vs'" "v' = JArr vs'"
    by (auto simp: those_Some)
  then have len: "length vs' = length vs" by (metis length_map)
  have elem: "json_wf (vs' ! i) \<and> jdepth (vs' ! i) \<le> jdepth (vs ! i)" if "i < length vs" for i
    using 2(1) [of "vs ! i" "vs' ! i"] 2(3,4) vs'(1) len that by (metis json_strings_ok.simps(2) nth_map nth_mem)
  have "jdepth v \<le> fold max (map jdepth vs) 0" if "v \<in> set vs" for v
    using fold_max_le [of "map jdepth vs" 0 "fold max (map jdepth vs) 0"] that by simp
  then have "jdepth v \<le> fold max (map jdepth vs) 0" if "v \<in> set vs'" for v
    using elem len that by (metis in_set_conv_nth le_trans)
  then show ?case using elem len by (auto simp: vs'(2) fold_max_le all_set_conv_all_nth)
next
  case (3 fmt ms)
  then obtain vs' where vs': "map (\<lambda>(k, v). toAny fmt v) ms = map Some vs'" "v' = JObj (goMap (zip (map fst ms) vs'))"
    by (auto simp: those_Some)
  then have len: "length vs' = length ms" by (metis length_map)
  have elem: "valid_utf8 k \<and> json_wf v \<and> jdepth v \<le> fold max (map (\<lambda>(k, v). jdepth v) ms) 0"
    if kv: "(k, v) \<in> set (zip (map fst ms) vs')" for k v
  proof -
    obtain i where i: "i < length ms" "k = fst (ms ! i)" "v = vs' ! i"
      using kv len by (auto simp: set_zip)
    have "toAny fmt (snd (ms ! i)) = Some v"
      using vs'(1) i len by (metis (no_types, lifting) case_prod_unfold nth_map)
    moreover have "valid_utf8 k" "json_strings_ok (snd (ms ! i))"
      using 3(3) i nth_mem [OF i(1)] by (auto simp: case_prod_unfold)
    moreover have "jdepth (snd (ms ! i)) \<le> fold max (map (\<lambda>(k, v). jdepth v) ms) 0"
      using fold_max_le [of "map (\<lambda>(k, v). jdepth v) ms" 0 "fold max (map (\<lambda>(k, v). jdepth v) ms) 0"]
        nth_mem [OF i(1)] by (auto simp: case_prod_unfold)
    ultimately show ?thesis
      using 3(1) [of "ms ! i" "fst (ms ! i)" "snd (ms ! i)" v] 3(4) nth_mem [OF i(1)] by fastforce
  qed
  have "\<forall>(k, v) \<in> set (goMap (zip (map fst ms) vs')).
      valid_utf8 k \<and> json_wf v \<and> jdepth v \<le> fold max (map (\<lambda>(k, v). jdepth v) ms) 0"
    using set_goMap [of "zip (map fst ms) vs'"] elem by auto
  then show ?case by (auto simp: vs'(2) fold_max_le)
qed (auto simp: formats_def split: if_splits)

lemma json_Unmarshal_wf:
  assumes "formats fmt" and "json_Unmarshal fmt s = Some v"
  shows "json_wf v \<and> jdepth v \<le> maxNestingDepth"
proof -
  obtain u where u: "json_parse s = Some u" "toAny fmt u = Some v"
    using assms(2) by (auto simp: json_Unmarshal_def bind_eq_Some_conv)
  show ?thesis
    using toAny_wf [OF u(2) _ assms(1)] json_parse_sane [OF u(1)] by (auto simp: json_sane_def)
qed

end
