(* ===== verification/Key_Store.thy ===== *)
theory Key_Store
  imports Json "HOL-Library.Multiset"
begin

text \<open>
  The key store: the record and the two interfaces of \<^verbatim>\<open>src/internal/store/store.go\<close> and
  their in-memory implementation \<^verbatim>\<open>src/internal/store/memory/memory.go\<close>.

  A Go interface value is a record of functions, so \<open>KeyManager\<close> below is the method table
  of \<^verbatim>\<open>store.KeyManager\<close> over a state type \<open>'s\<close>; the clients (authentication, the admin API,
  the cleanup loop) take such a table as an argument.  What the clients rely on is the
  locale \<open>key_manager\<close>; the in-memory store is shown to satisfy it at the end.

  \<^verbatim>\<open>m.keys\<close> is a map.  Go ranges over a map in an unspecified order, so every operation
  that ranges takes that order as an argument \<open>iter\<close> (a list of the keys).  The store copies
  every record that it takes in or hands out, hence records are values here.
\<close>

section \<open>The record and the interfaces\<close>

record KeyRecord =
  KID :: string
  KeyHash :: string
  HmacKeyID :: string
  KPrincipal :: string
  KRoles :: "string list"
  AllowedCIDRs :: "string list"
  Enabled :: bool
  ExpiresAt :: "gotime option"
  CreatedAt :: gotime
  UpdatedAt :: gotime

datatype store_error = ErrKeyNotFound string | StoreError string

type_synonym 'a sres = "store_error + 'a"

text \<open>
  \<^verbatim>\<open>errors.Is(err, store.ErrKeyNotFound)\<close>.
\<close>

fun isErrKeyNotFound :: "store_error \<Rightarrow> bool" where
  "isErrKeyNotFound (ErrKeyNotFound _) = True"
| "isErrKeyNotFound (StoreError _) = False"

text \<open>
  A slice argument is \<^const>\<open>None\<close> if it is nil; the values of an audit event, of type \<^verbatim>\<open>any\<close>, are
  the JSON value they are encoded as.
\<close>

definition nilSlice :: "'a list option \<Rightarrow> 'a list" where
  "nilSlice xs = (case xs of None \<Rightarrow> [] | Some ys \<Rightarrow> ys)"

lemma nilSlice_Some [simp]: "nilSlice (Some xs) = xs" "nilSlice None = []"
  by (simp_all add: nilSlice_def)

record 's KeyManager =
  m_GetByID :: "string \<Rightarrow> 's \<Rightarrow> KeyRecord option sres"
  m_Create :: "clock \<Rightarrow> KeyRecord \<Rightarrow> 's \<Rightarrow> unit sres \<times> 's"
  m_List :: "'s \<Rightarrow> KeyRecord list sres"
  m_ListPaged :: "int \<Rightarrow> int \<Rightarrow> 's \<Rightarrow> KeyRecord list sres"
  m_ListFiltered :: "int \<Rightarrow> int \<Rightarrow> string \<Rightarrow> string \<Rightarrow> 's \<Rightarrow> KeyRecord list sres"
  m_SetEnabled :: "clock \<Rightarrow> string \<Rightarrow> bool \<Rightarrow> 's \<Rightarrow> unit sres \<times> 's"
  m_SetRoles :: "clock \<Rightarrow> string \<Rightarrow> string list option \<Rightarrow> 's \<Rightarrow> unit sres \<times> 's"
  m_SetAllowedCIDRs :: "clock \<Rightarrow> string \<Rightarrow> string list option \<Rightarrow> 's \<Rightarrow> unit sres \<times> 's"
  m_UpdateHash :: "clock \<Rightarrow> string \<Rightarrow> string \<Rightarrow> string \<Rightarrow> 's \<Rightarrow> unit sres \<times> 's"
  m_Delete :: "string \<Rightarrow> 's \<Rightarrow> unit sres \<times> 's"
  m_DeleteExpired :: "gotime \<Rightarrow> 's \<Rightarrow> int sres \<times> 's"
  m_SetExpiresAt :: "clock \<Rightarrow> string \<Rightarrow> gotime option \<Rightarrow> 's \<Rightarrow> unit sres \<times> 's"
  m_AuditKeyEvent :: "string \<Rightarrow> string \<Rightarrow> string \<Rightarrow> json \<Rightarrow> json \<Rightarrow> 's \<Rightarrow> unit sres \<times> 's"


section \<open>The in-memory store\<close>

record Store =
  keys :: "string \<rightharpoonup> KeyRecord"

definition NewStore :: Store where
  "NewStore = \<lparr>keys = Map.empty\<rparr>"

definition GetByID :: "string \<Rightarrow> Store \<Rightarrow> KeyRecord option sres" where
  "GetByID kid m =
     (case keys m kid of
        None \<Rightarrow> Inr None
      | Some rec \<Rightarrow> Inr (Some rec))"

definition Create :: "clock \<Rightarrow> KeyRecord \<Rightarrow> Store \<Rightarrow> unit sres \<times> Store" where
  "Create clk rec m =
     (case keys m (KID rec) of
        Some _ \<Rightarrow> (Inl (StoreError (''key '' @ KID rec @ '' already exists'')), m)
      | None \<Rightarrow>
          (let cp = (if CreatedAt rec = 0 then rec\<lparr>CreatedAt := clk 0\<rparr> else rec);
               cp = cp\<lparr>UpdatedAt := clk 1\<rparr>
           in (Inr (), m\<lparr>keys := (keys m)(KID rec \<mapsto> cp)\<rparr>)))"

definition List :: "string list \<Rightarrow> Store \<Rightarrow> KeyRecord list sres" where
  "List iter m = Inr (List.map_filter (keys m) iter)"

definition clampPaging :: "int \<Rightarrow> int \<Rightarrow> int \<times> int" where
  "clampPaging limit offset =
     (if limit < 0 then 0 else limit, if offset < 0 then 0 else offset)"

text \<open>
  The slicing that \<^verbatim>\<open>ListPaged\<close> and \<^verbatim>\<open>ListFiltered\<close> share after sorting.  \<^verbatim>\<open>sort.Slice\<close> is not
  stable; a stable sort of an arbitrary iteration order yields every order it may produce.  The
  order \<open>iter\<close> belongs to the call: another call ranges over the map in another order.
\<close>

definition slicePage :: "int \<Rightarrow> int \<Rightarrow> KeyRecord list \<Rightarrow> KeyRecord list" where
  "slicePage limit offset all =
     (if offset \<ge> int (length all) then []
      else let all = drop (nat offset) all
           in if limit < int (length all) then take (nat limit) all else all)"

definition ListPaged :: "string list \<Rightarrow> int \<Rightarrow> int \<Rightarrow> Store \<Rightarrow> KeyRecord list sres" where
  "ListPaged iter limit offset m =
     (let (limit, offset) = clampPaging limit offset;
          all = sort_key CreatedAt (List.map_filter (keys m) iter)
      in Inr (slicePage limit offset all))"

definition matchesFilter :: "string \<Rightarrow> string \<Rightarrow> KeyRecord \<Rightarrow> bool" where
  "matchesFilter prin role rec =
     (if prin \<noteq> '''' \<and> KPrincipal rec \<noteq> prin then False
      else if role \<noteq> '''' then role \<in> set (KRoles rec)
      else True)"

definition ListFiltered ::
  "string list \<Rightarrow> int \<Rightarrow> int \<Rightarrow> string \<Rightarrow> string \<Rightarrow> Store \<Rightarrow> KeyRecord list sres" where
  "ListFiltered iter limit offset prin role m =
     (let (limit, offset) = clampPaging limit offset;
          all = filter (matchesFilter prin role) (List.map_filter (keys m) iter);
          all = sort_key CreatedAt all
      in Inr (slicePage limit offset all))"

definition SetEnabled :: "clock \<Rightarrow> string \<Rightarrow> bool \<Rightarrow> Store \<Rightarrow> unit sres \<times> Store" where
  "SetEnabled clk kid enabled m =
     (case keys m kid of
        None \<Rightarrow> (Inl (ErrKeyNotFound kid), m)
      | Some rec \<Rightarrow>
          (Inr (), m\<lparr>keys := (keys m)(kid \<mapsto> rec\<lparr>Enabled := enabled, UpdatedAt := clk 0\<rparr>)\<rparr>))"

definition SetRoles :: "clock \<Rightarrow> string \<Rightarrow> string list option \<Rightarrow> Store \<Rightarrow> unit sres \<times> Store" where
  "SetRoles clk kid roles m =
     (case keys m kid of
        None \<Rightarrow> (Inl (ErrKeyNotFound kid), m)
      | Some rec \<Rightarrow>
          (Inr (), m\<lparr>keys := (keys m)(kid \<mapsto> rec\<lparr>KRoles := nilSlice roles, UpdatedAt := clk 0\<rparr>)\<rparr>))"

definition SetAllowedCIDRs :: "clock \<Rightarrow> string \<Rightarrow> string list option \<Rightarrow> Store \<Rightarrow> unit sres \<times> Store" where
  "SetAllowedCIDRs clk kid cidrs m =
     (case keys m kid of
        None \<Rightarrow> (Inl (ErrKeyNotFound kid), m)
      | Some rec \<Rightarrow>
          (Inr (), m\<lparr>keys := (keys m)(kid \<mapsto> rec\<lparr>AllowedCIDRs := nilSlice cidrs, UpdatedAt := clk 0\<rparr>)\<rparr>))"

definition UpdateHash :: "clock \<Rightarrow> string \<Rightarrow> string \<Rightarrow> string \<Rightarrow> Store \<Rightarrow> unit sres \<times> Store" where
  "UpdateHash clk kid newHash newHmacKeyID m =
     (case keys m kid of
        None \<Rightarrow> (Inl (ErrKeyNotFound kid), m)
      | Some rec \<Rightarrow>
          (Inr (), m\<lparr>keys := (keys m)(kid \<mapsto> rec\<lparr>KeyHash := newHash, HmacKeyID := newHmacKeyID,
                                              UpdatedAt := clk 0\<rparr>)\<rparr>))"

definition Delete :: "string \<Rightarrow> Store \<Rightarrow> unit sres \<times> Store" where
  "Delete kid m =
     (case keys m kid of
        None \<Rightarrow> (Inl (ErrKeyNotFound kid), m)
      | Some _ \<Rightarrow> (Inr (), m\<lparr>keys := (keys m)(kid := None)\<rparr>))"

definition SetExpiresAt :: "clock \<Rightarrow> string \<Rightarrow> gotime option \<Rightarrow> Store \<Rightarrow> unit sres \<times> Store" where
  "SetExpiresAt clk kid expiresAt m =
     (case keys m kid of
        None \<Rightarrow> (Inl (ErrKeyNotFound kid), m)
      | Some rec \<Rightarrow>
          (Inr (), m\<lparr>keys := (keys m)(kid \<mapsto> rec\<lparr>ExpiresAt := expiresAt, UpdatedAt := clk 0\<rparr>)\<rparr>))"

text \<open>\<^verbatim>\<open>rec.ExpiresAt != nil && rec.ExpiresAt.Before(before)\<close>.\<close>

definition expiredBefore :: "gotime \<Rightarrow> KeyRecord \<Rightarrow> bool" where
  "expiredBefore before rec = (case ExpiresAt rec of None \<Rightarrow> False | Some t \<Rightarrow> t < before)"

text \<open>The loop of \<^verbatim>\<open>DeleteExpired\<close> over the remaining keys, with the map and \<^verbatim>\<open>count\<close>.\<close>

fun deleteExpiredLoop ::
  "gotime \<Rightarrow> string list \<Rightarrow> (string \<rightharpoonup> KeyRecord) \<Rightarrow> int \<Rightarrow> int \<times> (string \<rightharpoonup> KeyRecord)" where
  "deleteExpiredLoop before [] ks cnt = (cnt, ks)"
| "deleteExpiredLoop before (kid # kids) ks cnt =
     (case ks kid of
        None \<Rightarrow> deleteExpiredLoop before kids ks cnt
      | Some rec \<Rightarrow>
          (if expiredBefore before rec
           then deleteExpiredLoop before kids (ks(kid := None)) (cnt + 1)
           else deleteExpiredLoop before kids ks cnt))"

definition DeleteExpired :: "string list \<Rightarrow> gotime \<Rightarrow> Store \<Rightarrow> int sres \<times> Store" where
  "DeleteExpired iter before m =
     (let (cnt, ks) = deleteExpiredLoop before iter (keys m) 0
      in (Inr cnt, m\<lparr>keys := ks\<rparr>))"

definition AuditKeyEvent :: "string \<Rightarrow> string \<Rightarrow> string \<Rightarrow> json \<Rightarrow> json \<Rightarrow> Store \<Rightarrow> unit sres \<times> Store" where
  "AuditKeyEvent keyID action changedBy oldValues newValues m = (Inr (), m)"

text \<open>The method table of \<^verbatim>\<open>*memory.Store\<close>; \<open>iter\<close> gives the order in which a range visits the map.\<close>

definition memory_KeyManager :: "(Store \<Rightarrow> string list) \<Rightarrow> Store KeyManager" where
  "memory_KeyManager iter =
     \<lparr>m_GetByID = GetByID, m_Create = Create,
      m_List = (\<lambda>m. List (iter m) m),
      m_ListPaged = (\<lambda>l o' m. ListPaged (iter m) l o' m),
      m_ListFiltered = (\<lambda>l o' p r m. ListFiltered (iter m) l o' p r m),
      m_SetEnabled = SetEnabled, m_SetRoles = SetRoles, m_SetAllowedCIDRs = SetAllowedCIDRs,
      m_UpdateHash = UpdateHash, m_Delete = Delete,
      m_DeleteExpired = (\<lambda>t m. DeleteExpired (iter m) t m),
      m_SetExpiresAt = SetExpiresAt, m_AuditKeyEvent = AuditKeyEvent\<rparr>"

text \<open>\<open>iter\<close> visits every key exactly once, as a Go range over a map does.\<close>

definition enumerates :: "string list \<Rightarrow> Store \<Rightarrow> bool" where
  "enumerates iter m = (distinct iter \<and> set iter = dom (keys m))"

lemmas memory_defs [store_simps] =
  GetByID_def Create_def SetEnabled_def SetRoles_def SetAllowedCIDRs_def UpdateHash_def
  Delete_def SetExpiresAt_def AuditKeyEvent_def memory_KeyManager_def Let_def


section \<open>What the operations guarantee\<close>

text \<open>
  Well-formedness: every record is filed under its own ID.
\<close>

definition store_wf :: "Store \<Rightarrow> bool" where
  "store_wf m = (finite (dom (keys m)) \<and> (\<forall>k r. keys m k = Some r \<longrightarrow> KID r = k))"

text \<open>The calls of the interface that change the store, and a run of them.\<close>

datatype store_call =
    CallCreate KeyRecord
  | CallSetEnabled string bool
  | CallSetRoles string "string list option"
  | CallSetAllowedCIDRs string "string list option"
  | CallUpdateHash string string string
  | CallDelete string
  | CallDeleteExpired gotime
  | CallSetExpiresAt string "gotime option"
  | CallAuditKeyEvent string string string json json

fun call_step :: "'s KeyManager \<Rightarrow> clock \<Rightarrow> store_call \<Rightarrow> 's \<Rightarrow> 's" where
  "call_step mgr clk (CallCreate r) s = snd (m_Create mgr clk r s)"
| "call_step mgr clk (CallSetEnabled k b) s = snd (m_SetEnabled mgr clk k b s)"
| "call_step mgr clk (CallSetRoles k rs) s = snd (m_SetRoles mgr clk k rs s)"
| "call_step mgr clk (CallSetAllowedCIDRs k cs) s = snd (m_SetAllowedCIDRs mgr clk k cs s)"
| "call_step mgr clk (CallUpdateHash k h i) s = snd (m_UpdateHash mgr clk k h i s)"
| "call_step mgr clk (CallDelete k) s = snd (m_Delete mgr k s)"
| "call_step mgr clk (CallDeleteExpired t) s = snd (m_DeleteExpired mgr t s)"
| "call_step mgr clk (CallSetExpiresAt k e) s = snd (m_SetExpiresAt mgr clk k e s)"
| "call_step mgr clk (CallAuditKeyEvent k a c old new) s = snd (m_AuditKeyEvent mgr k a c old new s)"

fun call_run :: "'s KeyManager \<Rightarrow> (clock \<times> store_call) list \<Rightarrow> 's \<Rightarrow> 's" where
  "call_run mgr [] s = s"
| "call_run mgr ((clk, c) # cs) s = call_run mgr cs (call_step mgr clk c s)"

text \<open>The key a call names; \<^const>\<open>None\<close> for the two calls that name none.\<close>

fun call_target :: "store_call \<Rightarrow> string option" where
  "call_target (CallCreate r) = Some (KID r)"
| "call_target (CallSetEnabled k b) = Some k"
| "call_target (CallSetRoles k rs) = Some k"
| "call_target (CallSetAllowedCIDRs k cs) = Some k"
| "call_target (CallUpdateHash k h i) = Some k"
| "call_target (CallDelete k) = Some k"
| "call_target (CallDeleteExpired t) = None"
| "call_target (CallSetExpiresAt k e) = Some k"
| "call_target (CallAuditKeyEvent k a c old new) = None"

subsection \<open>Expiry\<close>

lemma deleteExpiredLoop_keys:
  "snd (deleteExpiredLoop before iter ks n) =
     (\<lambda>k. case ks k of None \<Rightarrow> None
          | Some r \<Rightarrow> if k \<in> set iter \<and> expiredBefore before r then None else Some r)"
proof (induction iter arbitrary: ks n)
  case Nil
  then show ?case by (auto simp: fun_eq_iff split: option.split)
next
  case (Cons k iter)
  then show ?case by (auto simp: fun_eq_iff split: option.split)
qed

definition expiredKey :: "gotime \<Rightarrow> (string \<rightharpoonup> KeyRecord) \<Rightarrow> string \<Rightarrow> bool" where
  "expiredKey before ks k = (case ks k of None \<Rightarrow> False | Some r \<Rightarrow> expiredBefore before r)"

lemma deleteExpiredLoop_count:
  "distinct iter \<Longrightarrow>
   fst (deleteExpiredLoop before iter ks n) = n + int (length (filter (expiredKey before ks) iter))"
proof (induction iter arbitrary: ks n)
  case Nil
  then show ?case by simp
next
  case (Cons k iter)
  have "filter (expiredKey before (ks(k := None))) iter = filter (expiredKey before ks) iter"
    using Cons.prems by (intro filter_cong) (auto simp: expiredKey_def)
  moreover have "expiredKey before ks k \<longleftrightarrow> (\<exists>r. ks k = Some r \<and> expiredBefore before r)"
    by (simp add: expiredKey_def split: option.split)
  ultimately show ?case
    using Cons by (auto split: option.split)
qed

lemma DeleteExpired_count:
  assumes "enumerates iter m"
  shows "fst (DeleteExpired iter before m) = Inr (int (card {k. expiredKey before (keys m) k}))"
proof -
  have "{k. expiredKey before (keys m) k} = set (filter (expiredKey before (keys m)) iter)"
    using assms by (auto simp: enumerates_def expiredKey_def split: option.splits)
  then have "card {k. expiredKey before (keys m) k} = length (filter (expiredKey before (keys m)) iter)"
    using assms by (simp only: distinct_card distinct_filter enumerates_def)
  then show ?thesis
    using assms deleteExpiredLoop_count [of iter before "keys m" 0]
    by (auto simp: DeleteExpired_def enumerates_def split: prod.split)
qed

lemma DeleteExpired_keys:
  assumes "enumerates iter m"
  shows "keys (snd (DeleteExpired iter before m)) =
           (\<lambda>k. case keys m k of None \<Rightarrow> None
                | Some r \<Rightarrow> if expiredBefore before r then None else Some r)"
  using assms deleteExpiredLoop_keys [of before iter "keys m" 0]
  by (auto simp: DeleteExpired_def enumerates_def fun_eq_iff dom_def split: prod.split option.split)

subsection \<open>Listing\<close>

lemma slicePage_take_drop:
  "slicePage limit offset all = take (nat limit) (drop (nat offset) all)"
  by (auto simp: slicePage_def Let_def nat_le_iff)

lemma ListFiltered_take_drop:
  "ListFiltered iter limit offset prin role m =
     Inr (take (nat limit) (drop (nat offset)
       (sort_key CreatedAt
         (filter (matchesFilter prin role) (List.map_filter (keys m) iter)))))"
  by (simp add: ListFiltered_def clampPaging_def slicePage_take_drop)

lemma set_map_filter: "set (List.map_filter f xs) = {y. \<exists>x \<in> set xs. f x = Some y}"
  by (auto simp: List.map_filter_def image_iff) (metis option.sel)

lemma concat_pages:
  "concat (map (\<lambda>i. take L (drop (i * L) xs)) [0..<n]) = take (n * L) xs"
proof (induction n)
  case 0
  then show ?case by simp
next
  case (Suc n)
  have "take (n * L) xs @ take L (drop (n * L) xs) = take (n * L + L) xs"
    by (simp only: take_add)
  with Suc show ?case by (simp add: add.commute)
qed

subsection \<open>Well-formedness is kept\<close>

lemma store_wf_update:
  "store_wf m \<Longrightarrow> KID r = k \<Longrightarrow> store_wf (m\<lparr>keys := (keys m)(k \<mapsto> r)\<rparr>)"
  by (auto simp: store_wf_def)

lemma store_wf_shrink:
  "store_wf m \<Longrightarrow> ks \<subseteq>\<^sub>m keys m \<Longrightarrow> store_wf (m\<lparr>keys := ks\<rparr>)"
  using map_le_implies_dom_le [of ks "keys m"]
  by (auto simp: store_wf_def map_le_def dom_def intro: finite_subset)

lemma store_wf_KID: "store_wf m \<Longrightarrow> keys m k = Some r \<Longrightarrow> KID r = k"
  by (simp add: store_wf_def)

lemma store_wf_mapped:
  "store_wf m \<Longrightarrow> keys m k = Some r \<Longrightarrow> KID r' = KID r \<Longrightarrow>
   store_wf (m\<lparr>keys := (keys m)(k \<mapsto> r')\<rparr>)"
  using store_wf_KID by (auto intro: store_wf_update)


section \<open>The contract of a key manager\<close>

text \<open>
  What the clients rely on.  \<open>view\<close> is the map from key IDs to records that a state stands
  for, \<open>invar\<close> what every operation keeps, \<open>storable\<close> the role names and networks that the store
  can represent and \<open>storable_time\<close> the instants it can represent exactly.  A law speaks of the calls that succeed, and of those
  that fail with \<^verbatim>\<open>ErrKeyNotFound\<close>; nothing is assumed of a call that fails otherwise.
\<close>

locale key_store =
  fixes mgr :: "'s KeyManager"
    and view :: "'s \<Rightarrow> string \<rightharpoonup> KeyRecord"
    and invar :: "'s \<Rightarrow> bool"
  assumes GetByID_view: "invar s \<Longrightarrow> m_GetByID mgr k s = Inr r \<Longrightarrow> r = view s k"

locale key_manager = key_store mgr view invar
  for mgr :: "'s KeyManager" and view and invar +
  fixes storable :: "string \<Rightarrow> bool"
    and storable_time :: "gotime \<Rightarrow> bool"
  assumes call_invar: "invar s \<Longrightarrow> invar (call_step mgr clk c s)"
    and Create_frame: "invar s \<Longrightarrow> m_Create mgr clk rec s = (Inr (), s') \<Longrightarrow>
        view s (KID rec) = None \<and> (\<exists>r. view s' = (view s)(KID rec \<mapsto> r))"
    and Create_view: "invar s \<Longrightarrow> list_all storable (KRoles rec @ AllowedCIDRs rec) \<Longrightarrow>
        pred_option storable_time (ExpiresAt rec) \<Longrightarrow>
        m_Create mgr clk rec s = (Inr (), s') \<Longrightarrow>
        (\<exists>c u. view s' = (view s)(KID rec \<mapsto> rec\<lparr>CreatedAt := c, UpdatedAt := u\<rparr>))"
    and SetEnabled_view: "invar s \<Longrightarrow> m_SetEnabled mgr clk k b s = (Inr (), s') \<Longrightarrow>
        \<exists>r u. view s k = Some r \<and> view s' = (view s)(k \<mapsto> r\<lparr>Enabled := b, UpdatedAt := u\<rparr>)"
    and SetRoles_view: "invar s \<Longrightarrow> list_all storable (nilSlice rs) \<Longrightarrow> m_SetRoles mgr clk k rs s = (Inr (), s') \<Longrightarrow>
        \<exists>r u. view s k = Some r \<and> view s' = (view s)(k \<mapsto> r\<lparr>KRoles := nilSlice rs, UpdatedAt := u\<rparr>)"
    and SetAllowedCIDRs_view: "invar s \<Longrightarrow> list_all storable (nilSlice cs) \<Longrightarrow>
        m_SetAllowedCIDRs mgr clk k cs s = (Inr (), s') \<Longrightarrow>
        \<exists>r u. view s k = Some r \<and>
              view s' = (view s)(k \<mapsto> r\<lparr>AllowedCIDRs := nilSlice cs, UpdatedAt := u\<rparr>)"
    and UpdateHash_view: "invar s \<Longrightarrow> m_UpdateHash mgr clk k h i s = (Inr (), s') \<Longrightarrow>
        \<exists>r u. view s k = Some r \<and>
              view s' = (view s)(k \<mapsto> r\<lparr>KeyHash := h, HmacKeyID := i, UpdatedAt := u\<rparr>)"
    and SetExpiresAt_view: "invar s \<Longrightarrow> pred_option storable_time e \<Longrightarrow>
        m_SetExpiresAt mgr clk k e s = (Inr (), s') \<Longrightarrow>
        \<exists>r u. view s k = Some r \<and>
              view s' = (view s)(k \<mapsto> r\<lparr>ExpiresAt := e, UpdatedAt := u\<rparr>)"
    and Delete_view: "invar s \<Longrightarrow> m_Delete mgr k s = (Inr (), s') \<Longrightarrow>
        view s k \<noteq> None \<and> view s' = (view s)(k := None)"
    and DeleteExpired_view: "invar s \<Longrightarrow> storable_time t \<Longrightarrow> m_DeleteExpired mgr t s = (Inr n, s') \<Longrightarrow>
        n = int (card {k. expiredKey t (view s) k}) \<and>
        view s' = (\<lambda>k. if expiredKey t (view s) k then None else view s k)"
    and AuditKeyEvent_view: "invar s \<Longrightarrow> view (snd (m_AuditKeyEvent mgr k a chg old new s)) = view s"
begin

lemma GetByID_after_Create:
  assumes "invar s" and "m_Create mgr clk rec s = (Inr (), s')"
    and "m_GetByID mgr (KID rec) s' = Inr r" and "list_all storable (KRoles rec @ AllowedCIDRs rec)"
    and "pred_option storable_time (ExpiresAt rec)"
  shows "\<exists>c u. r = Some (rec\<lparr>CreatedAt := c, UpdatedAt := u\<rparr>)"
proof -
  have "invar s'"
    using call_invar [OF assms(1), of clk "CallCreate rec"] assms(2) by simp
  then have "r = view s' (KID rec)"
    using assms(3) by (rule GetByID_view)
  moreover obtain c u where "view s' = (view s)(KID rec \<mapsto> rec\<lparr>CreatedAt := c, UpdatedAt := u\<rparr>)"
    using Create_view [OF assms(1,4,5,2)] by blast
  ultimately have "r = Some (rec\<lparr>CreatedAt := c, UpdatedAt := u\<rparr>)"
    by simp
  then show ?thesis by blast
qed

lemma GetByID_after_Delete:
  assumes "invar s" and "m_Delete mgr k s = (Inr (), s')" and "m_GetByID mgr k s' = Inr r"
  shows "r = None"
proof -
  have "invar s'"
    using call_invar [OF assms(1), of _ "CallDelete k"] assms(2) by simp
  then have "r = view s' k"
    using assms(3) by (rule GetByID_view)
  then show ?thesis
    using Delete_view [OF assms(1,2)] by simp
qed

end

text \<open>
  The in-memory store provides the contract, whatever the order of iteration.
\<close>

locale map_iteration =
  fixes iter :: "Store \<Rightarrow> string list"
  assumes enumerates_iter: "finite (dom (keys m)) \<Longrightarrow> enumerates (iter m) m"

lemma memory_call_wf:
  assumes "store_wf m" and "enumerates (iter m) m"
  shows "store_wf (call_step (memory_KeyManager iter) clk c m)"
proof (cases c)
  case (CallDeleteExpired t)
  have "keys (snd (DeleteExpired (iter m) t m)) \<subseteq>\<^sub>m keys m"
    using DeleteExpired_keys [OF assms(2), of t]
    by (auto simp: map_le_def split: option.splits if_splits)
  then show ?thesis
    using CallDeleteExpired store_wf_shrink [OF assms(1)]
    by (simp add: memory_KeyManager_def DeleteExpired_def split: prod.split prod.split_asm)
next
  case (CallDelete k)
  have "(keys m)(k := None) \<subseteq>\<^sub>m keys m"
    by (simp add: map_le_def)
  then show ?thesis
    using CallDelete store_wf_shrink [OF assms(1)] assms(1)
    by (simp add: store_simps split: option.split)
next
  case (CallCreate r)
  then show ?thesis
    using assms(1) by (cases "keys m (KID r)") (simp_all add: store_simps store_wf_update)
next
  case (CallSetEnabled k b)
  then show ?thesis
    using assms(1) by (cases "keys m k") (simp_all add: store_simps store_wf_mapped)
next
  case (CallSetRoles k rs)
  then show ?thesis
    using assms(1) by (cases "keys m k") (simp_all add: store_simps store_wf_mapped)
next
  case (CallSetAllowedCIDRs k cs)
  then show ?thesis
    using assms(1) by (cases "keys m k") (simp_all add: store_simps store_wf_mapped)
next
  case (CallUpdateHash k h i)
  then show ?thesis
    using assms(1) by (cases "keys m k") (simp_all add: store_simps store_wf_mapped)
next
  case (CallSetExpiresAt k e)
  then show ?thesis
    using assms(1) by (cases "keys m k") (simp_all add: store_simps store_wf_mapped)
next
  case (CallAuditKeyEvent k a b old new)
  then show ?thesis
    using assms(1) by (simp add: store_simps)
qed

lemma memory_table [simp]:
  "m_GetByID (memory_KeyManager iter) = GetByID"
  "m_Create (memory_KeyManager iter) = Create"
  "m_ListFiltered (memory_KeyManager iter) = (\<lambda>l o' p r m. ListFiltered (iter m) l o' p r m)"
  "m_SetEnabled (memory_KeyManager iter) = SetEnabled"
  "m_SetRoles (memory_KeyManager iter) = SetRoles"
  "m_SetAllowedCIDRs (memory_KeyManager iter) = SetAllowedCIDRs"
  "m_UpdateHash (memory_KeyManager iter) = UpdateHash"
  "m_Delete (memory_KeyManager iter) = Delete"
  "m_DeleteExpired (memory_KeyManager iter) = (\<lambda>t m. DeleteExpired (iter m) t m)"
  "m_SetExpiresAt (memory_KeyManager iter) = SetExpiresAt"
  "m_AuditKeyEvent (memory_KeyManager iter) = AuditKeyEvent"
  by (simp_all add: memory_KeyManager_def)

lemma Create_ok:
  "Create clk rec m = (Inr (), m') \<Longrightarrow>
   keys m (KID rec) = None \<and>
   keys m' = (keys m)(KID rec \<mapsto>
     rec\<lparr>CreatedAt := (if CreatedAt rec = 0 then clk 0 else CreatedAt rec), UpdatedAt := clk 1\<rparr>)"
  by (auto simp: Create_def Let_def split: option.splits)

lemma SetEnabled_ok:
  "SetEnabled clk k b m = (Inr (), m') \<Longrightarrow>
   \<exists>r. keys m k = Some r \<and> keys m' = (keys m)(k \<mapsto> r\<lparr>Enabled := b, UpdatedAt := clk 0\<rparr>)"
  by (auto simp: SetEnabled_def split: option.splits)

lemma SetRoles_ok:
  "SetRoles clk k rs m = (Inr (), m') \<Longrightarrow>
   \<exists>r. keys m k = Some r \<and> keys m' = (keys m)(k \<mapsto> r\<lparr>KRoles := nilSlice rs, UpdatedAt := clk 0\<rparr>)"
  by (auto simp: SetRoles_def split: option.splits)

lemma SetAllowedCIDRs_ok:
  "SetAllowedCIDRs clk k cs m = (Inr (), m') \<Longrightarrow>
   \<exists>r. keys m k = Some r \<and> keys m' = (keys m)(k \<mapsto> r\<lparr>AllowedCIDRs := nilSlice cs, UpdatedAt := clk 0\<rparr>)"
  by (auto simp: SetAllowedCIDRs_def split: option.splits)

lemma UpdateHash_ok:
  "UpdateHash clk k h i m = (Inr (), m') \<Longrightarrow>
   \<exists>r. keys m k = Some r \<and> keys m' = (keys m)(k \<mapsto> r\<lparr>KeyHash := h, HmacKeyID := i, UpdatedAt := clk 0\<rparr>)"
  by (auto simp: UpdateHash_def split: option.splits)

lemma SetExpiresAt_ok:
  "SetExpiresAt clk k e m = (Inr (), m') \<Longrightarrow>
   \<exists>r. keys m k = Some r \<and> keys m' = (keys m)(k \<mapsto> r\<lparr>ExpiresAt := e, UpdatedAt := clk 0\<rparr>)"
  by (auto simp: SetExpiresAt_def split: option.splits)

lemma Delete_ok:
  "Delete k m = (Inr (), m') \<Longrightarrow> keys m k \<noteq> None \<and> keys m' = (keys m)(k := None)"
  by (auto simp: Delete_def split: option.splits)

lemmas memory_ok = Create_ok SetEnabled_ok SetRoles_ok SetAllowedCIDRs_ok UpdateHash_ok
  SetExpiresAt_ok Delete_ok

sublocale map_iteration \<subseteq> key_manager "memory_KeyManager iter" keys store_wf "\<lambda>_. True" "\<lambda>_. True"
proof (unfold_locales, goal_cases)
  case (1 s k r)
  then show ?case
    by (auto simp: memory_KeyManager_def GetByID_def split: option.splits)
next
  case (2 s clk c)
  then have "enumerates (iter s) s"
    using enumerates_iter by (simp add: store_wf_def)
  with 2 show ?case by (rule memory_call_wf)
next
  case (3 s clk rec s')
  then show ?case
    using Create_ok [of clk rec s s'] by auto
next
  case (4 s rec clk s')
  then have "Create clk rec s = (Inr (), s')"
    by simp
  from Create_ok [OF this] show ?case
    by (elim conjE) (intro exI)
next
  case (5 s clk k b s')
  then have "SetEnabled clk k b s = (Inr (), s')"
    by simp
  from SetEnabled_ok [OF this] show ?case
    by (elim exE conjE) (intro conjI exI)
next
  case (6 s rs clk k s')
  then have "SetRoles clk k rs s = (Inr (), s')"
    by simp
  from SetRoles_ok [OF this] show ?case
    by (elim exE conjE) (intro conjI exI)
next
  case (7 s cs clk k s')
  then have "SetAllowedCIDRs clk k cs s = (Inr (), s')"
    by simp
  from SetAllowedCIDRs_ok [OF this] show ?case
    by (elim exE conjE) (intro conjI exI)
next
  case (8 s clk k h i s')
  then have "UpdateHash clk k h i s = (Inr (), s')"
    by simp
  from UpdateHash_ok [OF this] show ?case
    by (elim exE conjE) (intro conjI exI)
next
  case (9 s e clk k s')
  then have "SetExpiresAt clk k e s = (Inr (), s')"
    by simp
  from SetExpiresAt_ok [OF this] show ?case
    by (elim exE conjE) (intro conjI exI)
next
  case (10 s k s')
  then show ?case
    using Delete_ok [of k s s'] by (simp add: memory_KeyManager_def)
next
  case (11 s t n s')
  then have en: "enumerates (iter s) s"
    using enumerates_iter by (simp add: store_wf_def)
  from 11(3) have "DeleteExpired (iter s) t s = (Inr n, s')"
    by (simp add: memory_KeyManager_def)
  then show ?case
    using DeleteExpired_count [OF en, of t] DeleteExpired_keys [OF en, of t]
    by (auto simp: fun_eq_iff expiredKey_def split: option.split)
next
  case (12 s k a chg old new)
  then show ?case
    by (simp add: memory_KeyManager_def AuditKeyEvent_def)
qed

interpretation mem: map_iteration "\<lambda>m. sorted_list_of_set (dom (keys m))"
  by unfold_locales (simp add: enumerates_def)


section \<open>Properties\<close>

lemma memory_call_frame:
  "call_target c = Some t \<Longrightarrow> k \<noteq> t \<Longrightarrow>
   keys (call_step (memory_KeyManager iter) clk c m) k = keys m k"
  by (cases c) (auto simp: memory_defs split: option.split)

lemma memory_call_run_wf:
  assumes "\<And>m. finite (dom (keys m)) \<Longrightarrow> enumerates (iter m) m"
  shows "store_wf m \<Longrightarrow> store_wf (call_run (memory_KeyManager iter) cs m)"
proof (induction cs arbitrary: m)
  case Nil
  then show ?case by simp
next
  case (Cons c cs)
  have "store_wf (call_step (memory_KeyManager iter) (fst c) (snd c) m)"
    using Cons.prems assms by (intro memory_call_wf) (auto simp: store_wf_def)
  then show ?case
    using Cons.IH by (cases c) simp
qed

lemma store_wf_NewStore: "store_wf NewStore"
  by (simp add: store_wf_def NewStore_def)

text \<open>A record for the concrete examples.\<close>

abbreviation sampleKey :: "string \<Rightarrow> string \<Rightarrow> gotime option \<Rightarrow> KeyRecord" where
  "sampleKey k prin expires \<equiv>
     \<lparr>KID = k, KeyHash = ''00'', HmacKeyID = ''h1'', KPrincipal = prin, KRoles = [''admin''],
      AllowedCIDRs = [], Enabled = True, ExpiresAt = expires, CreatedAt = 1, UpdatedAt = 1\<rparr>"

text \<open>
  C14: Every store that any sequence of manager calls can build from the empty store is well
  formed: finitely many keys, and each record is filed under its own ID.
\<close>

theorem store_run_wf:
  assumes "\<And>m. finite (dom (keys m)) \<Longrightarrow> enumerates (iter m) m"
  shows "store_wf (call_run (memory_KeyManager iter) cs NewStore)"
  using memory_call_run_wf [OF assms] store_wf_NewStore by blast

theorem store_run_wf_witness:
  "store_wf (call_run (memory_KeyManager (\<lambda>m. sorted_list_of_set (dom (keys m))))
     [(\<lambda>_. 5, CallCreate (sampleKey ''k_1'' ''alice'' None)), (\<lambda>_. 6, CallDelete ''k_2'')] NewStore)"
  by (rule store_run_wf) (simp add: enumerates_def)

text \<open>
  A call that names a key leaves every other key's record as it was; and the six calls
  that update or delete a named key fail with \<^verbatim>\<open>ErrKeyNotFound\<close> exactly when the key is absent,
  and then change nothing at all.
\<close>

theorem store_call_local:
  "(call_target c = Some t \<and> k \<noteq> t \<longrightarrow>
      keys (call_step (memory_KeyManager iter) clk c m) k = keys m k) \<and>
   (SetEnabled clk t b m = (Inl (ErrKeyNotFound t), m) \<longleftrightarrow> keys m t = None) \<and>
   (SetRoles clk t rs m = (Inl (ErrKeyNotFound t), m) \<longleftrightarrow> keys m t = None) \<and>
   (SetAllowedCIDRs clk t cs m = (Inl (ErrKeyNotFound t), m) \<longleftrightarrow> keys m t = None) \<and>
   (UpdateHash clk t h i m = (Inl (ErrKeyNotFound t), m) \<longleftrightarrow> keys m t = None) \<and>
   (SetExpiresAt clk t e m = (Inl (ErrKeyNotFound t), m) \<longleftrightarrow> keys m t = None) \<and>
   (Delete t m = (Inl (ErrKeyNotFound t), m) \<longleftrightarrow> keys m t = None)"
  using memory_call_frame
  by (auto simp: SetEnabled_def SetRoles_def SetAllowedCIDRs_def UpdateHash_def SetExpiresAt_def
        Delete_def split: option.split)

theorem store_call_local_witness:
  "keys (call_step (memory_KeyManager (\<lambda>_. [])) (\<lambda>_. 0) (CallDelete ''a'')
     \<lparr>keys = [''b'' \<mapsto> sampleKey ''b'' ''bob'' None]\<rparr>) ''b'' = Some (sampleKey ''b'' ''bob'' None)"
  using store_call_local [of "CallDelete ''a''" "''a''" "''b''" "\<lambda>_. []" "\<lambda>_. 0"
      "\<lparr>keys = [''b'' \<mapsto> sampleKey ''b'' ''bob'' None]\<rparr>"]
  by simp

text \<open>
  \<^verbatim>\<open>DeleteExpired(before)\<close> removes exactly the keys whose expiry lies strictly before
  \<^verbatim>\<open>before\<close>, keeps every other record unchanged, and returns the number of keys removed, in
  whatever order the map is visited.
\<close>

theorem DeleteExpired_exact:
  assumes "enumerates iter m"
  shows "DeleteExpired iter before m =
           (Inr (int (card {k. \<exists>r t. keys m k = Some r \<and> ExpiresAt r = Some t \<and> t < before})),
            m\<lparr>keys := (\<lambda>k. case keys m k of
                          None \<Rightarrow> None
                        | Some r \<Rightarrow> (if \<exists>t. ExpiresAt r = Some t \<and> t < before then None
                                     else Some r))\<rparr>)"
proof -
  have exp: "expiredBefore before r \<longleftrightarrow> (\<exists>t. ExpiresAt r = Some t \<and> t < before)" for r
    by (simp add: expiredBefore_def split: option.split)
  have key: "expiredKey before (keys m) k \<longleftrightarrow>
      (\<exists>r t. keys m k = Some r \<and> ExpiresAt r = Some t \<and> t < before)" for k
    by (simp add: expiredKey_def exp split: option.split)
  have "DeleteExpired iter before m =
      (fst (DeleteExpired iter before m), m\<lparr>keys := keys (snd (DeleteExpired iter before m))\<rparr>)"
    by (simp add: DeleteExpired_def split: prod.split)
  then show ?thesis
    by (simp add: DeleteExpired_keys [OF assms] DeleteExpired_count [OF assms] exp key
          cong: option.case_cong)
qed

theorem DeleteExpired_exact_witness:
  "DeleteExpired [''a''] 10 \<lparr>keys = [''a'' \<mapsto> sampleKey ''a'' ''al'' (Some 9)]\<rparr> =
     (Inr 1, \<lparr>keys = Map.empty\<rparr>)"
proof -
  let ?m = "\<lparr>keys = [''a'' \<mapsto> sampleKey ''a'' ''al'' (Some 9)]\<rparr>"
  have en: "enumerates [''a''] ?m"
    by (simp add: enumerates_def)
  have "{k. \<exists>r t. keys ?m k = Some r \<and> ExpiresAt r = Some t \<and> t < 10} = {''a''}"
    by (auto split: if_splits)
  then show ?thesis
    unfolding DeleteExpired_exact [OF en, of 10] by (simp add: fun_eq_iff)
qed

lemma enumerated_records:
  assumes "store_wf m" and "enumerates iter m"
  shows "distinct (List.map_filter (keys m) iter)" and "set (List.map_filter (keys m) iter) = ran (keys m)"
proof -
  have "inj_on (\<lambda>k. the (keys m k)) (set iter)"
    using assms by (intro inj_on_inverseI [where g = KID]) (auto simp: enumerates_def store_wf_def dom_def)
  moreover have "filter (\<lambda>k. keys m k \<noteq> None) iter = iter"
    using assms(2) by (auto simp: enumerates_def filter_id_conv)
  ultimately show "distinct (List.map_filter (keys m) iter)"
    using assms(2) by (simp add: List.map_filter_def distinct_map enumerates_def comp_def)
  show "set (List.map_filter (keys m) iter) = ran (keys m)"
    using assms(2) by (auto simp: set_map_filter enumerates_def ran_def)
qed

lemma matchesFilter_iff:
  "matchesFilter prin role r \<longleftrightarrow> (prin = '''' \<or> KPrincipal r = prin) \<and> (role = '''' \<or> role \<in> set (KRoles r))"
  by (auto simp: matchesFilter_def)

text \<open>
  C15: Pagination is complete and free of duplicates, although the map is iterated in another order
  for every page: if no two matching records were created at the same instant, there is one list of the
  matching records, sorted by creation time and without repetition, such that the first \<open>n\<close> pages of any
  positive size, put together, are its first \<open>n\<close> times the page size elements.
\<close>

theorem ListFiltered_pages:
  assumes "store_wf m" and "\<And>i. enumerates (iters i) m" and "0 < L"
    and "inj_on CreatedAt {r \<in> ran (keys m). (prin = '''' \<or> KPrincipal r = prin) \<and> (role = '''' \<or> role \<in> set (KRoles r))}"
  shows "\<exists>all. distinct all \<and> sorted (map CreatedAt all) \<and>
           set all = {r \<in> ran (keys m). (prin = '''' \<or> KPrincipal r = prin) \<and> (role = '''' \<or> role \<in> set (KRoles r))} \<and>
           (\<forall>n. concat (map (\<lambda>i. case ListFiltered (iters i) L (int i * L) prin role m of
                                     Inl _ \<Rightarrow> [] | Inr page \<Rightarrow> page) [0..<n])
                = take (n * nat L) all)"
proof (intro exI conjI allI)
  let ?match = "{r \<in> ran (keys m). (prin = '''' \<or> KPrincipal r = prin) \<and> (role = '''' \<or> role \<in> set (KRoles r))}"
  let ?recs = "\<lambda>i. filter (matchesFilter prin role) (List.map_filter (keys m) (iters i))"
  define all where "all = sort_key CreatedAt (?recs 0)"
  note recs = enumerated_records [OF assms(1,2)]
  have match: "set (?recs i) = ?match" and dist: "distinct (?recs i)" for i
    using recs [of i] by (auto simp: matchesFilter_iff)
  show "distinct all" "sorted (map CreatedAt all)" using dist [of 0] by (simp_all add: all_def)
  show "set all = ?match" using match [of 0] by (simp add: all_def)
  have same: "sort_key CreatedAt (?recs i) = all" for i
  proof (rule sort_key_inj_key_eq)
    have "mset (?recs i) = mset (?recs 0)"
      using match [of i] match [of 0] set_eq_iff_mset_eq_distinct [OF dist [of i] dist [of 0]] by argo
    then show "mset (?recs i) = mset all" unfolding all_def by (simp only: mset_sort)
    show "inj_on CreatedAt (set (?recs i))" unfolding match by (rule assms(4))
    show "sorted (map CreatedAt all)" by (simp add: all_def)
  qed
  show "concat (map (\<lambda>i. case ListFiltered (iters i) L (int i * L) prin role m of
            Inl _ \<Rightarrow> [] | Inr page \<Rightarrow> page) [0..<n]) = take (n * nat L) all" for n
    using concat_pages [where L = "nat L" and xs = all and n = n] assms(3)
    by (simp add: ListFiltered_take_drop nat_mult_distrib same)
qed

definition twoKeys :: Store where
  "twoKeys = \<lparr>keys = [''a'' \<mapsto> sampleKey ''a'' ''bob'' None, ''b'' \<mapsto> (sampleKey ''b'' ''bob'' None)\<lparr>CreatedAt := 7\<rparr>]\<rparr>"

theorem ListFiltered_pages_witness:
  "\<exists>all. distinct all \<and> sorted (map CreatedAt all) \<and>
     set all = {r \<in> ran (keys twoKeys). (''bob'' = '''' \<or> KPrincipal r = ''bob'') \<and> (''admin'' = '''' \<or> ''admin'' \<in> set (KRoles r))} \<and>
     (\<forall>n. concat (map (\<lambda>i. case ListFiltered (if even i then [''a'', ''b''] else [''b'', ''a'']) 1 (int i * 1) ''bob'' ''admin'' twoKeys of
                               Inl _ \<Rightarrow> [] | Inr page \<Rightarrow> page) [0..<n]) = take (n * nat 1) all)"
proof (rule ListFiltered_pages [where iters = "\<lambda>i. if even i then [''a'', ''b''] else [''b'', ''a'']" and m = twoKeys
      and prin = "''bob''" and role = "''admin''"])
  show "store_wf twoKeys" by (simp add: twoKeys_def store_wf_def)
  show "enumerates (if even i then [''a'', ''b''] else [''b'', ''a'']) twoKeys" for i
    by (auto simp: twoKeys_def enumerates_def)
  have sub: "ran (keys twoKeys) \<subseteq> {sampleKey ''a'' ''bob'' None, (sampleKey ''b'' ''bob'' None)\<lparr>CreatedAt := 7\<rparr>}"
    by (auto simp: twoKeys_def ran_def)
  have inj: "inj_on CreatedAt {sampleKey ''a'' ''bob'' None, (sampleKey ''b'' ''bob'' None)\<lparr>CreatedAt := 7\<rparr>}"
    by simp
  show "inj_on CreatedAt {r \<in> ran (keys twoKeys). (''bob'' = '''' \<or> KPrincipal r = ''bob'') \<and> (''admin'' = '''' \<or> ''admin'' \<in> set (KRoles r))}"
    by (rule inj_on_subset [OF inj subset_trans [OF Collect_restrict sub]])
qed simp

text \<open>
  Finding: with equal creation times the pages need not fit together.  Two pages of one key each, read
  while the map is iterated in different orders, show the same key twice and miss the other.
\<close>

lemma ListFiltered_ties:
  "let m = \<lparr>keys = [''a'' \<mapsto> sampleKey ''a'' ''bob'' None, ''b'' \<mapsto> sampleKey ''b'' ''bob'' None]\<rparr>
   in ListFiltered [''a'', ''b''] 1 0 ''bob'' '''' m = Inr [sampleKey ''a'' ''bob'' None] \<and>
      ListFiltered [''b'', ''a''] 1 1 ''bob'' '''' m = Inr [sampleKey ''a'' ''bob'' None]"
  by code_simp

end
