(* ===== verification/Hmac_Sha256.thy ===== *)
theory Hmac_Sha256
  imports Prelude "HOL-Library.Word"
begin

unbundle bit_operations_syntax

text \<open>
  SHA-256 (FIPS 180-4) and HMAC (RFC 2104), the two functions of Go's \<^verbatim>\<open>crypto/sha256\<close> and
  \<^verbatim>\<open>crypto/hmac\<close> on which key hashing and key verification rest, on byte lists.  The rest of
  the development uses only that a digest has 32 bytes.
\<close>

type_synonym w32 = "32 word"

text \<open>
  The constants of the standard: the first 32 bits of the fractional parts of the cube roots of
  the first 64 primes (round constants) and of the square roots of the first eight (initial
  hash value).  \<open>iroot k n b acc\<close> determines the last \<open>b\<close> bits of the integer \<open>k\<close>-th root of \<open>n\<close>.
\<close>

fun iroot :: "nat \<Rightarrow> int \<Rightarrow> nat \<Rightarrow> int \<Rightarrow> int" where
  "iroot k n 0 acc = acc"
| "iroot k n (Suc b) acc =
     (let c = acc + 2 ^ b in iroot k n b (if c ^ k \<le> n then c else acc))"

definition root_frac :: "nat \<Rightarrow> int \<Rightarrow> w32" where
  "root_frac k p = word_of_int (iroot k (p * 2 ^ (32 * k)) 40 0)"

definition small_primes :: "int list" where
  "small_primes = filter (\<lambda>n. list_all (\<lambda>d. n mod d \<noteq> 0) [2..n - 1]) [2..311]"

definition sha256_K :: "w32 list" where
  "sha256_K = map (root_frac 3) small_primes"

datatype sha256_state = Sha256_State w32 w32 w32 w32 w32 w32 w32 w32

definition sha256_H0 :: sha256_state where
  "sha256_H0 =
     Sha256_State (root_frac 2 2) (root_frac 2 3) (root_frac 2 5) (root_frac 2 7)
       (root_frac 2 11) (root_frac 2 13) (root_frac 2 17) (root_frac 2 19)"

definition rotr32 :: "nat \<Rightarrow> w32 \<Rightarrow> w32" where
  "rotr32 n x = drop_bit n x OR push_bit (32 - n) x"

definition be32 :: "char \<Rightarrow> char \<Rightarrow> char \<Rightarrow> char \<Rightarrow> w32" where
  "be32 a b c d =
     word_of_int (of_char a * 16777216 + of_char b * 65536 + of_char c * 256 + of_char d)"

definition bytes32 :: "w32 \<Rightarrow> bytes" where
  "bytes32 w = (let n = uint w in
     [char_of (n div 16777216), char_of (n div 65536), char_of (n div 256), char_of n])"

fun block_words :: "bytes \<Rightarrow> w32 list" where
  "block_words (a # b # c # d # r) = be32 a b c d # block_words r"
| "block_words _ = []"

text \<open>The message schedule, newest word first: \<open>n\<close> more words.\<close>

fun schedule :: "nat \<Rightarrow> w32 list \<Rightarrow> w32 list" where
  "schedule 0 ws = ws"
| "schedule (Suc n) ws =
     (let w2 = ws ! 1; w7 = ws ! 6; w15 = ws ! 14; w16 = ws ! 15;
          s0 = rotr32 7 w15 XOR rotr32 18 w15 XOR drop_bit 3 w15;
          s1 = rotr32 17 w2 XOR rotr32 19 w2 XOR drop_bit 10 w2
      in schedule n ((w16 + s0 + w7 + s1) # ws))"

fun sha256_round :: "w32 \<times> w32 \<Rightarrow> sha256_state \<Rightarrow> sha256_state" where
  "sha256_round (k, w) (Sha256_State a b c d e f g h) =
     (let s1 = rotr32 6 e XOR rotr32 11 e XOR rotr32 25 e;
          ch = (e AND f) XOR (NOT e AND g);
          t1 = h + s1 + ch + k + w;
          s0 = rotr32 2 a XOR rotr32 13 a XOR rotr32 22 a;
          maj = (a AND b) XOR (a AND c) XOR (b AND c);
          t2 = s0 + maj
      in Sha256_State (t1 + t2) a b c (d + t1) e f g)"

fun state_add :: "sha256_state \<Rightarrow> sha256_state \<Rightarrow> sha256_state" where
  "state_add (Sha256_State a b c d e f g h) (Sha256_State a' b' c' d' e' f' g' h') =
     Sha256_State (a + a') (b + b') (c + c') (d + d') (e + e') (f + f') (g + g') (h + h')"

definition sha256_block :: "bytes \<Rightarrow> sha256_state \<Rightarrow> sha256_state" where
  "sha256_block blk st =
     (let ws = rev (schedule 48 (rev (block_words blk)))
      in state_add st (fold sha256_round (zip sha256_K ws) st))"

definition sha256_pad :: "bytes \<Rightarrow> bytes" where
  "sha256_pad m =
     (let n = length m; z = (119 - n mod 64) mod 64; b = 8 * int n
      in m @ [char_of (0x80::int)] @ replicate z (char_of (0::int)) @
         map (\<lambda>i. char_of (b div 256 ^ i)) [7, 6, 5, 4, 3, 2, 1, 0])"

function sha256_blocks :: "bytes \<Rightarrow> sha256_state \<Rightarrow> sha256_state" where
  "sha256_blocks m st =
     (if m = [] then st else sha256_blocks (drop 64 m) (sha256_block (take 64 m) st))"
  by pat_completeness auto
termination
  by (relation "measure (\<lambda>(m, st). length m)") auto

declare sha256_blocks.simps [simp del]

fun state_bytes :: "sha256_state \<Rightarrow> bytes" where
  "state_bytes (Sha256_State a b c d e f g h) =
     bytes32 a @ bytes32 b @ bytes32 c @ bytes32 d @ bytes32 e @ bytes32 f @ bytes32 g @ bytes32 h"

definition sha256 :: "bytes \<Rightarrow> bytes" where
  "sha256 m = state_bytes (sha256_blocks (sha256_pad m) sha256_H0)"

definition sha256_Size :: nat where
  "sha256_Size = 32"

definition xor_byte :: "int \<Rightarrow> char \<Rightarrow> char" where
  "xor_byte p c = char_of (of_char c XOR p)"

text \<open>\<^verbatim>\<open>hmac.New(sha256.New, key)\<close>, one \<^verbatim>\<open>Write\<close> of the message, \<^verbatim>\<open>Sum(nil)\<close>.\<close>

definition hmac_sha256 :: "bytes \<Rightarrow> bytes \<Rightarrow> bytes" where
  "hmac_sha256 key msg =
     (let k = (if length key > 64 then sha256 key else key);
          k = k @ replicate (64 - length k) (char_of (0::int));
          inner = sha256 (map (xor_byte 0x36) k @ msg)
      in sha256 (map (xor_byte 0x5C) k @ inner))"

lemma length_bytes32 [simp]: "length (bytes32 w) = 4"
  by (simp add: bytes32_def Let_def)

lemma length_state_bytes [simp]: "length (state_bytes st) = 32"
  by (cases st) simp

lemma length_sha256 [simp]: "length (sha256 m) = sha256_Size"
  by (simp add: sha256_def sha256_Size_def)

lemma length_hmac_sha256 [simp]: "length (hmac_sha256 key msg) = sha256_Size"
  by (simp add: hmac_sha256_def Let_def)

end
