(* ===== verification/Go_Net.thy ===== *)
theory Go_Net
  imports Prelude
begin

text \<open>
  The functions of Go's \<^verbatim>\<open>net\<close> and \<^verbatim>\<open>net/netip\<close> packages that decide which address a request
  comes from and whether it lies in an allowlist: \<^verbatim>\<open>SplitHostPort\<close>, \<^verbatim>\<open>ParseIP\<close>, \<^verbatim>\<open>ParseCIDR\<close>,
  \<^verbatim>\<open>IP.To4\<close>, \<^verbatim>\<open>IP.Mask\<close> and \<^verbatim>\<open>IPNet.Contains\<close>.  An address is its byte list, 4 or 16 bytes
  long, as a \<^verbatim>\<open>net.IP\<close> is; an error is \<^const>\<open>None\<close>.
\<close>

type_synonym IP = "int list"

section \<open>Host and port\<close>

definition indexOf :: "char \<Rightarrow> string \<Rightarrow> nat option" where
  "indexOf c s = (let n = length (takeWhile (\<lambda>x. x \<noteq> c) s) in if n < length s then Some n else None)"

definition lastIndexOf :: "char \<Rightarrow> string \<Rightarrow> nat option" where
  "lastIndexOf c s = map_option (\<lambda>i. length s - 1 - i) (indexOf c (rev s))"

definition net_SplitHostPort :: "string \<Rightarrow> (string \<times> string) option" where
  "net_SplitHostPort hp =
     (case lastIndexOf CHR '':'' hp of
        None \<Rightarrow> None
      | Some i \<Rightarrow>
          (if hd hp = CHR ''['' then
             (case indexOf CHR '']'' hp of
                None \<Rightarrow> None
              | Some e \<Rightarrow>
                  (if e + 1 = length hp then None
                   else if e + 1 = i then
                     (if CHR ''['' \<in> set (drop 1 hp) \<or> CHR '']'' \<in> set (drop (e + 1) hp) then None
                      else Some (take (e - 1) (drop 1 hp), drop (i + 1) hp))
                   else None))
           else
             (if CHR '':'' \<in> set (take i hp) \<or> CHR ''['' \<in> set hp \<or> CHR '']'' \<in> set hp then None
              else Some (take i hp, drop (i + 1) hp))))"


section \<open>Addresses\<close>

definition isDigit :: "char \<Rightarrow> bool" where
  "isDigit c = byte_in 48 57 c"

definition digitVal :: "char \<Rightarrow> int" where
  "digitVal c = of_char c - 48"

text \<open>
  The loop of \<^verbatim>\<open>netip.parseIPv4Fields\<close>: the remaining bytes, the fields read so far, the
  value and the number of digits of the current field.
\<close>

fun parseIPv4Loop :: "string \<Rightarrow> int list \<Rightarrow> int \<Rightarrow> nat \<Rightarrow> int list option" where
  "parseIPv4Loop [] fields val digLen =
     (if length fields < 3 then None else Some (fields @ [val]))"
| "parseIPv4Loop (c # s) fields val digLen =
     (if isDigit c then
        (if digLen = 1 \<and> val = 0 then None
         else let v = val * 10 + digitVal c
              in if v > 255 then None else parseIPv4Loop s fields v (digLen + 1))
      else if c = CHR ''.'' then
        (if digLen = 0 \<or> s = [] then None
         else if length fields = 3 then None
         else parseIPv4Loop s (fields @ [val]) 0 0)
      else None)"

definition parseIPv4 :: "string \<Rightarrow> int list option" where
  "parseIPv4 s = parseIPv4Loop s [] 0 0"

text \<open>
  The inner loop of \<^verbatim>\<open>netip.parseIPv6\<close> that reads one group of hex digits: the accumulator,
  the number of digits and the rest, or \<^const>\<open>None\<close> for a group of more than four digits.
\<close>

fun parseHexGroup :: "string \<Rightarrow> int \<Rightarrow> nat \<Rightarrow> (int \<times> nat \<times> string) option" where
  "parseHexGroup [] acc off = Some (acc, off, [])"
| "parseHexGroup (c # s) acc off =
     (case fromHexChar c of
        None \<Rightarrow> Some (acc, off, c # s)
      | Some d \<Rightarrow> if off > 3 then None else parseHexGroup s (acc * 16 + d) (off + 1))"

lemma parseHexGroup_length:
  "parseHexGroup s acc off = Some (a, n, r) \<Longrightarrow> length r + n = length s + off"
  by (induction s acc off rule: parseHexGroup.induct) (auto split: option.splits if_splits)

text \<open>
  The outer loop: the rest of the string, the bytes read, and the position of the ellipsis.
  It returns the bytes and the ellipsis once the loop is left with the whole string used.
\<close>

function parseIPv6Loop :: "string \<Rightarrow> int list \<Rightarrow> nat option \<Rightarrow> (int list \<times> nat option) option" where
  "parseIPv6Loop s ip ell =
     (if length ip \<ge> 16 then (if s = [] then Some (ip, ell) else None)
      else
        (case parseHexGroup s 0 0 of
           None \<Rightarrow> None
         | Some (acc, off, r) \<Rightarrow>
             (if off = 0 then None
              else if r \<noteq> [] \<and> hd r = CHR ''.'' then
                (if ell = None \<and> length ip \<noteq> 12 then None
                 else if length ip + 4 > 16 then None
                 else map_option (\<lambda>v4. (ip @ v4, ell)) (parseIPv4 s))
              else
                (let ip = ip @ [acc div 256, acc mod 256]
                 in if r = [] then Some (ip, ell)
                    else if hd r \<noteq> CHR '':'' then None
                    else if length r = 1 then None
                    else
                      (let s' = tl r
                       in if hd s' = CHR '':'' then
                            (if ell \<noteq> None then None
                             else if tl s' = [] then Some (ip, Some (length ip))
                             else parseIPv6Loop (tl s') ip (Some (length ip)))
                          else parseIPv6Loop s' ip ell)))))"
  by pat_completeness auto
termination
  by (relation "measure (\<lambda>(s, ip, ell). length s)")
     (auto dest!: parseHexGroup_length simp: neq_Nil_conv)

declare parseIPv6Loop.simps [simp del]

text \<open>The expansion of the ellipsis after the loop.\<close>

definition expandEllipsis :: "int list \<Rightarrow> nat option \<Rightarrow> IP option" where
  "expandEllipsis ip ell =
     (if length ip < 16 then
        (case ell of
           None \<Rightarrow> None
         | Some e \<Rightarrow> Some (take e ip @ replicate (16 - length ip) 0 @ drop e ip))
      else (case ell of None \<Rightarrow> Some ip | Some _ \<Rightarrow> None))"

text \<open>
  \<^verbatim>\<open>netip.parseIPv6\<close>.  Both callers, \<^verbatim>\<open>net.ParseIP\<close> and \<^verbatim>\<open>net.ParseCIDR\<close>, reject an address
  with a zone, so a percent sign is an error here.
\<close>

definition parseIPv6 :: "string \<Rightarrow> IP option" where
  "parseIPv6 s =
     (if CHR ''%'' \<in> set s then None
      else if prefix [CHR '':'', CHR '':''] s then
        (if drop 2 s = [] then Some (replicate 16 0)
         else Option.bind (parseIPv6Loop (drop 2 s) [] (Some 0)) (\<lambda>(ip, ell). expandEllipsis ip ell))
      else Option.bind (parseIPv6Loop s [] None) (\<lambda>(ip, ell). expandEllipsis ip ell))"

datatype netip_Addr = Addr4 IP | Addr6 IP

fun addrKind :: "string \<Rightarrow> char option" where
  "addrKind [] = None"
| "addrKind (c # s) = (if c = CHR ''.'' \<or> c = CHR '':'' \<or> c = CHR ''%'' then Some c else addrKind s)"

definition netip_ParseAddr :: "string \<Rightarrow> netip_Addr option" where
  "netip_ParseAddr s =
     (case addrKind s of
        None \<Rightarrow> None
      | Some c \<Rightarrow>
          (if c = CHR ''.'' then map_option Addr4 (parseIPv4 s)
           else if c = CHR '':'' then map_option Addr6 (parseIPv6 s)
           else None))"

definition v4InV6Prefix :: "int list" where
  "v4InV6Prefix = [0, 0, 0, 0, 0, 0, 0, 0, 0, 0, 255, 255]"

fun As16 :: "netip_Addr \<Rightarrow> IP" where
  "As16 (Addr4 ip) = v4InV6Prefix @ ip"
| "As16 (Addr6 ip) = ip"

fun BitLen :: "netip_Addr \<Rightarrow> int" where
  "BitLen (Addr4 _) = 32"
| "BitLen (Addr6 _) = 128"

definition net_ParseIP :: "string \<Rightarrow> IP option" where
  "net_ParseIP s = map_option As16 (netip_ParseAddr s)"

definition IP_To4 :: "IP \<Rightarrow> IP option" where
  "IP_To4 ip =
     (if length ip = 4 then Some ip
      else if length ip = 16 \<and> take 12 ip = v4InV6Prefix then Some (drop 12 ip)
      else None)"


section \<open>Networks\<close>

record IPNet =
  net_IP :: IP
  net_Mask :: "int list"

text \<open>The \<open>i\<close>-th byte of \<^verbatim>\<open>CIDRMask(ones, bits)\<close>.\<close>

definition maskByte :: "int \<Rightarrow> int \<Rightarrow> int" where
  "maskByte ones i = (let n = max 0 (min 8 (ones - 8 * i)) in 256 - 2 ^ nat (8 - n))"

definition CIDRMask :: "int \<Rightarrow> int \<Rightarrow> int list" where
  "CIDRMask ones bits = map (maskByte ones) [0..bits div 8 - 1]"

definition andBytes :: "int list \<Rightarrow> int list \<Rightarrow> int list" where
  "andBytes xs ys = map (\<lambda>(x, y). and x y) (zip xs ys)"

text \<open>\<^verbatim>\<open>IP.Mask\<close> on the 16-byte form: a 4-byte mask applies to the embedded IPv4 address.\<close>

definition IP_Mask :: "IP \<Rightarrow> int list \<Rightarrow> IP" where
  "IP_Mask ip msk =
     (let ip = (if length msk = 4 \<and> length ip = 16 \<and> take 12 ip = v4InV6Prefix then drop 12 ip
                else ip)
      in andBytes ip msk)"

text \<open>\<^verbatim>\<open>dtoi\<close>: a decimal number below 0xFFFFFF that uses the whole string.\<close>

fun dtoiLoop :: "string \<Rightarrow> int \<Rightarrow> int option" where
  "dtoiLoop [] n = Some n"
| "dtoiLoop (c # s) n =
     (if isDigit c then
        (let n' = n * 10 + digitVal c in if n' \<ge> 0xFFFFFF then None else dtoiLoop s n')
      else None)"

definition dtoi :: "string \<Rightarrow> int option" where
  "dtoi s = (if s = [] then None else dtoiLoop s 0)"

definition net_ParseCIDR :: "string \<Rightarrow> (IP \<times> IPNet) option" where
  "net_ParseCIDR s =
     (case strings_Cut s CHR ''/'' of
        None \<Rightarrow> None
      | Some (addr, msk) \<Rightarrow>
          (case (netip_ParseAddr addr, dtoi msk) of
             (Some a, Some n) \<Rightarrow>
               (if n > BitLen a then None
                else let m = CIDRMask n (BitLen a); addr16 = As16 a
                     in Some (addr16, \<lparr>net_IP = IP_Mask addr16 m, net_Mask = m\<rparr>))
           | _ \<Rightarrow> None))"

definition networkNumberAndMask :: "IPNet \<Rightarrow> (IP \<times> int list) option" where
  "networkNumberAndMask n =
     (let ip = (case IP_To4 (net_IP n) of Some ip4 \<Rightarrow> ip4 | None \<Rightarrow> net_IP n);
          m = net_Mask n
      in if length ip \<noteq> 4 \<and> length ip \<noteq> 16 then None
         else if length m = 4 then (if length ip = 4 then Some (ip, m) else None)
         else if length m = 16 then Some (ip, if length ip = 4 then drop 12 m else m)
         else None)"

definition IPNet_Contains :: "IPNet \<Rightarrow> IP \<Rightarrow> bool" where
  "IPNet_Contains n ip =
     (let ip = (case IP_To4 ip of Some ip4 \<Rightarrow> ip4 | None \<Rightarrow> ip)
      in case networkNumberAndMask n of
           None \<Rightarrow> length ip = 0
         | Some (nn, m) \<Rightarrow> length ip = length nn \<and> andBytes nn m = andBytes ip m)"

end
