(* ===== verification/Http.thy ===== *)
theory Http
  imports Prelude
begin

text \<open>
  The part of Go's \<^verbatim>\<open>net/http\<close> that the sources use: header maps, requests, response writers
  and handlers, together with the request context of \<^verbatim>\<open>src/internal/middleware/context.go\<close>.

  A handler is a function of the response writer, the request and the state of the request.
  That state holds what is shared along one request: the cells behind the pointers that the
  context carries, the response committed so far, whether a panic is unwinding the handler
  stack, and the state \<open>'g\<close> of the gateway (key store, limiter, plugins, audit log).
\<close>

section \<open>Header maps\<close>

text \<open>
  An \<^verbatim>\<open>http.Header\<close> is a map from keys to value lists.  It is kept as an association list,
  whose order is the order in which a range over the map visits it.
\<close>

type_synonym header = "(string \<times> string list) list"

definition validHeaderFieldByte :: "char \<Rightarrow> bool" where
  "validHeaderFieldByte c =
     (byte_in 48 57 c \<or> byte_in 65 90 c \<or> byte_in 97 122 c \<or>
      c \<in> set ''!#$%&*+-.^_`|~'' \<or> c = CHR 0x27)"

fun canonicalLoop :: "bool \<Rightarrow> string \<Rightarrow> string" where
  "canonicalLoop upper [] = []"
| "canonicalLoop upper (c # s) =
     (let c' = (if upper then ascii_upper c else ascii_lower c)
      in c' # canonicalLoop (c' = CHR ''-'') s)"

definition http_CanonicalHeaderKey :: "string \<Rightarrow> string" where
  "http_CanonicalHeaderKey s =
     (if list_all validHeaderFieldByte s then canonicalLoop True s else s)"

definition header_Get :: "header \<Rightarrow> string \<Rightarrow> string" where
  "header_Get h key =
     (case map_of h (http_CanonicalHeaderKey key) of
        None \<Rightarrow> ''''
      | Some [] \<Rightarrow> ''''
      | Some (v # _) \<Rightarrow> v)"

definition header_Del :: "header \<Rightarrow> string \<Rightarrow> header" where
  "header_Del h key = filter (\<lambda>(k, _). k \<noteq> http_CanonicalHeaderKey key) h"

definition header_Set :: "header \<Rightarrow> string \<Rightarrow> string \<Rightarrow> header" where
  "header_Set h key v = (http_CanonicalHeaderKey key, [v]) # header_Del h key"

text \<open>A header as the server's parser builds it: keys are distinct and canonical.\<close>

definition header_wf :: "header \<Rightarrow> bool" where
  "header_wf h =
     (distinct (map fst h) \<and> list_all (\<lambda>(k, _). http_CanonicalHeaderKey k = k) h)"

lemma map_of_header_Del:
  "map_of (header_Del h key) k =
     (if k = http_CanonicalHeaderKey key then None else map_of h k)"
  by (induction h) (auto simp: header_Del_def)

lemma map_of_header_Set:
  "map_of (header_Set h key v) k =
     (if k = http_CanonicalHeaderKey key then Some [v] else map_of h k)"
  by (simp add: header_Set_def map_of_header_Del)

lemma header_Get_Set:
  "header_Get (header_Set h key v) key' =
     (if http_CanonicalHeaderKey key' = http_CanonicalHeaderKey key then v
      else header_Get h key')"
  by (simp add: header_Get_def map_of_header_Set)

lemma header_Get_Del:
  "header_Get (header_Del h key) key' =
     (if http_CanonicalHeaderKey key' = http_CanonicalHeaderKey key then [] else header_Get h key')"
  by (simp add: header_Get_def map_of_header_Del)

lemma set_header_Del: "set (header_Del h key) = {kv \<in> set h. fst kv \<noteq> http_CanonicalHeaderKey key}"
  by (auto simp: header_Del_def)


section \<open>Context\<close>

record AuthzResult =
  ar_Decision :: string
  ar_Plugin :: string
  ar_Reason :: string

text \<open>
  The values and pointers that the middlewares put into the request context.  A getter of
  \<^verbatim>\<open>context.go\<close> returns the zero value where nothing was stored, so an absent value is the
  empty string or list; \<^const>\<open>None\<close> is a nil slice.  For the pointers, of which every request
  has at most one of each kind, the context says whether it is set; what it points to is a
  cell of the request's state.
\<close>

record reqctx =
  c_requestID :: string
  c_principal :: string
  c_keyID :: string
  c_roles :: "string list"
  c_bodyBytes :: "bytes option"
  c_bodySizePtr :: bool
  c_bodyBytesPtr :: bool
  c_authzResultPtr :: bool
  c_statusCodePtr :: bool

definition Background :: reqctx where
  "Background =
     \<lparr>c_requestID = '''', c_principal = '''', c_keyID = '''', c_roles = [], c_bodyBytes = None,
      c_bodySizePtr = False, c_bodyBytesPtr = False, c_authzResultPtr = False,
      c_statusCodePtr = False\<rparr>"

definition WithRequestID :: "reqctx \<Rightarrow> string \<Rightarrow> reqctx" where
  "WithRequestID ctx v = ctx\<lparr>c_requestID := v\<rparr>"

definition GetRequestID :: "reqctx \<Rightarrow> string" where
  "GetRequestID ctx = c_requestID ctx"

definition WithPrincipal :: "reqctx \<Rightarrow> string \<Rightarrow> reqctx" where
  "WithPrincipal ctx v = ctx\<lparr>c_principal := v\<rparr>"

definition GetPrincipal :: "reqctx \<Rightarrow> string" where
  "GetPrincipal ctx = c_principal ctx"

definition WithKeyID :: "reqctx \<Rightarrow> string \<Rightarrow> reqctx" where
  "WithKeyID ctx v = ctx\<lparr>c_keyID := v\<rparr>"

definition GetKeyID :: "reqctx \<Rightarrow> string" where
  "GetKeyID ctx = c_keyID ctx"

definition WithRoles :: "reqctx \<Rightarrow> string list \<Rightarrow> reqctx" where
  "WithRoles ctx v = ctx\<lparr>c_roles := v\<rparr>"

definition GetRoles :: "reqctx \<Rightarrow> string list" where
  "GetRoles ctx = c_roles ctx"

definition WithBodyBytes :: "reqctx \<Rightarrow> bytes option \<Rightarrow> reqctx" where
  "WithBodyBytes ctx v = ctx\<lparr>c_bodyBytes := v\<rparr>"

definition GetBodyBytes :: "reqctx \<Rightarrow> bytes option" where
  "GetBodyBytes ctx = c_bodyBytes ctx"

definition WithBodySizePtr :: "reqctx \<Rightarrow> reqctx" where
  "WithBodySizePtr ctx = ctx\<lparr>c_bodySizePtr := True\<rparr>"

definition WithBodyBytesPtr :: "reqctx \<Rightarrow> reqctx" where
  "WithBodyBytesPtr ctx = ctx\<lparr>c_bodyBytesPtr := True\<rparr>"

definition WithAuthzResultPtr :: "reqctx \<Rightarrow> reqctx" where
  "WithAuthzResultPtr ctx = ctx\<lparr>c_authzResultPtr := True\<rparr>"

definition WithStatusCodePtr :: "reqctx \<Rightarrow> reqctx" where
  "WithStatusCodePtr ctx = ctx\<lparr>c_statusCodePtr := True\<rparr>"

lemmas context_defs [handler_simps] =
  WithRequestID_def GetRequestID_def WithPrincipal_def GetPrincipal_def WithKeyID_def GetKeyID_def
  WithRoles_def GetRoles_def WithBodyBytes_def GetBodyBytes_def WithBodySizePtr_def
  WithBodyBytesPtr_def WithAuthzResultPtr_def WithStatusCodePtr_def


section \<open>Requests, responses, handlers\<close>

text \<open>
  A body is absent (nil or \<^verbatim>\<open>http.NoBody\<close>) or a reader that yields some bytes and then ends,
  with an error if the flag is set.
\<close>

datatype body = NoBody | Body bytes bool

record http_request =
  r_Method :: string
  r_Scheme :: string
  r_Host :: string
  r_Path :: string
  r_RawQuery :: string
  r_Header :: header
  r_Body :: body
  r_ContentLength :: int
  r_RemoteAddr :: string
  r_ctx :: reqctx

record 'g rstate =
  cell_bodySize :: int
  cell_bodyBytes :: "bytes option"
  cell_authzResult :: AuthzResult
  cell_statusCode :: int
  resp_status :: "int option"
  resp_header :: header
  resp_body :: bytes
  panicking :: bool
  global :: 'g

datatype ResponseWriter = RawWriter | StatusRecorder ResponseWriter

type_synonym 'g handler = "ResponseWriter \<Rightarrow> http_request \<Rightarrow> 'g rstate \<Rightarrow> 'g rstate"

text \<open>
  The server's writer commits the first status only; \<^verbatim>\<open>StatusRecorder\<close> records every status
  that passes through it in its \<^verbatim>\<open>StatusCode\<close> field, the cell behind the status pointer.
\<close>

fun WriteHeader :: "ResponseWriter \<Rightarrow> int \<Rightarrow> 'g rstate \<Rightarrow> 'g rstate" where
  "WriteHeader RawWriter code st =
     (if resp_status st = None then st\<lparr>resp_status := Some code\<rparr> else st)"
| "WriteHeader (StatusRecorder w) code st = WriteHeader w code (st\<lparr>cell_statusCode := code\<rparr>)"

fun Write :: "ResponseWriter \<Rightarrow> bytes \<Rightarrow> 'g rstate \<Rightarrow> 'g rstate" where
  "Write RawWriter data st =
     (let st = (if resp_status st = None then st\<lparr>resp_status := Some 200\<rparr> else st)
      in st\<lparr>resp_body := resp_body st @ data\<rparr>)"
| "Write (StatusRecorder w) data st = Write w data st"

definition setHeader :: "string \<Rightarrow> string \<Rightarrow> 'g rstate \<Rightarrow> 'g rstate" where
  "setHeader k v st = st\<lparr>resp_header := header_Set (resp_header st) k v\<rparr>"

definition http_Error :: "ResponseWriter \<Rightarrow> string \<Rightarrow> int \<Rightarrow> 'g rstate \<Rightarrow> 'g rstate" where
  "http_Error w msg code st =
     (let st = st\<lparr>resp_header := header_Del (resp_header st) ''Content-Length''\<rparr>;
          st = setHeader ''Content-Type'' ''text/plain; charset=utf-8'' st;
          st = setHeader ''X-Content-Type-Options'' ''nosniff'' st;
          st = WriteHeader w code st
      in Write w (msg @ [CHR 0x0A]) st)"

text \<open>A fresh request state around a gateway state.\<close>

definition freshState :: "'g \<Rightarrow> 'g rstate" where
  "freshState g =
     \<lparr>cell_bodySize = 0, cell_bodyBytes = None,
      cell_authzResult = \<lparr>ar_Decision = '''', ar_Plugin = '''', ar_Reason = ''''\<rparr>,
      cell_statusCode = 0, resp_status = None, resp_header = [], resp_body = [],
      panicking = False, global = g\<rparr>"

lemma WriteHeader_header [simp]: "resp_header (WriteHeader w code st) = resp_header st"
  by (induction w arbitrary: st) auto

lemma Write_header [simp]: "resp_header (Write w data st) = resp_header st"
  by (induction w arbitrary: st) (auto simp: Let_def)

lemma WriteHeader_global [simp]: "global (WriteHeader w code st) = global st"
  by (induction w arbitrary: st) auto

lemma Write_global [simp]: "global (Write w data st) = global st"
  by (induction w arbitrary: st) (auto simp: Let_def)

lemma http_Error_global [simp]: "global (http_Error w msg code st) = global st"
  by (simp add: http_Error_def Let_def setHeader_def)

lemma WriteHeader_status [simp]:
  "resp_status (WriteHeader w code st) = (if resp_status st = None then Some code else resp_status st)"
  by (induction w arbitrary: st) auto

lemma Write_status [simp]:
  "resp_status (Write w data st) = (if resp_status st = None then Some 200 else resp_status st)"
  by (induction w arbitrary: st) (auto simp: Let_def)

lemma http_Error_status [simp]:
  "resp_status (http_Error w msg code st) = (if resp_status st = None then Some code else resp_status st)"
  by (simp add: http_Error_def Let_def setHeader_def)

lemma WriteHeader_body [simp]: "resp_body (WriteHeader w code st) = resp_body st"
  by (induction w arbitrary: st) auto

lemma Write_body [simp]: "resp_body (Write w data st) = resp_body st @ data"
  by (induction w arbitrary: st) (auto simp: Let_def)

lemma http_Error_body [simp]: "resp_body (http_Error w msg code st) = resp_body st @ msg @ [CHR 0x0A]"
  by (simp add: http_Error_def Let_def setHeader_def)

lemma WriteHeader_panicking [simp]: "panicking (WriteHeader w code st) = panicking st"
  by (induction w arbitrary: st) auto

lemma Write_panicking [simp]: "panicking (Write w data st) = panicking st"
  by (induction w arbitrary: st) (auto simp: Let_def)

lemma http_Error_panicking [simp]: "panicking (http_Error w msg code st) = panicking st"
  by (simp add: http_Error_def Let_def setHeader_def)

lemma WriteHeader_authz [simp]: "cell_authzResult (WriteHeader w code st) = cell_authzResult st"
  by (induction w arbitrary: st) auto

lemma Write_authz [simp]: "cell_authzResult (Write w data st) = cell_authzResult st"
  by (induction w arbitrary: st) (auto simp: Let_def)

lemma http_Error_authz [simp]: "cell_authzResult (http_Error w msg code st) = cell_authzResult st"
  by (simp add: http_Error_def Let_def setHeader_def)

lemma Write_statusCode [simp]: "cell_statusCode (Write w data st) = cell_statusCode st"
  by (induction w arbitrary: st) (auto simp: Let_def)

lemma WriteHeader_statusCode_same:
  "cell_statusCode st = c \<Longrightarrow> cell_statusCode (WriteHeader w c st) = c"
  by (induction w arbitrary: st) auto

lemma WriteHeader_statusCode: "cell_statusCode (WriteHeader (StatusRecorder w) code st) = code"
  by (simp add: WriteHeader_statusCode_same)

lemma http_Error_statusCode: "cell_statusCode (http_Error (StatusRecorder w) msg code st) = code"
  by (simp add: http_Error_def Let_def setHeader_def WriteHeader_statusCode
        del: WriteHeader.simps Write.simps)

end
