(* ===== verification/Client_IP.thy ===== *)
theory Client_IP
  imports Go_Net Http
begin

text \<open>
  Client address resolution, \<^verbatim>\<open>src/internal/clientip/clientip.go\<close>.  A resolver is its list of
  trusted networks.  The loop that walks \<^verbatim>\<open>X-Forwarded-For\<close> from the right is \<open>walkHops\<close> on
  the reversed list of hops.
\<close>

record Resolver =
  trusted :: "IPNet list"

text \<open>\<^const>\<open>None\<close> is the error for an invalid CIDR.\<close>

fun newLoop :: "string list \<Rightarrow> IPNet list \<Rightarrow> IPNet list option" where
  "newLoop [] acc = Some acc"
| "newLoop (c # cs) acc =
     (case net_ParseCIDR (strings_TrimSpace c) of
        None \<Rightarrow> None
      | Some (_, ipNet) \<Rightarrow> newLoop cs (acc @ [ipNet]))"

definition clientip_New :: "string list \<Rightarrow> Resolver option" where
  "clientip_New trustedCIDRs = map_option (\<lambda>t. \<lparr>trusted = t\<rparr>) (newLoop trustedCIDRs [])"

fun isTrustedIn :: "IPNet list \<Rightarrow> IP \<Rightarrow> bool" where
  "isTrustedIn [] ip = False"
| "isTrustedIn (n # ns) ip = (if IPNet_Contains n ip then True else isTrustedIn ns ip)"

definition isTrusted :: "Resolver \<Rightarrow> IP \<Rightarrow> bool" where
  "isTrusted r ip = isTrustedIn (trusted r) ip"

definition peerIP :: "string \<Rightarrow> IP option" where
  "peerIP remoteAddr =
     (let host = (case net_SplitHostPort remoteAddr of Some (h, _) \<Rightarrow> h | None \<Rightarrow> remoteAddr)
      in net_ParseIP host)"

fun walkHops :: "Resolver \<Rightarrow> IP \<Rightarrow> string list \<Rightarrow> IP" where
  "walkHops r peer [] = peer"
| "walkHops r peer (h # hops) =
     (case net_ParseIP (strings_TrimSpace h) of
        None \<Rightarrow> peer
      | Some ip \<Rightarrow> if \<not> isTrusted r ip then ip else walkHops r peer hops)"

definition ClientIP :: "Resolver \<Rightarrow> http_request \<Rightarrow> IP option" where
  "ClientIP r req =
     (case peerIP (r_RemoteAddr req) of
        None \<Rightarrow> None
      | Some peer \<Rightarrow>
          (if trusted r = [] \<or> \<not> isTrusted r peer then Some peer
           else let xff = header_Get (r_Header req) ''X-Forwarded-For''
                in if xff = '''' then Some peer
                   else Some (walkHops r peer (rev (strings_Split xff CHR '',''))))) "

lemma isTrustedIn_iff: "isTrustedIn ns ip \<longleftrightarrow> (\<exists>n \<in> set ns. IPNet_Contains n ip)"
  by (induction ns) auto

lemma walkHops_append:
  assumes "\<forall>h \<in> set hops. \<exists>ip. net_ParseIP (strings_TrimSpace h) = Some ip \<and> isTrusted r ip"
  shows "walkHops r peer (hops @ rest) = walkHops r peer rest"
  using assms by (induction hops) auto

lemma walkHops_stop:
  assumes "net_ParseIP (strings_TrimSpace h) = Some ip" and "\<not> isTrusted r ip"
    and "\<forall>h \<in> set hops. \<exists>ip. net_ParseIP (strings_TrimSpace h) = Some ip \<and> isTrusted r ip"
  shows "walkHops r peer (hops @ h # rest) = ip"
  using walkHops_append [OF assms(3)] assms(1,2) by simp

definition sampleReq :: "string \<Rightarrow> string \<Rightarrow> http_request" where
  "sampleReq remote xff =
     \<lparr>r_Method = ''GET'', r_Scheme = [], r_Host = ''pdns'', r_Path = ''/api'', r_RawQuery = [],
      r_Header = [(''X-Forwarded-For'', [xff])], r_Body = NoBody, r_ContentLength = 0,
      r_RemoteAddr = remote, r_ctx = Background\<rparr>"

definition sampleResolver :: Resolver where
  "sampleResolver = \<lparr>trusted = [\<lparr>net_IP = [10, 0, 0, 0], net_Mask = [255, 0, 0, 0]\<rparr>]\<rparr>"

lemma sampleResolver_New: "clientip_New ['' 10.0.0.0/8''] = Some sampleResolver"
  by code_simp

text \<open>
  C16: The address cannot be spoofed from outside: when the immediate peer is not a configured
  trusted proxy, the resolved client address is the peer's address, whatever
  \<^verbatim>\<open>X-Forwarded-For\<close> header (or any other header) the request carries.
\<close>

theorem ClientIP_untrusted_peer:
  assumes "peerIP (r_RemoteAddr req) = Some peer"
    and "trusted r = [] \<or> (\<forall>n \<in> set (trusted r). \<not> IPNet_Contains n peer)"
  shows "ClientIP r (req\<lparr>r_Header := h\<rparr>) = Some peer"
  using assms by (auto simp: ClientIP_def isTrusted_def isTrustedIn_iff)

theorem ClientIP_untrusted_peer_witness:
  "ClientIP sampleResolver ((sampleReq ''203.0.113.9:4711'' ''10.0.0.1'')
     \<lparr>r_Header := [(''X-Forwarded-For'', [''10.9.9.9''])]\<rparr>) =
   Some [0, 0, 0, 0, 0, 0, 0, 0, 0, 0, 255, 255, 203, 0, 113, 9]"
proof (rule ClientIP_untrusted_peer)
  show "peerIP (r_RemoteAddr (sampleReq ''203.0.113.9:4711'' ''10.0.0.1'')) =
      Some [0, 0, 0, 0, 0, 0, 0, 0, 0, 0, 255, 255, 203, 0, 113, 9]"
    by code_simp
  show "trusted sampleResolver = [] \<or> (\<forall>n \<in> set (trusted sampleResolver).
      \<not> IPNet_Contains n [0, 0, 0, 0, 0, 0, 0, 0, 0, 0, 255, 255, 203, 0, 113, 9])"
    by code_simp
qed

text \<open>
  C17: Behind trusted proxies the result is the right-most untrusted hop: if the header ends
  in an untrusted address followed only by trusted ones, that address is returned, and
  nothing that stands to its left (which the client controls) has any influence.
\<close>

theorem ClientIP_rightmost_untrusted:
  assumes "peerIP (r_RemoteAddr req) = Some peer" and "isTrusted r peer"
    and "strings_Split (header_Get (r_Header req) ''X-Forwarded-For'') CHR '','' = left @ hop # right"
    and "net_ParseIP (strings_TrimSpace hop) = Some ip" and "\<not> isTrusted r ip"
    and "\<forall>h \<in> set right. \<exists>ip. net_ParseIP (strings_TrimSpace h) = Some ip \<and> isTrusted r ip"
  shows "ClientIP r req = Some ip"
proof -
  let ?xff = "header_Get (r_Header req) ''X-Forwarded-For''"
  have ne: "trusted r \<noteq> []"
    using assms(2) by (auto simp: isTrusted_def)
  have "?xff \<noteq> ''''"
  proof
    assume "?xff = ''''"
    then have "left = []" "hop = ''''" "right = []"
      using assms(3) by (auto simp: append_eq_Cons_conv Cons_eq_append_conv)
    moreover have "strings_TrimSpace '''' = ''''"
      by (simp add: strings_TrimSpace_def trimLeftSpace_cong trimRightSpace_cong space_runes_ne)
    ultimately show False
      using assms(4) by (simp add: net_ParseIP_def netip_ParseAddr_def)
  qed
  moreover have "walkHops r peer (rev (left @ hop # right)) = ip"
    using walkHops_stop [OF assms(4,5), of "rev right" peer "rev left"] assms(6) by simp
  ultimately show ?thesis
    using assms(1-3) ne by (simp add: ClientIP_def)
qed

theorem ClientIP_rightmost_untrusted_witness:
  "ClientIP sampleResolver (sampleReq ''10.0.0.1:99'' ''1.1.1.1, 198.51.100.7, 10.0.0.2'') =
     Some [0, 0, 0, 0, 0, 0, 0, 0, 0, 0, 255, 255, 198, 51, 100, 7]"
proof (rule ClientIP_rightmost_untrusted)
  show "peerIP (r_RemoteAddr (sampleReq ''10.0.0.1:99'' ''1.1.1.1, 198.51.100.7, 10.0.0.2'')) =
      Some [0, 0, 0, 0, 0, 0, 0, 0, 0, 0, 255, 255, 10, 0, 0, 1]"
    by code_simp
  show "isTrusted sampleResolver [0, 0, 0, 0, 0, 0, 0, 0, 0, 0, 255, 255, 10, 0, 0, 1]"
    by code_simp
  show "strings_Split (header_Get (r_Header
        (sampleReq ''10.0.0.1:99'' ''1.1.1.1, 198.51.100.7, 10.0.0.2'')) ''X-Forwarded-For'') CHR '','' =
      [''1.1.1.1''] @ '' 198.51.100.7'' # ['' 10.0.0.2'']"
    by code_simp
  show "net_ParseIP (strings_TrimSpace '' 198.51.100.7'') =
      Some [0, 0, 0, 0, 0, 0, 0, 0, 0, 0, 255, 255, 198, 51, 100, 7]"
    by code_simp
  show "\<not> isTrusted sampleResolver [0, 0, 0, 0, 0, 0, 0, 0, 0, 0, 255, 255, 198, 51, 100, 7]"
    by code_simp
  have "net_ParseIP (strings_TrimSpace '' 10.0.0.2'') =
      Some [0, 0, 0, 0, 0, 0, 0, 0, 0, 0, 255, 255, 10, 0, 0, 2]"
    by code_simp
  moreover have "isTrusted sampleResolver [0, 0, 0, 0, 0, 0, 0, 0, 0, 0, 255, 255, 10, 0, 0, 2]"
    by code_simp
  ultimately show "\<forall>h \<in> set ['' 10.0.0.2'']. \<exists>ip.
      net_ParseIP (strings_TrimSpace h) = Some ip \<and> isTrusted sampleResolver ip"
    by simp
qed

end
