(* ===== verification/Middleware.thy ===== *)
theory Middleware
  imports Http
begin

text \<open>
  The generic middlewares of \<^verbatim>\<open>src/internal/middleware\<close> (\<^verbatim>\<open>chain.go\<close>, \<^verbatim>\<open>requestid.go\<close>,
  \<^verbatim>\<open>bodybuffer.go\<close>, \<^verbatim>\<open>context.go\<close>) and the metrics middleware of
  \<^verbatim>\<open>src/internal/metrics/middleware.go\<close> as far as it shares state with the others: it installs
  the status recorder and the body-size cell.  Counters, histograms and spans are output only.
\<close>

type_synonym 'g middleware = "'g handler \<Rightarrow> 'g handler"

section \<open>Chain, request ID, metrics\<close>

text \<open>The loop of \<^verbatim>\<open>Chain\<close> over the indices from \<open>i - 1\<close> down to 0.\<close>

fun chainLoop :: "'g middleware list \<Rightarrow> nat \<Rightarrow> 'g handler \<Rightarrow> 'g handler" where
  "chainLoop mws 0 final = final"
| "chainLoop mws (Suc i) final = chainLoop mws i ((mws ! i) final)"

definition Chain :: "'g middleware list \<Rightarrow> 'g handler \<Rightarrow> 'g handler" where
  "Chain mws final = chainLoop mws (length mws) final"

text \<open>\<^verbatim>\<open>uuid.New().String()\<close> is the argument \<open>newID\<close>.\<close>

definition RequestID :: "string \<Rightarrow> 'g middleware" where
  "RequestID newID next w r st =
     (let ctx = WithRequestID (r_ctx r) newID;
          st = setHeader ''X-Request-ID'' newID st
      in next w (r\<lparr>r_ctx := ctx\<rparr>) st)"

definition metrics_Middleware :: "'g middleware" where
  "metrics_Middleware next w r st =
     (let rec = StatusRecorder w;
          st = st\<lparr>cell_statusCode := 200, cell_bodySize := 0\<rparr>;
          ctx = WithStatusCodePtr (WithBodySizePtr (r_ctx r))
      in next rec (r\<lparr>r_ctx := ctx\<rparr>) st)"


section \<open>Body buffering\<close>

text \<open>64-bit signed wrap-around, for \<^verbatim>\<open>maxBytes+1\<close>.\<close>

definition wrap64 :: "int \<Rightarrow> int" where
  "wrap64 n = (n + 2 ^ 63) mod 2 ^ 64 - 2 ^ 63"

text \<open>
  \<^verbatim>\<open>io.ReadAll(io.LimitReader(r.Body, n))\<close>: at most \<open>n\<close> bytes are read, and an error of the
  underlying reader is seen only if it occurs before that; \<^const>\<open>None\<close> is the error.
\<close>

definition readLimited :: "int \<Rightarrow> bytes \<Rightarrow> bool \<Rightarrow> bytes option" where
  "readLimited n data fails =
     (if n \<le> 0 then Some []
      else if int (length data) < n then (if fails then None else Some data)
      else Some (take (nat n) data))"

definition BodyBuffer :: "int \<Rightarrow> 'g middleware" where
  "BodyBuffer maxBytes next w r st =
     (case r_Body r of
        NoBody \<Rightarrow> next w (r\<lparr>r_ctx := WithBodyBytes (r_ctx r) None\<rparr>) st
      | Body data fails \<Rightarrow>
          (if maxBytes > 0 \<and> r_ContentLength r > maxBytes
           then http_Error w ''request body too large'' 413 st
           else
             (case readLimited (wrap64 (maxBytes + 1)) data fails of
                None \<Rightarrow> http_Error w ''failed to read request body'' 500 st
              | Some body \<Rightarrow>
                  (if int (length body) > maxBytes
                   then http_Error w ''request body too large'' 413 st
                   else
                     (let ctx = WithBodyBytes (r_ctx r) (Some body);
                          st = (if c_bodySizePtr ctx then st\<lparr>cell_bodySize := int (length body)\<rparr> else st);
                          st = (if c_bodyBytesPtr ctx then st\<lparr>cell_bodyBytes := Some body\<rparr> else st)
                      in next w (r\<lparr>r_Body := Body body False,
                                   r_ContentLength := int (length body),
                                   r_ctx := ctx\<rparr>) st)))))"


section \<open>Header sanitizing\<close>

definition SanitizeHeaders :: "header \<Rightarrow> header" where
  "SanitizeHeaders h =
     map (\<lambda>(key, values).
            (key, if http_CanonicalHeaderKey key = ''X-Api-Key''
                  then map (\<lambda>_. ''REDACTED'') values else values)) h"


section \<open>Properties\<close>

lemma chainLoop_foldr:
  "n \<le> length mws \<Longrightarrow> chainLoop mws n final = foldr (\<lambda>mw h. mw h) (take n mws) final"
  by (induction n arbitrary: final) (auto simp: take_Suc_conv_app_nth)

text \<open>The first middleware of the list is the outermost one.\<close>

lemma Chain_foldr: "Chain mws final = foldr (\<lambda>mw h. mw h) mws final"
  by (simp add: Chain_def chainLoop_foldr)

lemma Chain_Cons [simp]: "Chain (mw # mws) final = mw (Chain mws final)"
  by (simp add: Chain_foldr)

lemma Chain_Nil [simp]: "Chain [] final = final"
  by (simp add: Chain_foldr)

lemma wrap64_id: "- (2 ^ 63) \<le> n \<Longrightarrow> n < 2 ^ 63 \<Longrightarrow> wrap64 n = n"
  by (simp add: wrap64_def)

lemma wrap64_max: "wrap64 (2 ^ 63) = - (2 ^ 63)"
  by (simp add: wrap64_def)

text \<open>
  For every limit below the largest 64-bit integer, \<^verbatim>\<open>BodyBuffer\<close> either answers without
  calling the next handler (413 for a body whose declared or real size is over the limit,
  500 for a body of permitted size that cannot be read), or calls it with the client's body
  bit for bit, with the matching content length, and with the same bytes in the context.
\<close>

theorem BodyBuffer_exact:
  assumes "0 < maxBytes" and "maxBytes < 2 ^ 63 - 1"
  shows "BodyBuffer maxBytes next w (r\<lparr>r_Body := Body data fails\<rparr>) st =
     (if r_ContentLength r > maxBytes \<or> int (length data) > maxBytes
      then http_Error w ''request body too large'' 413 st
      else if fails then http_Error w ''failed to read request body'' 500 st
      else next w (r\<lparr>r_Body := Body data False, r_ContentLength := int (length data),
                     r_ctx := (r_ctx r)\<lparr>c_bodyBytes := Some data\<rparr>\<rparr>)
                (st\<lparr>cell_bodySize := (if c_bodySizePtr (r_ctx r) then int (length data)
                                      else cell_bodySize st),
                    cell_bodyBytes := (if c_bodyBytesPtr (r_ctx r) then Some data
                                       else cell_bodyBytes st)\<rparr>))"
proof -
  have wrap: "wrap64 (maxBytes + 1) = maxBytes + 1"
    using assms by (intro wrap64_id) auto
  show ?thesis
  proof (cases "int (length data) > maxBytes")
    case True
    then have "readLimited (maxBytes + 1) data fails = Some (take (nat (maxBytes + 1)) data)"
      using assms by (simp add: readLimited_def)
    moreover have "int (length (take (nat (maxBytes + 1)) data)) = maxBytes + 1"
      using True assms by simp
    ultimately show ?thesis
      using True assms by (simp add: BodyBuffer_def wrap)
  next
    case False
    then have "readLimited (maxBytes + 1) data fails = (if fails then None else Some data)"
      using assms by (simp add: readLimited_def)
    then show ?thesis
      using False assms by (simp add: BodyBuffer_def wrap context_defs Let_def)
  qed
qed

text \<open>
  The bound is sharp: with the largest 64-bit limit, \<^verbatim>\<open>maxBytes+1\<close> wraps around, the limited
  reader returns nothing, and every request is passed on with an empty body.
\<close>

lemma BodyBuffer_max_int64:
  assumes "r_ContentLength r \<le> 2 ^ 63 - 1"
  shows "BodyBuffer (2 ^ 63 - 1) (\<lambda>w r st. st\<lparr>global := r_Body r\<rparr>) w (r\<lparr>r_Body := Body data fails\<rparr>) st =
     (st\<lparr>cell_bodySize := (if c_bodySizePtr (r_ctx r) then 0 else cell_bodySize st),
         cell_bodyBytes := (if c_bodyBytesPtr (r_ctx r) then Some [] else cell_bodyBytes st),
         global := Body [] False\<rparr>)"
  using assms wrap64_max by (simp add: BodyBuffer_def readLimited_def context_defs Let_def)

theorem BodyBuffer_exact_witness:
  "BodyBuffer 4 (\<lambda>w r st. st\<lparr>global := r_Body r\<rparr>) RawWriter
     (\<lparr>r_Method = ''PUT'', r_Scheme = [], r_Host = [], r_Path = ''/'', r_RawQuery = [], r_Header = [],
       r_Body = NoBody, r_ContentLength = -1, r_RemoteAddr = [], r_ctx = Background\<rparr>
      \<lparr>r_Body := Body ''abcd'' False\<rparr>) (freshState NoBody) =
   (freshState NoBody)\<lparr>global := Body ''abcd'' False\<rparr>"
  by (subst BodyBuffer_exact) (simp_all add: Background_def freshState_def)

end
