(* ===== verification/Authn.thy ===== *)
theory Authn
  imports Key_Store Hmac_Sha256 Client_IP Middleware
begin

text \<open>
  Authentication: the HMAC service \<^verbatim>\<open>src/internal/authn/hmac/hmac.go\<close>, the authentication
  middleware \<^verbatim>\<open>src/internal/authn/hmac/middleware.go\<close>, and the key generator
  \<^verbatim>\<open>src/internal/admin/hmac/keygen.go\<close> whose hashes the service verifies.

  The middleware takes its two interface values as functions: the key store's \<^verbatim>\<open>GetByID\<close> on
  the gateway state and the service's \<^verbatim>\<open>Authenticate\<close>.  \<open>now\<close> is its reading of the clock for
  the expiry check.
\<close>

section \<open>The HMAC service\<close>

record HmacService =
  secretMap :: "string \<rightharpoonup> string"

datatype authn_error = ErrInvalidCredentials | AuthnInternal string

definition NewHmacService :: "(string \<rightharpoonup> string) \<Rightarrow> HmacService" where
  "NewHmacService secrets = \<lparr>secretMap = secrets\<rparr>"

definition verify :: "string \<Rightarrow> string \<Rightarrow> string \<Rightarrow> authn_error + bool" where
  "verify providedApiKey storedHash hmacSecret =
     (case hex_DecodeString storedHash of
        None \<Rightarrow> Inl (AuthnInternal ''decode stored hash'')
      | Some expected \<Rightarrow>
          (if length expected \<noteq> sha256_Size then Inr False
           else Inr (hmac_sha256 hmacSecret providedApiKey = expected)))"

text \<open>\<^const>\<open>None\<close> is a nil error.\<close>

definition Authenticate :: "HmacService \<Rightarrow> string \<Rightarrow> KeyRecord \<Rightarrow> authn_error option" where
  "Authenticate h secret rec =
     (case secretMap h (HmacKeyID rec) of
        None \<Rightarrow> Some (AuthnInternal ''hmac secret not found'')
      | Some hmacSecret \<Rightarrow>
          (if hmacSecret = '''' then Some (AuthnInternal ''hmac secret is empty'')
           else case verify secret (KeyHash rec) hmacSecret of
                  Inl e \<Rightarrow> Some (AuthnInternal ''verify key hash'')
                | Inr False \<Rightarrow> Some ErrInvalidCredentials
                | Inr True \<Rightarrow> None))"


text \<open>
  \<^verbatim>\<open>DummyVerify\<close> computes a comparison against a fixed digest and returns nothing; its only
  effect is the time it takes.
\<close>

definition decoySecret :: bytes where
  "decoySecret = ''pdag-decoy-hmac-secret''"

definition decoyHash :: bytes where
  "decoyHash = replicate sha256_Size (CHR 0x00)"

definition DummyVerify :: "string \<Rightarrow> unit" where
  "DummyVerify secret = (let _ = (hmac_sha256 decoySecret secret = decoyHash) in ())"


section \<open>The key generator\<close>

record Generator =
  hmacKeyID :: string
  hmacSecret :: string

definition NewGenerator :: "string \<Rightarrow> string \<Rightarrow> Generator" where
  "NewGenerator kid secret = \<lparr>hmacKeyID = kid, hmacSecret = secret\<rparr>"

text \<open>
  \<open>rand\<close> is what \<^verbatim>\<open>rand.Read\<close> fills the buffer with, whose length the model leaves open, and
  \<^const>\<open>None\<close> an error of the random source.
\<close>

definition GenerateKeyID :: "bytes option \<Rightarrow> string option" where
  "GenerateKeyID rand = map_option (\<lambda>b. ''k_'' @ hex_EncodeToString b) rand"

definition GenerateSecret :: "bytes option \<Rightarrow> string option" where
  "GenerateSecret rand = map_option (\<lambda>b. ''pdg_'' @ hex_EncodeToString b) rand"

definition Hash :: "Generator \<Rightarrow> string \<Rightarrow> string" where
  "Hash g plaintext = hex_EncodeToString (hmac_sha256 (hmacSecret g) plaintext)"


section \<open>The middleware\<close>

definition deny :: "ResponseWriter \<Rightarrow> 'g rstate \<Rightarrow> 'g rstate" where
  "deny w st = http_Error w ''invalid credentials'' 401 st"

text \<open>The loop over \<^verbatim>\<open>rec.AllowedCIDRs\<close>; an entry that does not parse is skipped.\<close>

fun cidrAllowed :: "IP \<Rightarrow> string list \<Rightarrow> bool" where
  "cidrAllowed ip [] = False"
| "cidrAllowed ip (c # cs) =
     (case net_ParseCIDR c of
        None \<Rightarrow> cidrAllowed ip cs
      | Some (_, ipNet) \<Rightarrow> if IPNet_Contains ipNet ip then True else cidrAllowed ip cs)"

definition authn_Middleware ::
  "(string \<Rightarrow> 'g \<Rightarrow> KeyRecord option sres) \<Rightarrow> (string \<Rightarrow> KeyRecord \<Rightarrow> authn_error option) \<Rightarrow>
   Resolver \<Rightarrow> gotime \<Rightarrow> 'g middleware" where
  "authn_Middleware getByID authenticate resolver now next w r st =
     (let apiKey = header_Get (r_Header r) ''X-API-Key''
      in if apiKey = '''' then http_Error w ''missing X-API-Key header'' 401 st
         else
           (case strings_Cut apiKey CHR '':'' of
              None \<Rightarrow> http_Error w ''malformed X-API-Key header'' 401 st
            | Some (keyID, secret) \<Rightarrow>
                (if keyID = '''' \<or> secret = '''' then
                   http_Error w ''malformed X-API-Key header'' 401 st
                 else
                   (case getByID keyID (global st) of
                      Inl _ \<Rightarrow> http_Error w ''internal error'' 500 st
                    | Inr None \<Rightarrow> deny w st
                    | Inr (Some rec) \<Rightarrow>
                        (case authenticate secret rec of
                           Some ErrInvalidCredentials \<Rightarrow> deny w st
                         | Some (AuthnInternal _) \<Rightarrow> http_Error w ''internal error'' 500 st
                         | None \<Rightarrow>
                             (if \<not> Enabled rec then deny w st
                              else if (case ExpiresAt rec of Some t \<Rightarrow> t < now | None \<Rightarrow> False)
                              then deny w st
                              else
                                (let pass =
                                   (let ctx = WithPrincipal (r_ctx r) (KPrincipal rec);
                                        ctx = WithKeyID ctx (KID rec);
                                        ctx = WithRoles ctx (KRoles rec)
                                    in next w (r\<lparr>r_ctx := ctx\<rparr>) st)
                                 in if AllowedCIDRs rec \<noteq> [] then
                                      (case ClientIP resolver r of
                                         None \<Rightarrow> deny w st
                                       | Some clientIP \<Rightarrow>
                                           (if cidrAllowed clientIP (AllowedCIDRs rec) then pass
                                            else deny w st))
                                    else pass)))))))"


section \<open>What a key grants\<close>

text \<open>
  The conditions under which a request with a given secret may use a key, independent of the
  order in which the code checks them.
\<close>

definition secret_matches :: "HmacService \<Rightarrow> string \<Rightarrow> KeyRecord \<Rightarrow> bool" where
  "secret_matches h secret rec \<longleftrightarrow>
     (\<exists>s. secretMap h (HmacKeyID rec) = Some s \<and> s \<noteq> '''' \<and>
          hex_DecodeString (KeyHash rec) = Some (hmac_sha256 s secret))"

definition source_allowed :: "Resolver \<Rightarrow> http_request \<Rightarrow> KeyRecord \<Rightarrow> bool" where
  "source_allowed resolver r rec \<longleftrightarrow>
     AllowedCIDRs rec = [] \<or>
     (\<exists>ip c a n. ClientIP resolver r = Some ip \<and> c \<in> set (AllowedCIDRs rec) \<and>
                 net_ParseCIDR c = Some (a, n) \<and> IPNet_Contains n ip)"

definition key_grants :: "HmacService \<Rightarrow> Resolver \<Rightarrow> gotime \<Rightarrow> http_request \<Rightarrow> string \<Rightarrow> KeyRecord \<Rightarrow> bool" where
  "key_grants h resolver now r secret rec \<longleftrightarrow>
     secret_matches h secret rec \<and> Enabled rec \<and>
     (\<forall>t. ExpiresAt rec = Some t \<longrightarrow> now \<le> t) \<and> source_allowed resolver r rec"

text \<open>The record's HMAC key is configured and its stored hash is hexadecimal.\<close>

definition key_configured :: "HmacService \<Rightarrow> KeyRecord \<Rightarrow> bool" where
  "key_configured h rec \<longleftrightarrow>
     (\<exists>s. secretMap h (HmacKeyID rec) = Some s \<and> s \<noteq> '''') \<and> hex_DecodeString (KeyHash rec) \<noteq> None"

lemma cidrAllowed_iff:
  "cidrAllowed ip cs \<longleftrightarrow> (\<exists>c a n. c \<in> set cs \<and> net_ParseCIDR c = Some (a, n) \<and> IPNet_Contains n ip)"
  by (induction cs) (auto split: option.splits)

lemma Authenticate_None_iff: "Authenticate h secret rec = None \<longleftrightarrow> secret_matches h secret rec"
  by (auto simp: Authenticate_def verify_def secret_matches_def sha256_Size_def [symmetric]
        split: option.splits sum.splits bool.splits if_splits)

lemma Authenticate_mismatch:
  assumes "key_configured h rec" and "\<not> secret_matches h secret rec"
  shows "Authenticate h secret rec = Some ErrInvalidCredentials"
  using assms
  by (auto simp: Authenticate_def verify_def secret_matches_def key_configured_def
        split: option.splits sum.splits bool.splits if_splits)

lemma Authenticate_unconfigured:
  assumes "\<not> key_configured h rec"
  shows "\<exists>msg. Authenticate h secret rec = Some (AuthnInternal msg)"
  using assms by (auto simp: Authenticate_def verify_def key_configured_def split: option.split)

lemma secret_matches_configured: "secret_matches h secret rec \<Longrightarrow> key_configured h rec"
  by (auto simp: secret_matches_def key_configured_def)

abbreviation admitted :: "http_request \<Rightarrow> KeyRecord \<Rightarrow> http_request" where
  "admitted r rec \<equiv> r\<lparr>r_ctx := (r_ctx r)\<lparr>c_principal := KPrincipal rec, c_keyID := KID rec,
                                            c_roles := KRoles rec\<rparr>\<rparr>"

lemma authn_Middleware_found:
  assumes "header_Get (r_Header r) ''X-API-Key'' = keyID @ CHR '':'' # secret"
    and "CHR '':'' \<notin> set keyID" and "keyID \<noteq> ''''" and "secret \<noteq> ''''"
    and "getByID keyID (global st) = Inr (Some rec)"
  shows "authn_Middleware getByID (Authenticate h) resolver now next w r st =
     (if key_grants h resolver now r secret rec then next w (admitted r rec) st
      else if key_configured h rec then deny w st
      else http_Error w ''internal error'' 500 st)"
proof -
  have cut: "strings_Cut (keyID @ CHR '':'' # secret) CHR '':'' = Some (keyID, secret)"
    using assms(2) by (rule strings_Cut_append)
  show ?thesis
  proof (cases "secret_matches h secret rec")
    case True
    then have auth: "Authenticate h secret rec = None"
      by (simp add: Authenticate_None_iff)
    show ?thesis
      using True auth secret_matches_configured [OF True] assms cut
      by (auto simp: authn_Middleware_def key_grants_def source_allowed_def cidrAllowed_iff
            context_defs Let_def not_le split: option.split)
  next
    case False
    then have ng: "\<not> key_grants h resolver now r secret rec"
      by (simp add: key_grants_def)
    show ?thesis
    proof (cases "key_configured h rec")
      case True
      then show ?thesis
        using ng assms cut Authenticate_mismatch [OF True False]
        by (simp add: authn_Middleware_def Let_def)
    next
      case conf: False
      then have "\<exists>msg. Authenticate h secret rec = Some (AuthnInternal msg)"
        by (rule Authenticate_unconfigured)
      then show ?thesis
        using ng conf assms cut by (auto simp: authn_Middleware_def Let_def)
    qed
  qed
qed

definition is_rejection :: "ResponseWriter \<Rightarrow> 'g rstate \<Rightarrow> 'g rstate \<Rightarrow> bool" where
  "is_rejection w st out \<longleftrightarrow> (\<exists>msg code. code \<in> {401, 500} \<and> out = http_Error w msg code st)"

lemma is_rejection_intros [simp]:
  "is_rejection w st (http_Error w msg 401 st)"
  "is_rejection w st (http_Error w msg 500 st)"
  "is_rejection w st (deny w st)"
  by (auto simp: is_rejection_def deny_def)

lemma authn_Middleware_cases:
  obtains "is_rejection w st (authn_Middleware getByID authenticate resolver now next w r st)"
    | keyID secret rec where
        "header_Get (r_Header r) ''X-API-Key'' = keyID @ CHR '':'' # secret"
        "CHR '':'' \<notin> set keyID" "keyID \<noteq> ''''" "secret \<noteq> ''''"
        "getByID keyID (global st) = Inr (Some rec)"
proof (cases "strings_Cut (header_Get (r_Header r) ''X-API-Key'') CHR '':''")
  case None
  then show ?thesis
    by (intro that(1)) (simp add: authn_Middleware_def Let_def)
next
  case (Some p)
  obtain keyID secret where p: "p = (keyID, secret)"
    by (cases p)
  have hdr: "header_Get (r_Header r) ''X-API-Key'' = keyID @ CHR '':'' # secret"
      "CHR '':'' \<notin> set keyID"
    using strings_Cut_SomeD [OF Some [unfolded p]] by auto
  show ?thesis
  proof (cases "keyID = '''' \<or> secret = '''' \<or> (\<nexists>rec. getByID keyID (global st) = Inr (Some rec))")
    case True
    then have "is_rejection w st (authn_Middleware getByID authenticate resolver now next w r st)"
      using Some p by (auto simp: authn_Middleware_def Let_def split: sum.split option.split)
    then show ?thesis by (rule that(1))
  next
    case False
    then show ?thesis using that(2) [OF hdr] by blast
  qed
qed


section \<open>Properties\<close>

text \<open>
  C2: no request reaches the next handler unless its \<^verbatim>\<open>X-API-Key\<close> header is a non-empty key ID, a
  colon and a non-empty secret, the store has a record for that key ID, and the record grants
  access: the HMAC of the secret under the record's HMAC key is the stored digest, the key is
  enabled, not expired, and the client address is in its allowlist.  The next handler then runs
  with the record's principal, key ID and roles in the context.  In every other case the
  response is a 401 or a 500 and nothing else happens.
\<close>

theorem authn_gate:
  "(\<exists>keyID secret rec.
      header_Get (r_Header r) ''X-API-Key'' = keyID @ CHR '':'' # secret \<and>
      CHR '':'' \<notin> set keyID \<and> keyID \<noteq> '''' \<and> secret \<noteq> '''' \<and>
      getByID keyID (global st) = Inr (Some rec) \<and> key_grants h resolver now r secret rec \<and>
      authn_Middleware getByID (Authenticate h) resolver now next w r st =
        next w (admitted r rec) st) \<or>
   (\<exists>msg code. code \<in> {401, 500} \<and>
      authn_Middleware getByID (Authenticate h) resolver now next w r st = http_Error w msg code st)"
proof -
  let ?out = "authn_Middleware getByID (Authenticate h) resolver now next w r st"
  let ?hdr = "header_Get (r_Header r) ''X-API-Key''"
  consider (rejected) "is_rejection w st ?out"
    | (found) keyID secret rec where "?hdr = keyID @ CHR '':'' # secret" "CHR '':'' \<notin> set keyID"
        "keyID \<noteq> ''''" "secret \<noteq> ''''" "getByID keyID (global st) = Inr (Some rec)"
    by (rule authn_Middleware_cases)
  then show ?thesis
  proof cases
    case rejected
    then show ?thesis unfolding is_rejection_def by (rule disjI2)
  next
    case found
    note out = authn_Middleware_found [OF found(1-4), of getByID st rec h resolver now "next" w,
      OF found(5)]
    show ?thesis
    proof (cases "key_grants h resolver now r secret rec")
      case True
      with out have "?out = next w (admitted r rec) st" by simp
      with found True show ?thesis by blast
    next
      case False
      with out have "is_rejection w st ?out" by (simp add: is_rejection_intros)
      then show ?thesis unfolding is_rejection_def by (rule disjI2)
    qed
  qed
qed

text \<open>
  A caller holding a key that grants access is let through, with the identity of that key.
\<close>

theorem authn_admits:
  assumes "header_Get (r_Header r) ''X-API-Key'' = keyID @ CHR '':'' # secret"
    and "CHR '':'' \<notin> set keyID" and "keyID \<noteq> ''''" and "secret \<noteq> ''''"
    and "getByID keyID (global st) = Inr (Some rec)"
    and "key_grants h resolver now r secret rec"
  shows "authn_Middleware getByID (Authenticate h) resolver now next w r st =
           next w (admitted r rec) st"
  using authn_Middleware_found [OF assms(1-4), of getByID st rec] assms(5,6) by simp

text \<open>
  C5: the response to a well-formed but rejected credential does not depend on the state of the
  key, with one exception.  Whether the key is unknown, the secret wrong, the key disabled or
  expired or the client address not allowed, the response is the same generic 401.  The exception
  is a 500, which is given exactly if the lookup fails or the key is stored with an HMAC secret that
  is not configured or a hash that is not hexadecimal.
\<close>

theorem authn_uniform_denial:
  assumes "header_Get (r_Header r) ''X-API-Key'' = keyID @ CHR '':'' # secret"
    and "CHR '':'' \<notin> set keyID" and "keyID \<noteq> ''''" and "secret \<noteq> ''''"
    and "\<And>rec. getByID keyID (global st) = Inr (Some rec) \<Longrightarrow> \<not> key_grants h resolver now r secret rec"
  shows "authn_Middleware getByID (Authenticate h) resolver now next w r st =
    (if (\<exists>e. getByID keyID (global st) = Inl e) \<or>
        (\<exists>rec. getByID keyID (global st) = Inr (Some rec) \<and> \<not> key_configured h rec)
     then http_Error w ''internal error'' 500 st else http_Error w ''invalid credentials'' 401 st)"
proof -
  have cut: "strings_Cut (keyID @ CHR '':'' # secret) CHR '':'' = Some (keyID, secret)"
    using assms(2) by (rule strings_Cut_append)
  consider e where "getByID keyID (global st) = Inl e" | "getByID keyID (global st) = Inr None"
    | rec where "getByID keyID (global st) = Inr (Some rec)"
    by (metis not_None_eq sum.exhaust)
  then show ?thesis
  proof cases
    case (3 rec)
    then show ?thesis
      using authn_Middleware_found [OF assms(1-4), of getByID st rec] assms(5) by (simp add: deny_def)
  qed (use assms(1-4) cut in \<open>simp_all add: authn_Middleware_def deny_def\<close>)
qed

text \<open>
  Finding: a known key whose HMAC secret is not configured answers 500, for any secret, where an
  unknown key ID answers 401.
\<close>

lemma authn_unconfigured_key_differs:
  assumes "header_Get (r_Header r) ''X-API-Key'' = keyID @ CHR '':'' # secret"
    and "CHR '':'' \<notin> set keyID" and "keyID \<noteq> ''''" and "secret \<noteq> ''''"
    and "getByID keyID (global st) = Inr (Some rec)" and "\<not> key_configured h rec"
  shows "authn_Middleware getByID (Authenticate h) resolver now next w r st =
           http_Error w ''internal error'' 500 st"
  using authn_Middleware_found [OF assms(1-4), of getByID st rec] assms(5,6) secret_matches_configured
  by (auto simp: key_grants_def)

lemma hex_Encode_no_colon: "CHR '':'' \<notin> set (hex_EncodeToString b)"
  using hex_Encode_chars [of "CHR '':''" b] by (auto simp: hextable_def)

text \<open>
  A key made by the generator authenticates against the service that knows its HMAC secret:
  the generated key ID and any secret survive the \<^verbatim>\<open>keyID:secret\<close> header format, and the service
  accepts a presented secret exactly when its HMAC is that of the generated one.
\<close>

theorem generated_key_verifies:
  assumes "GenerateKeyID rand = Some kid"
    and "secretMap h (hmacKeyID g) = Some (hmacSecret g)" and "hmacSecret g \<noteq> ''''"
    and "HmacKeyID rec = hmacKeyID g" and "KeyHash rec = Hash g secret"
  shows "strings_Cut (kid @ '':'' @ secret') CHR '':'' = Some (kid, secret') \<and> kid \<noteq> '''' \<and>
         (Authenticate h secret' rec = None \<longleftrightarrow>
            hmac_sha256 (hmacSecret g) secret' = hmac_sha256 (hmacSecret g) secret) \<and>
         Authenticate h secret' rec \<in> {None, Some ErrInvalidCredentials}"
proof -
  have kid: "CHR '':'' \<notin> set kid" "kid \<noteq> ''''"
    using assms(1) by (auto simp: GenerateKeyID_def hex_Encode_no_colon)
  have match: "secret_matches h secret' rec \<longleftrightarrow>
      hmac_sha256 (hmacSecret g) secret' = hmac_sha256 (hmacSecret g) secret"
    using assms(2-5) by (auto simp: secret_matches_def Hash_def hex_Decode_Encode)
  have conf: "key_configured h rec"
    using assms(2-5) by (simp add: key_configured_def Hash_def hex_Decode_Encode)
  have "Authenticate h secret' rec \<in> {None, Some ErrInvalidCredentials}"
    using Authenticate_mismatch [OF conf, of secret'] Authenticate_None_iff [of h secret' rec] by blast
  moreover have "strings_Cut (kid @ '':'' @ secret') CHR '':'' = Some (kid, secret')"
    using strings_Cut_append [OF kid(1)] by simp
  ultimately show ?thesis
    using kid(2) match Authenticate_None_iff [of h secret' rec] by simp
qed

section \<open>Witnesses\<close>

definition demoService :: HmacService where
  "demoService = NewHmacService [''hk1'' \<mapsto> ''server secret'']"

definition demoGenerator :: Generator where
  "demoGenerator = NewGenerator ''hk1'' ''server secret''"

definition demoKey :: KeyRecord where
  "demoKey = (sampleKey ''k_1'' ''alice'' (Some 100))
     \<lparr>HmacKeyID := ''hk1'', KeyHash := Hash demoGenerator ''pdg_1'', Enabled := True,
      AllowedCIDRs := []\<rparr>"

definition demoRequest :: "string \<Rightarrow> http_request" where
  "demoRequest apiKey =
     (sampleReq ''203.0.113.9:4711'' [])\<lparr>r_Header := [(''X-Api-Key'', [apiKey])]\<rparr>"

definition demoLookup :: "string \<Rightarrow> unit \<Rightarrow> KeyRecord option sres" where
  "demoLookup kid _ = Inr (if kid = ''k_1'' then Some demoKey else None)"

lemmas demo_defs = demoService_def demoGenerator_def demoKey_def NewHmacService_def NewGenerator_def

lemma demoKey_matches: "secret_matches demoService ''pdg_1'' demoKey"
  by (simp add: secret_matches_def demo_defs Hash_def hex_Decode_Encode)

lemma demoKey_configured: "key_configured demoService demoKey"
  by (rule secret_matches_configured [OF demoKey_matches])

lemma demoKey_grants:
  "key_grants demoService resolver now r ''pdg_1'' demoKey \<longleftrightarrow> now \<le> 100"
  using demoKey_matches by (simp add: key_grants_def source_allowed_def) (simp add: demo_defs)

lemma demoRequest_header:
  "header_Get (r_Header (demoRequest (kid @ CHR '':'' # secret))) ''X-API-Key'' = kid @ CHR '':'' # secret"
proof -
  have "http_CanonicalHeaderKey ''X-API-Key'' = ''X-Api-Key''" by code_simp
  then show ?thesis by (simp add: demoRequest_def header_Get_def)
qed

text \<open>A handler that answers with the principal it is given.\<close>

definition demoNext :: "unit handler" where
  "demoNext w r st = Write w (GetPrincipal (r_ctx r)) st"

theorem authn_admits_witness:
  "authn_Middleware demoLookup (Authenticate demoService) \<lparr>trusted = []\<rparr> 50 demoNext RawWriter
     (demoRequest ''k_1:pdg_1'') (freshState ()) =
   demoNext RawWriter (admitted (demoRequest ''k_1:pdg_1'') demoKey) (freshState ())"
  using authn_admits [where keyID = "''k_1''" and secret = "''pdg_1''" and rec = demoKey
      and h = demoService and now = 50 and getByID = demoLookup]
    demoRequest_header [of "''k_1''" "''pdg_1''"] demoKey_grants [of _ 50]
  by (simp add: demoLookup_def)

theorem authn_uniform_denial_witness:
  "authn_Middleware demoLookup (Authenticate demoService) \<lparr>trusted = []\<rparr> 101 demoNext RawWriter
     (demoRequest ''k_1:pdg_1'') (freshState ()) =
   http_Error RawWriter ''invalid credentials'' 401 (freshState ())"
  using authn_uniform_denial [where keyID = "''k_1''" and secret = "''pdg_1''"
      and h = demoService and now = 101 and getByID = demoLookup]
    demoRequest_header [of "''k_1''" "''pdg_1''"] demoKey_grants [of _ 101] demoKey_configured
  by (simp add: demoLookup_def)

theorem generated_key_verifies_witness:
  "Authenticate demoService ''pdg_1'' demoKey = None \<and>
   strings_Cut ''k_00ff:pdg_1'' CHR '':'' = Some (''k_00ff'', ''pdg_1'')"
proof -
  have "GenerateKeyID (Some [CHR 0x00, CHR 0xFF]) = Some ''k_00ff''" by code_simp
  from generated_key_verifies [OF this, of demoService demoGenerator demoKey "''pdg_1''" "''pdg_1''"]
  show ?thesis by (simp add: demo_defs)
qed

end
