(* ===== verification/Sdk.thy ===== *)
theory Sdk
  imports Http "HOL-Library.AList"
begin

text \<open>
  The messages between the gateway and its authorization plugins
  (\<^verbatim>\<open>src/proto/authz/authz.proto\<close>) and their conversion from and to \<^verbatim>\<open>*http.Request\<close>
  (\<^verbatim>\<open>src/sdk/convert.go\<close>).  The gRPC transport of \<^verbatim>\<open>src/sdk/plugin.go\<close> passes a message on as
  it is and has no counterpart.
\<close>

record pb_Header =
  ph_Key :: string
  ph_Values :: "string list"

record pb_HttpRequest =
  pb_Method :: string
  pb_Scheme :: string
  pb_Host :: string
  pb_Path :: string
  pb_RawQuery :: string
  pb_Headers :: "pb_Header list"
  pb_Body :: bytes
  pb_ContentLength :: int
  pb_RemoteAddr :: string
  pb_RequestId :: string
  pb_Principal :: string

text \<open>An enum of proto3 is open: a decision is any 32-bit number.\<close>

type_synonym Decision = int

definition Decision_DENY :: Decision where
  "Decision_DENY = 0"

definition Decision_ALLOW :: Decision where
  "Decision_ALLOW = 1"

record AuthorizeResponse =
  ResDecision :: Decision
  ResReason :: string

definition StdlibToHttpRequest :: "http_request \<Rightarrow> bytes option \<Rightarrow> string \<Rightarrow> string \<Rightarrow> pb_HttpRequest" where
  "StdlibToHttpRequest r body requestID prin =
     \<lparr>pb_Method = r_Method r, pb_Scheme = r_Scheme r, pb_Host = r_Host r, pb_Path = r_Path r,
      pb_RawQuery = r_RawQuery r,
      pb_Headers = map (\<lambda>(k, v). \<lparr>ph_Key = k, ph_Values = v\<rparr>) (r_Header r),
      pb_Body = (case body of None \<Rightarrow> [] | Some b \<Rightarrow> b),
      pb_ContentLength = r_ContentLength r, pb_RemoteAddr = r_RemoteAddr r,
      pb_RequestId = requestID, pb_Principal = prin\<rparr>"

text \<open>The loop that fills the header map.\<close>

fun headersToStdlib :: "pb_Header list \<Rightarrow> header \<Rightarrow> header" where
  "headersToStdlib [] h = h"
| "headersToStdlib (ph # phs) h = headersToStdlib phs (AList.update (ph_Key ph) (ph_Values ph) h)"

definition HttpRequestToStdlib :: "pb_HttpRequest \<Rightarrow> http_request" where
  "HttpRequestToStdlib req =
     \<lparr>r_Method = pb_Method req, r_Scheme = pb_Scheme req, r_Host = pb_Host req,
      r_Path = pb_Path req, r_RawQuery = pb_RawQuery req,
      r_Header = headersToStdlib (pb_Headers req) [],
      r_Body = (if pb_Body req \<noteq> [] then Body (pb_Body req) False else NoBody),
      r_ContentLength = pb_ContentLength req, r_RemoteAddr = pb_RemoteAddr req,
      r_ctx = Background\<rparr>"

lemma update_fresh: "k \<notin> fst ` set h \<Longrightarrow> AList.update k v h = h @ [(k, v)]"
  by (induction h) auto

lemma headersToStdlib_append:
  assumes "distinct (map fst (acc @ h))"
  shows "headersToStdlib (map (\<lambda>(k, v). \<lparr>ph_Key = k, ph_Values = v\<rparr>) h) acc = acc @ h"
  using assms
proof (induction h arbitrary: acc)
  case (Cons kv h)
  obtain k v where [simp]: "kv = (k, v)" by (cases kv)
  have "AList.update k v acc = acc @ [(k, v)]"
    using Cons.prems by (intro update_fresh) (auto simp: image_iff)
  then show ?case
    using Cons.IH [of "acc @ [(k, v)]"] Cons.prems by simp
qed simp

text \<open>
  What a plugin author gets from \<^verbatim>\<open>HttpRequestToStdlib\<close> is the request the gateway
  converted, with the buffered bytes as its body and an empty context.
\<close>

theorem StdlibToHttpRequest_roundtrip:
  assumes "distinct (map fst (r_Header r))"
  shows "HttpRequestToStdlib (StdlibToHttpRequest r body requestID prin) =
    r\<lparr>r_Body := (case body of Some (c # cs) \<Rightarrow> Body (c # cs) False | _ \<Rightarrow> NoBody),
      r_ctx := Background\<rparr>"
  using headersToStdlib_append [of "[]" "r_Header r"] assms
  by (cases r) (auto simp: HttpRequestToStdlib_def StdlibToHttpRequest_def
      split: option.split list.split)

theorem StdlibToHttpRequest_roundtrip_witness:
  "HttpRequestToStdlib (StdlibToHttpRequest
     \<lparr>r_Method = ''PUT'', r_Scheme = [], r_Host = ''h'', r_Path = ''/'', r_RawQuery = [],
      r_Header = [(''Accept'', [''a'', ''b'']), (''Via'', [])], r_Body = Body ''xy'' False,
      r_ContentLength = 2, r_RemoteAddr = [], r_ctx = WithPrincipal Background ''alice''\<rparr>
     (Some ''xy'') ''id'' ''alice'') =
   \<lparr>r_Method = ''PUT'', r_Scheme = [], r_Host = ''h'', r_Path = ''/'', r_RawQuery = [],
    r_Header = [(''Accept'', [''a'', ''b'']), (''Via'', [])], r_Body = Body ''xy'' False,
    r_ContentLength = 2, r_RemoteAddr = [], r_ctx = Background\<rparr>"
  by (subst StdlibToHttpRequest_roundtrip) simp_all

end
