(* ===== verification/Circuit_Breaker.thy ===== *)
theory Circuit_Breaker
  imports Prelude "HOL-Library.Sublist"
begin

text \<open>
  The per-plugin circuit breaker of \<^verbatim>\<open>src/internal/authz/plugin/circuitbreaker.go\<close>: its
  state, its operations, and the step relation of a breaker used by its only client
  (\<^verbatim>\<open>callPlugin\<close>).  The mutex makes each method one atomic step; the Prometheus and
  log calls of \<^verbatim>\<open>transition\<close> have no influence on the state and are left out.
\<close>

section \<open>State\<close>

datatype CBState = StateClosed | StateHalfOpen | StateOpen

fun CBState_String :: "CBState \<Rightarrow> string" where
  "CBState_String StateClosed = ''closed''"
| "CBState_String StateHalfOpen = ''half-open''"
| "CBState_String StateOpen = ''open''"

record CircuitBreaker =
  cb_plugin :: string
  failureThreshold :: int
  successThreshold :: int
  cooldown :: duration
  cb_state :: CBState
  consecutiveFailures :: int
  consecutiveSuccesses :: int
  lastFailure :: gotime
  halfOpenAllowed :: bool

definition NewCircuitBreaker :: "string \<Rightarrow> int \<Rightarrow> int \<Rightarrow> duration \<Rightarrow> CircuitBreaker" where
  "NewCircuitBreaker plugin fth sth cd =
     \<lparr>cb_plugin = plugin, failureThreshold = fth, successThreshold = sth, cooldown = cd,
      cb_state = StateClosed, consecutiveFailures = 0, consecutiveSuccesses = 0,
      lastFailure = 0, halfOpenAllowed = False\<rparr>"


section \<open>Operations\<close>

definition transition :: "CBState \<Rightarrow> CircuitBreaker \<Rightarrow> CircuitBreaker" where
  "transition to cb =
     cb\<lparr>cb_state := to, consecutiveFailures := 0, consecutiveSuccesses := 0,
        halfOpenAllowed := (to = StateHalfOpen)\<rparr>"

definition Allow :: "gotime \<Rightarrow> CircuitBreaker \<Rightarrow> bool \<times> CircuitBreaker" where
  "Allow now cb =
     (case cb_state cb of
        StateClosed \<Rightarrow> (True, cb)
      | StateOpen \<Rightarrow>
          (if time_Sub now (lastFailure cb) > cooldown cb
           then (True, (transition StateHalfOpen cb)\<lparr>halfOpenAllowed := False\<rparr>)
           else (False, cb))
      | StateHalfOpen \<Rightarrow>
          (if halfOpenAllowed cb then (True, cb\<lparr>halfOpenAllowed := False\<rparr>)
           else (False, cb)))"

definition RecordSuccess :: "CircuitBreaker \<Rightarrow> CircuitBreaker" where
  "RecordSuccess cb =
     (let cb1 = cb\<lparr>consecutiveFailures := 0\<rparr>
      in if cb_state cb1 = StateHalfOpen
         then let cb2 = cb1\<lparr>consecutiveSuccesses := consecutiveSuccesses cb1 + 1\<rparr>
              in if consecutiveSuccesses cb2 \<ge> successThreshold cb2
                 then transition StateClosed cb2
                 else cb2\<lparr>halfOpenAllowed := True\<rparr>
         else cb1)"

definition RecordFailure :: "gotime \<Rightarrow> CircuitBreaker \<Rightarrow> CircuitBreaker" where
  "RecordFailure now cb =
     (let cb1 = cb\<lparr>consecutiveSuccesses := 0,
                   consecutiveFailures := consecutiveFailures cb + 1,
                   lastFailure := now\<rparr>
      in case cb_state cb1 of
           StateClosed \<Rightarrow>
             (if consecutiveFailures cb1 \<ge> failureThreshold cb1
              then transition StateOpen cb1 else cb1)
         | StateHalfOpen \<Rightarrow> transition StateOpen cb1
         | StateOpen \<Rightarrow> cb1)"

definition State :: "CircuitBreaker \<Rightarrow> CBState" where
  "State cb = cb_state cb"

lemmas breaker_ops [breaker_simps] =
  transition_def Allow_def RecordSuccess_def RecordFailure_def Let_def

section \<open>When the breaker opens\<close>

text \<open>Outcomes reported to the breaker: a success, or a failure at an instant.\<close>

datatype outcome = Succeeded | Failed gotime

fun report :: "outcome \<Rightarrow> CircuitBreaker \<Rightarrow> CircuitBreaker" where
  "report Succeeded cb = RecordSuccess cb"
| "report (Failed now) cb = RecordFailure now cb"

fun isFailed :: "outcome \<Rightarrow> bool" where
  "isFailed Succeeded = False"
| "isFailed (Failed _) = True"

text \<open>The number of failures at the end of a history.\<close>

definition trailing :: "outcome list \<Rightarrow> int" where
  "trailing evs = int (length (takeWhile isFailed (rev evs)))"

lemma prefix_replicate_iff:
  "prefix (replicate n True) (map f xs) \<longleftrightarrow> n \<le> length (takeWhile f xs)"
proof (induction n arbitrary: xs)
  case (Suc n)
  then show ?case by (cases xs) auto
qed simp

lemma failure_run_snoc:
  "sublist (replicate n True) (map isFailed (evs @ [e])) \<longleftrightarrow>
     sublist (replicate n True) (map isFailed evs) \<or> int n \<le> trailing (evs @ [e])"
proof -
  have "sublist (replicate n True) (map isFailed (evs @ [e])) \<longleftrightarrow>
      sublist (replicate n True) (map isFailed (rev (evs @ [e])))"
    by (metis rev_map rev_replicate sublist_rev)
  also have "\<dots> \<longleftrightarrow> prefix (replicate n True) (map isFailed (rev (evs @ [e]))) \<or>
      sublist (replicate n True) (map isFailed (rev evs))"
    by (simp add: sublist_Cons_right)
  also have "sublist (replicate n True) (map isFailed (rev evs)) \<longleftrightarrow>
      sublist (replicate n True) (map isFailed evs)"
    by (metis rev_map rev_replicate sublist_rev)
  finally show ?thesis
    unfolding prefix_replicate_iff trailing_def of_nat_le_iff by (rule trans) (rule disj_commute)
qed

lemma report_threshold [simp]: "failureThreshold (fold report evs cb) = failureThreshold cb"
proof (induction evs arbitrary: cb)
  case (Cons e evs)
  have "failureThreshold (report e cb) = failureThreshold cb"
    by (cases e) (simp_all add: breaker_simps split: CBState.split)
  with Cons show ?case by simp
qed simp

lemma report_open:
  "cb_state cb = StateOpen \<Longrightarrow> cb_state (report e cb) = StateOpen"
  by (cases e) (simp_all add: breaker_simps)

lemma report_closed:
  assumes "cb_state cb = StateClosed"
  shows "report Succeeded cb = cb\<lparr>consecutiveFailures := 0\<rparr>"
    and "consecutiveFailures cb + 1 < failureThreshold cb \<Longrightarrow>
      cb_state (report (Failed t) cb) = StateClosed \<and>
      consecutiveFailures (report (Failed t) cb) = consecutiveFailures cb + 1"
    and "failureThreshold cb \<le> consecutiveFailures cb + 1 \<Longrightarrow>
      cb_state (report (Failed t) cb) = StateOpen"
  using assms by (simp_all add: breaker_simps)

lemma trailing_snoc [simp]:
  "trailing (evs @ [Succeeded]) = 0" "trailing (evs @ [Failed t]) = trailing evs + 1"
  by (simp_all add: trailing_def)

lemma breaker_history:
  assumes "1 \<le> failureThreshold cb" and "cb_state cb = StateClosed" and "consecutiveFailures cb = 0"
  shows "if sublist (replicate (nat (failureThreshold cb)) True) (map isFailed evs)
         then cb_state (fold report evs cb) = StateOpen
         else cb_state (fold report evs cb) = StateClosed \<and>
              consecutiveFailures (fold report evs cb) = trailing evs \<and>
              trailing evs < failureThreshold cb"
proof (induction evs rule: rev_induct)
  case Nil
  then show ?case using assms by (simp add: trailing_def)
next
  case (snoc e evs)
  let ?b = "fold report evs cb"
  show ?case
  proof (cases "sublist (replicate (nat (failureThreshold cb)) True) (map isFailed evs)")
    case True
    then have "cb_state (report e ?b) = StateOpen" using snoc by (simp add: report_open)
    with True show ?thesis by (simp add: failure_run_snoc del: map_append)
  next
    case False
    then have b: "cb_state ?b = StateClosed" "consecutiveFailures ?b = trailing evs"
        "trailing evs < failureThreshold cb"
      using snoc by simp_all
    show ?thesis
    proof (cases e)
      case Succeeded
      with False b assms(1) show ?thesis
        by (simp add: failure_run_snoc report_closed(1) [OF b(1)] del: map_append report.simps)
    next
      case (Failed t)
      with False b assms(1) report_closed(2,3) [OF b(1), of t] show ?thesis
        by (auto simp: failure_run_snoc not_le simp del: map_append report.simps)
    qed
  qed
qed

text \<open>
  C18: a closed breaker opens exactly on \<open>failureThreshold\<close> failures in a row.  Whatever outcomes
  are reported to a fresh breaker, it is open at the end if and only if the history contains
  \<open>failureThreshold\<close> consecutive failures, and closed otherwise.
\<close>

theorem breaker_opens_iff:
  assumes "1 \<le> fth"
  shows "State (fold report evs (NewCircuitBreaker plugin fth sth cd)) =
    (if sublist (replicate (nat fth) True) (map isFailed evs) then StateOpen else StateClosed)"
  using breaker_history [of "NewCircuitBreaker plugin fth sth cd" evs] assms
  by (simp add: State_def NewCircuitBreaker_def split: if_split_asm)

theorem breaker_opens_iff_witness:
  "State (fold report [Failed 1, Succeeded, Failed 2, Failed 3]
     (NewCircuitBreaker ''admin'' 2 1 30)) = StateOpen"
proof -
  have "sublist (replicate (nat 2) True) (map isFailed [Failed 1, Succeeded, Failed 2, Failed 3])"
    by (simp add: sublist_Cons_right numeral_2_eq_2)
  then show ?thesis
    using breaker_opens_iff [of 2 "[Failed 1, Succeeded, Failed 2, Failed 3]" "''admin''" 1 30]
    by simp
qed

section \<open>Probing\<close>

text \<open>The answers of a sequence of \<^verbatim>\<open>Allow\<close> calls with the given clock readings.\<close>

fun allowAll :: "gotime list \<Rightarrow> CircuitBreaker \<Rightarrow> bool list" where
  "allowAll [] cb = []"
| "allowAll (now # ts) cb = (let (ok, cb) = Allow now cb in ok # allowAll ts cb)"

lemma allowAll_spent:
  "cb_state cb = StateHalfOpen \<Longrightarrow> \<not> halfOpenAllowed cb \<Longrightarrow> allowAll ts cb = replicate (length ts) False"
  by (induction ts) (simp_all add: Allow_def)

text \<open>
  An open breaker refuses every call until a clock reading is more than the cooldown after
  the last failure; that call is let through as the probe, and every further call is refused as
  long as no outcome is reported.
\<close>

theorem breaker_one_probe:
  assumes "State cb = StateOpen"
  shows "allowAll ts cb =
    (let refused = takeWhile (\<lambda>t. time_Sub t (lastFailure cb) \<le> cooldown cb) ts;
         rest = dropWhile (\<lambda>t. time_Sub t (lastFailure cb) \<le> cooldown cb) ts
     in replicate (length refused) False @
        (case rest of [] \<Rightarrow> [] | _ # later \<Rightarrow> True # replicate (length later) False))"
  using assms
proof (induction ts)
  case (Cons t ts)
  then show ?case
    by (cases "time_Sub t (lastFailure cb) \<le> cooldown cb")
      (simp_all add: Allow_def State_def transition_def allowAll_spent)
qed simp

abbreviation openedAt :: "gotime \<Rightarrow> CircuitBreaker" where
  "openedAt t \<equiv> RecordFailure t (NewCircuitBreaker ''admin'' 1 2 30)"

theorem breaker_one_probe_witness:
  "allowAll [110, 130, 131, 200] (openedAt 100) = [False, False, True, False]"
proof -
  have "State (openedAt 100) = StateOpen"
    by code_simp
  from breaker_one_probe [OF this, of "[110, 130, 131, 200]"]
  show ?thesis
    by (simp add: breaker_simps NewCircuitBreaker_def time_Sub_def minDuration_def maxDuration_def)
qed

text \<open>A probe at \<open>now\<close> that succeeds.\<close>

definition goodProbe :: "gotime \<Rightarrow> CircuitBreaker \<Rightarrow> CircuitBreaker" where
  "goodProbe now cb = RecordSuccess (snd (Allow now cb))"

definition probing :: "CircuitBreaker \<Rightarrow> nat \<Rightarrow> CircuitBreaker \<Rightarrow> bool" where
  "probing cb n b \<longleftrightarrow> cb_state b = StateHalfOpen \<and> halfOpenAllowed b \<and>
     consecutiveSuccesses b = int n \<and> successThreshold b = successThreshold cb"

lemma goodProbe_open:
  assumes "cb_state cb = StateOpen" and "time_Sub now (lastFailure cb) > cooldown cb"
  shows "if successThreshold cb \<le> 1 then cb_state (goodProbe now cb) = StateClosed
         else probing cb 1 (goodProbe now cb)"
  using assms by (simp add: goodProbe_def probing_def breaker_simps)

lemma goodProbe_probing:
  assumes "probing cb n b"
  shows "fst (Allow now b) \<and>
         (if successThreshold cb \<le> int n + 1 then cb_state (goodProbe now b) = StateClosed
          else probing cb (Suc n) (goodProbe now b))"
  using assms by (auto simp: goodProbe_def probing_def breaker_simps)

lemma goodProbes_probing:
  assumes "cb_state cb = StateOpen" and "time_Sub now (lastFailure cb) > cooldown cb"
    and "Suc k < nat (successThreshold cb)"
  shows "probing cb (Suc k) ((goodProbe now ^^ Suc k) cb)"
  using assms(3)
proof (induction k)
  case 0
  then show ?case using goodProbe_open [OF assms(1,2)] by simp
next
  case (Suc k)
  then show ?case using goodProbe_probing [of cb "Suc k" "(goodProbe now ^^ Suc k) cb" now]
    by (auto split: if_split_asm)
qed

lemma goodProbes_close:
  assumes "cb_state cb = StateOpen" and "time_Sub now (lastFailure cb) > cooldown cb"
    and "1 \<le> successThreshold cb"
  shows "cb_state ((goodProbe now ^^ nat (successThreshold cb)) cb) = StateClosed"
proof (cases "successThreshold cb \<le> 1")
  case True
  then have "nat (successThreshold cb) = 1" using assms(3) by simp
  with True show ?thesis using goodProbe_open [OF assms(1,2)] by simp
next
  case False
  then obtain j where j: "nat (successThreshold cb) = Suc (Suc j)"
    by (cases "nat (successThreshold cb)"; cases "nat (successThreshold cb) - 1") auto
  then have "probing cb (Suc j) ((goodProbe now ^^ Suc j) cb)"
    using goodProbes_probing [OF assms(1,2), of j] by simp
  from goodProbe_probing [OF this, of now] j show ?thesis
    by (auto split: if_split_asm)
qed

text \<open>
  C19: an open breaker recovers.  Once the cooldown has passed, \<open>successThreshold\<close> successful
  probes close it; before that it is half-open and grants one probe after each success; and one
  failed probe opens it again with the cooldown starting anew.
\<close>

theorem breaker_recovers:
  assumes "State cb = StateOpen" and "time_Sub now (lastFailure cb) > cooldown cb"
    and "1 \<le> successThreshold cb"
  shows "State ((goodProbe now ^^ nat (successThreshold cb)) cb) = StateClosed \<and>
    (\<forall>k now'. 0 < k \<and> k < nat (successThreshold cb) \<longrightarrow>
       (let b = (goodProbe now ^^ k) cb; b' = snd (Allow now' b)
        in State b = StateHalfOpen \<and> fst (Allow now' b) \<and> \<not> fst (Allow now' b') \<and>
           State (RecordFailure now' b') = StateOpen \<and> lastFailure (RecordFailure now' b') = now'))"
proof (intro conjI allI impI)
  note open_cb = assms(1) [unfolded State_def]
  show "State ((goodProbe now ^^ nat (successThreshold cb)) cb) = StateClosed"
    using goodProbes_close [OF open_cb assms(2,3)] by (simp add: State_def)
  fix k now'
  assume "0 < k \<and> k < nat (successThreshold cb)"
  then have "probing cb k ((goodProbe now ^^ k) cb)"
    using goodProbes_probing [OF open_cb assms(2), of "k - 1"] by simp
  then show "let b = (goodProbe now ^^ k) cb; b' = snd (Allow now' b)
        in State b = StateHalfOpen \<and> fst (Allow now' b) \<and> \<not> fst (Allow now' b') \<and>
           State (RecordFailure now' b') = StateOpen \<and> lastFailure (RecordFailure now' b') = now'"
    by (simp add: probing_def State_def breaker_simps)
qed

theorem breaker_recovers_witness:
  "State ((goodProbe 131 ^^ 2) (openedAt 100)) = StateClosed \<and>
   State (goodProbe 131 (openedAt 100)) = StateHalfOpen"
proof -
  have *: "State (openedAt 100) = StateOpen" "cooldown (openedAt 100) < time_Sub 131 (lastFailure (openedAt 100))"
      "1 \<le> successThreshold (openedAt 100)" "nat (successThreshold (openedAt 100)) = 2"
    by (simp_all add: State_def breaker_simps NewCircuitBreaker_def time_Sub_def minDuration_def maxDuration_def)
  show ?thesis
    using breaker_recovers [OF *(1-3)] *(4)
    by (auto simp: Let_def dest: spec [where x = "Suc 0"])
qed

end
