(* ===== verification/Plugin_Manager.thy ===== *)
theory Plugin_Manager
  imports Sdk Circuit_Breaker Hmac_Sha256
begin

text \<open>
  The plugin manager \<^verbatim>\<open>src/internal/authz/plugin/manager.go\<close>: starting, calling, restarting and
  stopping the plugin processes.

  Instances are shared through pointers (a call in flight keeps using an instance that a restart
  has replaced), so they live in a store \<open>heap\<close> under addresses, and the plugin map, the immutable
  snapshot behind the atomic pointer, goes from names to addresses.  What the outside world does
  is an argument: the content and mode of a binary and how its launch ends
  (\<open>plugin_binary\<close>), and what an RPC returns (\<open>rpc_answer\<close>).
\<close>

unbundle bit_operations_syntax

section \<open>State\<close>

record PluginConfig =
  pc_Path :: string
  pc_SHA256 :: string
  pc_Timeout :: duration
  pc_FailureThreshold :: int
  pc_SuccessThreshold :: int
  pc_Cooldown :: duration

text \<open>\<open>client\<close> is the handle of the plugin process.\<close>

record pluginInstance =
  client :: nat
  breaker :: CircuitBreaker
  timeout :: duration
  cfg :: PluginConfig
  restarting :: bool
  failed :: bool

text \<open>
  \<open>plugins\<close>, \<open>mgr_done\<close> and \<open>closed\<close> are the fields of \<^verbatim>\<open>Manager\<close>; \<open>heap\<close> and \<open>fresh\<close> are the
  memory of the instances, and \<open>killed\<close> lists the processes that were told to stop.
\<close>

record Manager =
  plugins :: "(string \<times> nat) list"
  mgr_done :: bool
  closed :: bool
  heap :: "nat \<Rightarrow> pluginInstance"
  fresh :: nat
  killed :: "nat list"

definition updInst :: "nat \<Rightarrow> (pluginInstance \<Rightarrow> pluginInstance) \<Rightarrow> Manager \<Rightarrow> Manager" where
  "updInst i f m = m\<lparr>heap := (heap m)(i := f (heap m i))\<rparr>"

definition Kill :: "nat \<Rightarrow> Manager \<Rightarrow> Manager" where
  "Kill c m = m\<lparr>killed := killed m @ [c]\<rparr>"


section \<open>Starting a plugin\<close>

datatype launch_result = Launched | ConnectFailed | DispenseFailed | WrongType

text \<open>
  The binary as the operating system presents it: its content (\<^const>\<open>None\<close> if it cannot be opened
  or read), its permission bits (\<^const>\<open>None\<close> if \<^verbatim>\<open>os.Stat\<close> fails), how launching and connecting
  ends, and the handle of the process.
\<close>

record plugin_binary =
  bin_content :: "bytes option"
  bin_perm :: "int option"
  bin_launch :: launch_result
  bin_client :: nat

definition hashFile :: "bytes option \<Rightarrow> string option" where
  "hashFile content = map_option (\<lambda>b. hex_EncodeToString (sha256 b)) content"

text \<open>The result is an error or an instance, with the processes killed on the way.\<close>

definition startPlugin :: "string \<Rightarrow> PluginConfig \<Rightarrow> plugin_binary \<Rightarrow> (string + pluginInstance) \<times> nat list" where
  "startPlugin name pc bin =
     (let binHash = hashFile (bin_content bin)
      in if binHash = None \<and> pc_SHA256 pc \<noteq> '''' then (Inl ''hash plugin binary'', [])
         else if (case binHash of
                    None \<Rightarrow> False
                  | Some h \<Rightarrow> pc_SHA256 pc \<noteq> '''' \<and> \<not> strings_EqualFold h (pc_SHA256 pc))
         then (Inl ''hash mismatch'', [])
         else if (case bin_perm bin of None \<Rightarrow> False | Some perm \<Rightarrow> perm AND 18 \<noteq> 0)
         then (Inl ''group/world-writable'', [])
         else
           (case bin_launch bin of
              ConnectFailed \<Rightarrow> (Inl ''connect to plugin'', [bin_client bin])
            | DispenseFailed \<Rightarrow> (Inl ''dispense authorizer'', [bin_client bin])
            | WrongType \<Rightarrow> (Inl ''unexpected plugin type'', [bin_client bin])
            | Launched \<Rightarrow>
                (Inr \<lparr>client = bin_client bin,
                      breaker = NewCircuitBreaker name (pc_FailureThreshold pc)
                                  (pc_SuccessThreshold pc) (pc_Cooldown pc),
                      timeout = pc_Timeout pc, cfg = pc, restarting = False, failed = False\<rparr>, [])))"

text \<open>Allocation of an instance.\<close>

definition alloc :: "pluginInstance \<Rightarrow> Manager \<Rightarrow> nat \<times> Manager" where
  "alloc inst m = (fresh m, m\<lparr>heap := (heap m)(fresh m := inst), fresh := Suc (fresh m)\<rparr>)"

text \<open>
  The loop of \<^verbatim>\<open>NewManager\<close> over the configured plugins in the order the map yields them;
  \<open>started\<close> is its variable \<^verbatim>\<open>instances\<close>.  On an error the instances already started are killed.
\<close>

fun newManagerLoop ::
  "(string \<Rightarrow> plugin_binary) \<Rightarrow> (string \<times> PluginConfig) list \<Rightarrow> (string \<times> nat) list \<Rightarrow> Manager \<Rightarrow>
   (string + (string \<times> nat) list) \<times> Manager" where
  "newManagerLoop bin [] started m = (Inr started, m)"
| "newManagerLoop bin ((name, pc) # pcs) started m =
     (case startPlugin name pc (bin name) of
        (Inl err, ks) \<Rightarrow>
          (Inl err, m\<lparr>killed := killed m @ ks @ map (\<lambda>(_, i). client (heap m i)) started\<rparr>)
      | (Inr inst, _) \<Rightarrow>
          (let (i, m) = alloc inst m
           in newManagerLoop bin pcs (AList.update name i started) m))"

definition NewManager ::
  "(string \<Rightarrow> plugin_binary) \<Rightarrow> (string \<times> PluginConfig) list \<Rightarrow> (nat \<Rightarrow> pluginInstance) \<Rightarrow>
   (string + unit) \<times> Manager" where
  "NewManager bin pcs mem =
     (let m = \<lparr>plugins = [], mgr_done = False, closed = False, heap = mem, fresh = 0, killed = []\<rparr>
      in case newManagerLoop bin pcs [] m of
           (Inl err, m) \<Rightarrow> (Inl err, m)
         | (Inr instances, m) \<Rightarrow> (Inr (), m\<lparr>plugins := instances\<rparr>))"


section \<open>Calling a plugin\<close>

text \<open>
  What the RPC returns: an error, with whether the parent context is done, whether the call's own
  deadline passed, and whether the plugin process has exited; a nil response; or a response.
\<close>

datatype rpc_answer =
  RpcError (err_text: string) (ctx_done: bool) (deadline_exceeded: bool) (process_exited: bool)
| RpcNil
| RpcResponse AuthorizeResponse

text \<open>
  \<^verbatim>\<open>callPlugin\<close> is split at the RPC, where other goroutines run.  \<open>callBegin\<close> is the part before:
  \<^const>\<open>Some\<close> is an early return of decision and reason.  \<open>callEnd\<close> is the part after; its boolean
  says whether a restart goroutine was started.
\<close>

definition callBegin :: "string \<Rightarrow> nat \<Rightarrow> gotime \<Rightarrow> Manager \<Rightarrow> (string \<times> string) option \<times> Manager" where
  "callBegin name i now m =
     (if failed (heap m i) then (Some (''deny'', ''plugin permanently failed: '' @ name), m)
      else
        (let (ok, cb) = Allow now (breaker (heap m i));
             m = updInst i (\<lambda>inst. inst\<lparr>breaker := cb\<rparr>) m
         in if \<not> ok then (Some (''deny'', ''circuit open: '' @ name), m) else (None, m)))"

definition callEnd :: "string \<Rightarrow> nat \<Rightarrow> gotime \<Rightarrow> rpc_answer \<Rightarrow> Manager \<Rightarrow> (string \<times> string) \<times> bool \<times> Manager" where
  "callEnd name i now answer m =
     (case answer of
        RpcError err ctxDone deadline exited \<Rightarrow>
          (if ctxDone then ((''deny'', ''canceled: '' @ name), False, m)
           else
             (let m = updInst i (\<lambda>inst. inst\<lparr>breaker := RecordFailure now (breaker inst)\<rparr>) m
              in if deadline then ((''deny'', ''timeout: '' @ name), False, m)
                 else
                   (let restart = exited \<and> \<not> failed (heap m i) \<and> \<not> restarting (heap m i);
                        m = (if restart then updInst i (\<lambda>inst. inst\<lparr>restarting := True\<rparr>) m else m)
                    in ((''deny'', ''error: '' @ name @ '': '' @ err), restart, m))))
      | RpcNil \<Rightarrow>
          ((''deny'', ''nil response: '' @ name), False,
           updInst i (\<lambda>inst. inst\<lparr>breaker := RecordFailure now (breaker inst)\<rparr>) m)
      | RpcResponse resp \<Rightarrow>
          (let m = updInst i (\<lambda>inst. inst\<lparr>breaker := RecordSuccess (breaker inst)\<rparr>) m
           in if ResDecision resp = Decision_ALLOW then ((''allow'', ResReason resp), False, m)
              else ((''deny'', ResReason resp), False, m)))"

text \<open>\<^verbatim>\<open>callPlugin\<close> with nothing in between.\<close>

definition callPlugin :: "string \<Rightarrow> nat \<Rightarrow> gotime \<Rightarrow> rpc_answer \<Rightarrow> gotime \<Rightarrow> Manager \<Rightarrow> (string \<times> string) \<times> bool \<times> Manager" where
  "callPlugin name i now answer now' m =
     (case callBegin name i now m of
        (Some res, m) \<Rightarrow> (res, False, m)
      | (None, m) \<Rightarrow> callEnd name i now' answer m)"


section \<open>Restart, shutdown, health\<close>

definition swapPlugin :: "string \<Rightarrow> nat \<Rightarrow> Manager \<Rightarrow> nat option \<times> Manager" where
  "swapPlugin name newInst m =
     (map_of (plugins m) name, m\<lparr>plugins := AList.update name newInst (plugins m)\<rparr>)"

definition backoff :: "duration list" where
  "backoff = [1 * Second, 2 * Second, 5 * Second, 10 * Second, 30 * Second]"

text \<open>
  The loop of \<^verbatim>\<open>restartPlugin\<close> over the delays.  For each attempt, \<open>wait\<close> is what the other
  goroutines do to the manager during the delay and the launch, \<open>stop\<close> whether the select takes
  the \<^verbatim>\<open>done\<close> case, which it can only if the channel is closed, and \<open>bin\<close> the binary found.
\<close>

fun restartLoop ::
  "string \<Rightarrow> PluginConfig \<Rightarrow> ((Manager \<Rightarrow> Manager) \<times> bool \<times> plugin_binary) list \<Rightarrow> Manager \<Rightarrow> Manager" where
  "restartLoop name pc [] m =
     (case map_of (plugins m) name of
        None \<Rightarrow> m
      | Some i \<Rightarrow> updInst i (\<lambda>inst. inst\<lparr>failed := True\<rparr>) m)"
| "restartLoop name pc ((wait, stop, bin) # env) m =
     (let m = wait m
      in if stop \<and> mgr_done m then m
         else
           (case startPlugin name pc bin of
              (Inl _, ks) \<Rightarrow> restartLoop name pc env (m\<lparr>killed := killed m @ ks\<rparr>)
            | (Inr newInst, _) \<Rightarrow>
                (let newInst = newInst\<lparr>breaker := NewCircuitBreaker name (pc_FailureThreshold pc)
                                          (pc_SuccessThreshold pc) (pc_Cooldown pc)\<rparr>;
                     (i, m) = alloc newInst m
                 in if closed m then Kill (client newInst) m
                    else
                      (let (old, m) = swapPlugin name i m
                       in case old of
                            None \<Rightarrow> m
                          | Some j \<Rightarrow> Kill (client (heap m j)) m))))"

text \<open>One environment for each delay of \<^const>\<open>backoff\<close>.\<close>

definition restartPlugin ::
  "string \<Rightarrow> PluginConfig \<Rightarrow> (nat \<Rightarrow> (Manager \<Rightarrow> Manager) \<times> bool \<times> plugin_binary) \<Rightarrow> Manager \<Rightarrow> Manager" where
  "restartPlugin name pc env m = restartLoop name pc (map env [0..<length backoff]) m"

definition Manager_Close :: "Manager \<Rightarrow> Manager" where
  "Manager_Close m =
     (let snap = plugins m
      in m\<lparr>mgr_done := True, closed := True, plugins := [],
           killed := killed m @ map (\<lambda>(_, i). client (heap m i)) snap\<rparr>)"

definition HasPlugins :: "Manager \<Rightarrow> bool" where
  "HasPlugins m \<longleftrightarrow> plugins m \<noteq> []"

text \<open>\<open>exited\<close> tells which processes have exited.\<close>

definition Manager_Healthy :: "(nat \<Rightarrow> bool) \<Rightarrow> Manager \<Rightarrow> bool" where
  "Manager_Healthy exited m =
     list_ex (\<lambda>(_, i). \<not> failed (heap m i) \<and> \<not> exited (client (heap m i)) \<and>
                        State (breaker (heap m i)) \<noteq> StateOpen) (plugins m)"

section \<open>Properties\<close>

text \<open>
  C24: integrity of plugin binaries.  A plugin runs only if its binary is not writable for group
  or others and, when a SHA-256 is pinned, the file could be read and its digest is the pinned
  one up to the case of the hexadecimal digits; the new instance starts with a closed breaker
  configured as in the file.  If launching fails the process is killed.
\<close>

theorem startPlugin_checked:
  "case startPlugin name pc bin of
     (Inr inst, ks) \<Rightarrow>
       (pc_SHA256 pc = [] \<or> (\<exists>content. bin_content bin = Some content \<and>
          strings_EqualFold (hex_EncodeToString (sha256 content)) (pc_SHA256 pc))) \<and>
       (case bin_perm bin of None \<Rightarrow> True | Some perm \<Rightarrow> perm AND 18 = 0) \<and> bin_launch bin = Launched \<and>
       State (breaker inst) = StateClosed \<and> \<not> failed inst \<and> cfg inst = pc \<and> ks = []
   | (Inl err, ks) \<Rightarrow>
       err \<in> {''hash plugin binary'', ''hash mismatch'', ''group/world-writable''} \<and> ks = [] \<or>
       bin_launch bin \<in> {ConnectFailed, DispenseFailed, WrongType} \<and> ks = [bin_client bin]"
  by (auto simp: startPlugin_def hashFile_def NewCircuitBreaker_def State_def Let_def
      split: if_split launch_result.split option.split)

lemma alloc_simps [simp]:
  "plugins (snd (alloc inst m)) = plugins m" "closed (snd (alloc inst m)) = closed m"
  by (simp_all add: alloc_def)

text \<open>A manager that cannot start all of its plugins leaves none of them running.\<close>

lemma newManagerLoop_kills:
  assumes "newManagerLoop bin pcs started m = (Inl err, m')" and "distinct (map fst pcs)"
    and "fst ` set pcs \<inter> fst ` set started = {}" and "snd ` set started = {..<fresh m}"
  shows "\<forall>i < fresh m'. client (heap m' i) \<in> set (killed m')"
  using assms
proof (induction bin pcs started m rule: newManagerLoop.induct)
  case (2 bin name pc pcs started m)
  show ?case
  proof (cases "startPlugin name pc (bin name)")
    case (Pair out ks)
    show ?thesis
    proof (cases out)
      case (Inl e)
      then have m': "m' = m\<lparr>killed := killed m @ ks @ map (\<lambda>(_, i). client (heap m i)) started\<rparr>"
        using "2.prems"(1) Pair by simp
      have "client (heap m i) \<in> set (map (\<lambda>(_, i). client (heap m i)) started)" if "i < fresh m" for i
      proof -
        have "i \<in> snd ` set started" using that "2.prems"(4) by simp
        then show ?thesis by (auto simp: image_iff split_beta)
      qed
      then show ?thesis by (auto simp: m')
    next
      case (Inr inst)
      have "AList.update name (fresh m) started = started @ [(name, fresh m)]"
        using "2.prems"(3) by (intro update_fresh) auto
      moreover from this have "snd ` set (AList.update name (fresh m) started) = {..<Suc (fresh m)}"
        using "2.prems"(4) by (auto simp: lessThan_Suc)
      ultimately show ?thesis
        using "2.IH" [of out ks inst] "2.prems"(1-3) Pair Inr
        by (auto simp: alloc_def Let_def)
    qed
  qed
qed simp

lemma NewManager_kills:
  assumes "NewManager bin pcs mem = (Inl err, m)" and "distinct (map fst pcs)"
  shows "\<forall>i < fresh m. client (heap m i) \<in> set (killed m)"
  using assms newManagerLoop_kills [where started = "[]" and pcs = pcs]
  by (auto simp: NewManager_def Let_def split: prod.splits sum.splits)

text \<open>What the environment does keeps the manager closed and without plugins.\<close>

definition keeps_closed :: "(Manager \<Rightarrow> Manager) \<Rightarrow> bool" where
  "keeps_closed wait \<longleftrightarrow> (\<forall>m. closed m \<and> plugins m = [] \<longrightarrow> closed (wait m) \<and> plugins (wait m) = [])"

lemma restartLoop_closed:
  assumes "closed m" and "plugins m = []" and "list_all (\<lambda>e. keeps_closed (fst e)) env"
  shows "plugins (restartLoop name pc env m) = [] \<and> closed (restartLoop name pc env m)"
  using assms
proof (induction env arbitrary: m)
  case (Cons e env)
  obtain wait stop bin where e: "e = (wait, stop, bin)" by (cases e)
  have w: "closed (wait m)" "plugins (wait m) = []" "list_all (\<lambda>e. keeps_closed (fst e)) env"
    using Cons.prems e by (simp_all add: keeps_closed_def [of wait])
  show ?case
  proof (cases "startPlugin name pc bin")
    case (Pair res ks)
    show ?thesis
    proof (cases res)
      case (Inl err)
      then show ?thesis
        using Cons.IH [of "(wait m)\<lparr>killed := killed (wait m) @ ks\<rparr>"] w Pair e by (simp add: Let_def)
    next
      case (Inr inst)
      then show ?thesis
        using w Pair e by (simp add: Let_def alloc_def Kill_def)
    qed
  qed
qed simp

text \<open>
  C25: shutdown is final.  Once the manager is closed, a restart goroutine that is still running
  adds no plugin, however often it retries and whatever binaries it finds.
\<close>

theorem restart_after_Close:
  assumes "\<And>k. keeps_closed (fst (env k))"
  shows "plugins (restartPlugin name pc env (Manager_Close m)) = [] \<and>
         closed (restartPlugin name pc env (Manager_Close m))"
  using assms unfolding restartPlugin_def
  by (intro restartLoop_closed) (auto simp: Manager_Close_def Let_def list_all_iff)

lemma restartLoop_exhausted:
  assumes "\<forall>(wait, stop, bin) \<in> set env. (\<forall>m. wait m = m) \<and> (\<exists>err. fst (startPlugin name pc bin) = Inl err)"
    and "\<not> mgr_done m" and "map_of (plugins m) name = Some i"
  shows "\<exists>ks. restartLoop name pc env m =
     (updInst i (\<lambda>inst. inst\<lparr>failed := True\<rparr>) m)\<lparr>killed := killed m @ ks\<rparr>"
  using assms
proof (induction env arbitrary: m)
  case Nil
  then show ?case by (auto simp: updInst_def intro: exI [of _ "[]"])
next
  case (Cons e env)
  obtain wait stop bin where e: "e = (wait, stop, bin)" by (cases e)
  obtain err ks where start: "startPlugin name pc bin = (Inl err, ks)"
    using Cons.prems(1) e by (cases "startPlugin name pc bin") auto
  have "wait m = m" using Cons.prems(1) e by simp
  moreover obtain ks' where "restartLoop name pc env (m\<lparr>killed := killed m @ ks\<rparr>) =
      (updInst i (\<lambda>inst. inst\<lparr>failed := True\<rparr>) (m\<lparr>killed := killed m @ ks\<rparr>))\<lparr>killed := (killed m @ ks) @ ks'\<rparr>"
    using Cons.IH [of "m\<lparr>killed := killed m @ ks\<rparr>"] Cons.prems by auto
  ultimately show ?case
    using start e Cons.prems(2) by (auto simp: Let_def updInst_def)
qed

text \<open>
  Five failed attempts disable a plugin for good.  If no attempt can start the binary and
  nobody else touches the manager, every later call on the instance is denied without asking
  its breaker or its process, and the readiness check no longer counts it.
\<close>

theorem restart_exhausted_denies:
  assumes "\<And>k. fst (env k) = (\<lambda>m. m)" and "\<And>k. \<exists>err. fst (startPlugin name pc (snd (snd (env k)))) = Inl err"
    and "\<not> mgr_done m" and "plugins m = [(name, i)]"
  shows "let m' = restartPlugin name pc env m
         in callPlugin name i now answer now' m' =
              ((''deny'', ''plugin permanently failed: '' @ name), False, m') \<and>
            \<not> Manager_Healthy exited m'"
proof -
  have "\<forall>(wait, stop, bin) \<in> set (map env [0..<length backoff]).
      (\<forall>m. wait m = m) \<and> (\<exists>err. fst (startPlugin name pc bin) = Inl err)"
    using assms(1,2) by (auto simp: case_prod_unfold)
  then obtain ks where "restartPlugin name pc env m =
      (updInst i (\<lambda>inst. inst\<lparr>failed := True\<rparr>) m)\<lparr>killed := killed m @ ks\<rparr>"
    unfolding restartPlugin_def using restartLoop_exhausted [of _ name pc m i] assms(3,4) by fastforce
  then show ?thesis
    using assms(4) by (simp add: callPlugin_def callBegin_def updInst_def Manager_Healthy_def Let_def)
qed

section \<open>Witnesses and a defect\<close>

definition demoInst :: "string \<Rightarrow> pluginInstance" where
  "demoInst name =
     \<lparr>client = 7, breaker = NewCircuitBreaker name 5 2 30, timeout = 5,
      cfg = \<lparr>pc_Path = ''/p'', pc_SHA256 = [], pc_Timeout = 5, pc_FailureThreshold = 5,
             pc_SuccessThreshold = 2, pc_Cooldown = 30\<rparr>,
      restarting = False, failed = False\<rparr>"

definition demoManager :: Manager where
  "demoManager =
     \<lparr>plugins = [(''admin'', 0)], mgr_done = False, closed = False,
      heap = (\<lambda>_. demoInst ''admin''), fresh = 1, killed = []\<rparr>"

definition demoBinary :: plugin_binary where
  "demoBinary = \<lparr>bin_content = Some ''elf'', bin_perm = Some 0x1FF, bin_launch = Launched, bin_client = 8\<rparr>"

lemma demoBinary_refused: "fst (startPlugin name (cfg (demoInst n)) demoBinary) = Inl ''group/world-writable''"
  by (simp add: startPlugin_def demoBinary_def demoInst_def hashFile_def)

theorem restart_after_Close_witness:
  "plugins (restartPlugin ''admin'' (cfg (demoInst ''admin'')) (\<lambda>k. (\<lambda>m. m, False, demoBinary\<lparr>bin_perm := None\<rparr>))
     (Manager_Close demoManager)) = []"
  using restart_after_Close [of "\<lambda>k. (\<lambda>m. m, False, demoBinary\<lparr>bin_perm := None\<rparr>)"]
  by (simp add: keeps_closed_def)

theorem restart_exhausted_denies_witness:
  "fst (callPlugin ''admin'' 0 1 RpcNil 2
     (restartPlugin ''admin'' (cfg (demoInst ''admin'')) (\<lambda>k. (\<lambda>m. m, False, demoBinary)) demoManager)) =
   (''deny'', ''plugin permanently failed: admin'')"
  using restart_exhausted_denies [of "\<lambda>k. (\<lambda>m. m, False, demoBinary)" "''admin''" "cfg (demoInst ''admin'')"
      demoManager 0 1 RpcNil 2 "\<lambda>_. False"]
  by (simp add: demoBinary_refused demoManager_def Let_def)

text \<open>
  Finding: a half-open breaker whose probe is cancelled never recovers.  If the RPC of the probe
  fails because the parent context is done (a sibling plugin allowed first, or the client went
  away), \<^verbatim>\<open>callPlugin\<close> reports neither success nor failure.  Every later call on the instance is
  then refused, whatever the time, and the readiness check still counts the plugin as healthy.
\<close>

fun callBegins :: "string \<Rightarrow> nat \<Rightarrow> gotime list \<Rightarrow> Manager \<Rightarrow> (string \<times> string) option list \<times> Manager" where
  "callBegins name i [] m = ([], m)"
| "callBegins name i (now # ts) m =
     (let (r, m) = callBegin name i now m; (rs, m) = callBegins name i ts m in (r # rs, m))"

lemma stuck_half_open:
  assumes "\<not> failed (heap m i)" and "cb_state (breaker (heap m i)) = StateHalfOpen"
    and "\<not> halfOpenAllowed (breaker (heap m i))"
  shows "callBegins name i ts m = (replicate (length ts) (Some (''deny'', ''circuit open: '' @ name)), m)"
proof (induction ts)
  case (Cons t ts)
  have "callBegin name i t m = (Some (''deny'', ''circuit open: '' @ name), m)"
    using assms by (simp add: callBegin_def Allow_def updInst_def Let_def)
  with Cons show ?case by simp
qed simp

theorem cancelled_probe_sticks:
  assumes "plugins m = [(name, i)]" and "\<not> failed (heap m i)" and "\<not> exited (client (heap m i))"
    and "State (breaker (heap m i)) = StateOpen"
    and "time_Sub now (lastFailure (breaker (heap m i))) > cooldown (breaker (heap m i))"
  shows "let m' = snd (snd (callPlugin name i now (RpcError err True deadline gone) now' m))
         in callBegins name i ts m' = (replicate (length ts) (Some (''deny'', ''circuit open: '' @ name)), m') \<and>
            Manager_Healthy exited m'"
proof -
  define m' where "m' = updInst i (\<lambda>inst. inst\<lparr>breaker := (transition StateHalfOpen (breaker (heap m i)))
      \<lparr>halfOpenAllowed := False\<rparr>\<rparr>) m"
  have "snd (snd (callPlugin name i now (RpcError err True deadline gone) now' m)) = m'"
    using assms by (simp add: callPlugin_def callBegin_def callEnd_def Allow_def State_def m'_def Let_def)
  moreover have "callBegins name i ts m' = (replicate (length ts) (Some (''deny'', ''circuit open: '' @ name)), m')"
    by (rule stuck_half_open) (use assms in \<open>simp_all add: m'_def updInst_def transition_def\<close>)
  moreover have "Manager_Healthy exited m'"
    using assms by (simp add: Manager_Healthy_def m'_def updInst_def transition_def State_def)
  ultimately show ?thesis by simp
qed

end
