(* ===== verification/Fan_Out.thy ===== *)
theory Fan_Out
  imports Plugin_Manager
begin

text \<open>
  \<^verbatim>\<open>Manager.Authorize\<close>: the fan-out over the roles of a key (\<^verbatim>\<open>src/internal/authz/plugin/manager.go\<close>,
  lines 167--245) as a step relation.  The main goroutine first walks over the roles, sending a
  deny for a role without plugin and starting one goroutine per configured role, and then
  receives from the buffered channel until the first allow or until every role has answered.
  The goroutines interleave with it, with each other and with whatever else uses the manager
  (\<open>interfere\<close>: other requests, restarts, shutdown).
\<close>

section \<open>State and steps\<close>

record result =
  res_decision :: string
  res_plugin :: string
  res_reason :: string

text \<open>A goroutine: before its first action, waiting for the RPC, or finished.\<close>

datatype task = TStart string nat | TCall string nat | TDone

text \<open>
  \<open>answers\<close> is a history variable: the responses that arrived, with the role they belong to.
\<close>

record authz_run =
  mgr :: Manager
  snap :: "(string \<times> nat) list"
  todo :: "string list"
  tasks :: "task list"
  resultCh :: "result list"
  received :: nat
  lastDeny :: result
  returned :: "result option"
  answers :: "(string \<times> rpc_answer) list"

definition mkResult :: "string \<Rightarrow> string \<Rightarrow> string \<Rightarrow> result" where
  "mkResult d p r = \<lparr>res_decision = d, res_plugin = p, res_reason = r\<rparr>"

definition authorizeStart :: "string list \<Rightarrow> Manager \<Rightarrow> authz_run" where
  "authorizeStart roles m =
     \<lparr>mgr = m, snap = plugins m, todo = roles, tasks = [], resultCh = [], received = 0,
      lastDeny = mkResult '''' '''' '''',
      returned = (if roles = [] then Some (mkResult ''deny'' '''' ''no roles assigned'') else None),
      answers = []\<rparr>"

text \<open>Goroutine \<open>k\<close> sends its result and ends.\<close>

definition finish :: "nat \<Rightarrow> result \<Rightarrow> authz_run \<Rightarrow> authz_run" where
  "finish k res s = s\<lparr>tasks := (tasks s)[k := TDone], resultCh := resultCh s @ [res]\<rparr>"

text \<open>The receive loop takes \<open>res\<close> from the channel; \<open>n\<close> is the number of roles.\<close>

definition receive :: "nat \<Rightarrow> result \<Rightarrow> result list \<Rightarrow> authz_run \<Rightarrow> authz_run" where
  "receive n res rest s =
     (let s = s\<lparr>resultCh := rest, received := Suc (received s)\<rparr>
      in if res_decision res = ''allow'' then s\<lparr>returned := Some res\<rparr>
         else if received s = n then s\<lparr>lastDeny := res, returned := Some res\<rparr>
         else s\<lparr>lastDeny := res\<rparr>)"

inductive authz_step :: "string list \<Rightarrow> authz_run \<Rightarrow> authz_run \<Rightarrow> bool" for roles where
  spawn_missing:
    "\<lbrakk>returned s = None; todo s = role # rest; map_of (snap s) role = None\<rbrakk> \<Longrightarrow>
     authz_step roles s
       (s\<lparr>todo := rest, resultCh := resultCh s @ [mkResult ''deny'' role ''plugin not configured'']\<rparr>)"
| spawn:
    "\<lbrakk>returned s = None; todo s = role # rest; map_of (snap s) role = Some i\<rbrakk> \<Longrightarrow>
     authz_step roles s (s\<lparr>todo := rest, tasks := tasks s @ [TStart role i]\<rparr>)"
| begin_call:
    "\<lbrakk>k < length (tasks s); tasks s ! k = TStart role i; callBegin role i now (mgr s) = (None, m)\<rbrakk> \<Longrightarrow>
     authz_step roles s (s\<lparr>mgr := m, tasks := (tasks s)[k := TCall role i]\<rparr>)"
| begin_deny:
    "\<lbrakk>k < length (tasks s); tasks s ! k = TStart role i;
      callBegin role i now (mgr s) = (Some (d, r), m)\<rbrakk> \<Longrightarrow>
     authz_step roles s (finish k (mkResult d role r) (s\<lparr>mgr := m\<rparr>))"
| end_call:
    "\<lbrakk>k < length (tasks s); tasks s ! k = TCall role i;
      callEnd role i now answer (mgr s) = ((d, r), restart, m)\<rbrakk> \<Longrightarrow>
     authz_step roles s
       (finish k (mkResult d role r) (s\<lparr>mgr := m, answers := (role, answer) # answers s\<rparr>))"
| panic:
    "\<lbrakk>k < length (tasks s); tasks s ! k = TCall role i\<rbrakk> \<Longrightarrow>
     authz_step roles s (finish k (mkResult ''deny'' role (''panic: '' @ role)) s)"
| receive:
    "\<lbrakk>returned s = None; todo s = []; resultCh s = res # rest\<rbrakk> \<Longrightarrow>
     authz_step roles s (receive (length roles) res rest s)"
| interfere:
    "authz_step roles s (s\<lparr>mgr := m\<rparr>)"

inductive_cases authz_stepE: "authz_step roles s s'"

abbreviation authz_steps :: "string list \<Rightarrow> authz_run \<Rightarrow> authz_run \<Rightarrow> bool" where
  "authz_steps roles \<equiv> (authz_step roles)\<^sup>*\<^sup>*"


section \<open>Invariant\<close>

text \<open>An answer is an allow.\<close>

fun is_allow :: "rpc_answer \<Rightarrow> bool" where
  "is_allow (RpcResponse resp) = (ResDecision resp = Decision_ALLOW)"
| "is_allow _ = False"

definition active :: "task list \<Rightarrow> nat" where
  "active ts = length (filter (\<lambda>t. t \<noteq> TDone) ts)"

text \<open>A result that says allow is backed by a plugin of the snapshot that said so.\<close>

definition backed :: "string list \<Rightarrow> authz_run \<Rightarrow> result \<Rightarrow> bool" where
  "backed roles s res \<longleftrightarrow>
     res_decision res = ''deny'' \<or>
     res_decision res = ''allow'' \<and> res_plugin res \<in> set roles \<and>
     map_of (snap s) (res_plugin res) \<noteq> None \<and>
     (\<exists>resp. (res_plugin res, RpcResponse resp) \<in> set (answers s) \<and>
             ResDecision resp = Decision_ALLOW \<and> ResReason resp = res_reason res)"

text \<open>The role of a goroutine is a configured one.\<close>

fun task_ok :: "string list \<Rightarrow> (string \<times> nat) list \<Rightarrow> task \<Rightarrow> bool" where
  "task_ok roles sn (TStart role i) = (role \<in> set roles \<and> map_of sn role = Some i)"
| "task_ok roles sn (TCall role i) = (role \<in> set roles \<and> map_of sn role = Some i)"
| "task_ok roles sn TDone = True"

definition counts_ok :: "string list \<Rightarrow> authz_run \<Rightarrow> bool" where
  "counts_ok roles s \<longleftrightarrow>
     received s + length (resultCh s) + active (tasks s) + length (todo s) = length roles \<and>
     (returned s = None \<longrightarrow> received s < length roles)"

definition results_ok :: "string list \<Rightarrow> authz_run \<Rightarrow> bool" where
  "results_ok roles s \<longleftrightarrow>
     (\<forall>res \<in> set (resultCh s). backed roles s res) \<and>
     (\<forall>res. returned s = Some res \<longrightarrow> backed roles s res \<and>
        (res_decision res = ''deny'' \<longrightarrow> received s = length roles \<or> roles = []))"

definition tasks_ok :: "string list \<Rightarrow> authz_run \<Rightarrow> bool" where
  "tasks_ok roles s \<longleftrightarrow> set (todo s) \<subseteq> set roles \<and> (\<forall>t \<in> set (tasks s). task_ok roles (snap s) t)"

text \<open>No allow is lost: it is in the channel, or the call has returned an allow.\<close>

definition answers_ok :: "authz_run \<Rightarrow> bool" where
  "answers_ok s \<longleftrightarrow>
     (\<forall>(role, answer) \<in> set (answers s). is_allow answer \<longrightarrow>
        (\<exists>res \<in> set (resultCh s). res_decision res = ''allow'') \<or>
        (\<exists>res. returned s = Some res \<and> res_decision res = ''allow''))"

definition run_ok :: "string list \<Rightarrow> authz_run \<Rightarrow> bool" where
  "run_ok roles s \<longleftrightarrow> counts_ok roles s \<and> results_ok roles s \<and> tasks_ok roles s \<and> answers_ok s"

lemma active_simps [simp]:
  "active [] = 0" "active (ts @ [TStart role i]) = Suc (active ts)"
  by (simp_all add: active_def)

lemma active_append: "active (ts @ us) = active ts + active us"
  by (simp add: active_def)

lemma active_update:
  assumes "k < length ts" and "ts ! k \<noteq> TDone"
  shows "Suc (active (ts[k := TDone])) = active ts"
    and "t \<noteq> TDone \<Longrightarrow> active (ts[k := t]) = active ts"
proof -
  have ts: "active ts = Suc (active (take k ts) + active (drop (Suc k) ts))"
    by (subst id_take_nth_drop [OF assms(1)], subst active_append) (simp add: active_def assms(2))
  show "Suc (active (ts[k := TDone])) = active ts"
    by (simp add: upd_conv_take_nth_drop [OF assms(1)] active_append ts) (simp add: active_def)
  show "active (ts[k := t]) = active ts" if "t \<noteq> TDone"
    using that
    by (simp add: upd_conv_take_nth_drop [OF assms(1)] active_append ts) (simp add: active_def)
qed

lemma callBegin_deny: "callBegin role i now m = (Some (d, r), m') \<Longrightarrow> d = ''deny''"
  by (auto simp: callBegin_def Let_def split: if_split_asm prod.splits)

lemma callEnd_decision:
  assumes "callEnd role i now answer m = ((d, r), restart, m')"
  shows "d = ''allow'' \<and> (\<exists>resp. answer = RpcResponse resp \<and> ResDecision resp = Decision_ALLOW \<and>
           ResReason resp = r) \<or> d = ''deny'' \<and> \<not> is_allow answer"
  using assms
  by (cases answer) (auto simp: callEnd_def Let_def split: if_split_asm)

lemma task_of_nth:
  assumes "tasks_ok roles s" and "k < length (tasks s)"
  shows "task_ok roles (snap s) (tasks s ! k)"
  using assms by (auto simp: tasks_ok_def)

lemma counts_ok_step:
  assumes "authz_step roles s s'" and "counts_ok roles s"
  shows "counts_ok roles s'"
  using assms(1)
proof cases
  case (begin_deny k role i now d r m)
  then show ?thesis
    using assms(2) active_update(1) [of k "tasks s"] by (simp add: counts_ok_def finish_def)
next
  case (begin_call k role i now m)
  then show ?thesis
    using assms(2) active_update(2) [of k "tasks s"] by (simp add: counts_ok_def)
next
  case (end_call k role i now answer d r restart m)
  then show ?thesis
    using assms(2) active_update(1) [of k "tasks s"] by (simp add: counts_ok_def finish_def)
next
  case (panic k role i)
  then show ?thesis
    using assms(2) active_update(1) [of k "tasks s"] by (simp add: counts_ok_def finish_def)
next
  case (receive res rest)
  then show ?thesis
    using assms(2) by (auto simp: counts_ok_def receive_def Let_def simp del: length_0_conv)
qed (use assms(2) in \<open>simp_all add: counts_ok_def\<close>)

lemma tasks_ok_update:
  assumes "tasks_ok roles s" and "task_ok roles (snap s) t"
  shows "\<forall>t \<in> set ((tasks s)[k := t]). task_ok roles (snap s) t"
  using assms set_update_subset_insert [of "tasks s" k t] by (auto simp: tasks_ok_def)

lemma tasks_ok_step:
  assumes "authz_step roles s s'" and "tasks_ok roles s"
  shows "tasks_ok roles s'"
proof -
  have fin: "\<forall>t \<in> set ((tasks s)[k := TDone]). task_ok roles (snap s) t" for k
    by (rule tasks_ok_update [OF assms(2)]) simp
  show ?thesis using assms(1)
  proof cases
    case (begin_call k role i now m)
    then have "task_ok roles (snap s) (TCall role i)"
      using task_of_nth [OF assms(2), of k] by simp
    from tasks_ok_update [OF assms(2) this] show ?thesis
      using begin_call assms(2) by (simp add: tasks_ok_def)
  next
    case (spawn role rest i)
    then show ?thesis using assms(2) by (auto simp: tasks_ok_def)
  next
    case (receive res rest)
    then show ?thesis using assms(2) by (simp add: tasks_ok_def receive_def Let_def)
  qed (use assms(2) fin in \<open>simp_all add: tasks_ok_def finish_def\<close>)
qed

lemma backed_simps [simp]:
  "backed roles (s\<lparr>mgr := m\<rparr>) res = backed roles s res"
  "backed roles (s\<lparr>todo := td\<rparr>) res = backed roles s res"
  "backed roles (s\<lparr>tasks := ts\<rparr>) res = backed roles s res"
  "backed roles (s\<lparr>resultCh := ch\<rparr>) res = backed roles s res"
  "backed roles (s\<lparr>received := n\<rparr>) res = backed roles s res"
  "backed roles (s\<lparr>lastDeny := l\<rparr>) res = backed roles s res"
  "backed roles (s\<lparr>returned := rt\<rparr>) res = backed roles s res"
  by (simp_all add: backed_def)

lemma backed_mono:
  "backed roles s res \<Longrightarrow> snap s' = snap s \<Longrightarrow> set (answers s) \<subseteq> set (answers s') \<Longrightarrow> backed roles s' res"
  by (auto simp: backed_def)

lemma backed_deny [simp]: "backed roles s (mkResult ''deny'' role r)"
  by (simp add: backed_def mkResult_def)

lemma results_ok_step:
  assumes "authz_step roles s s'" and "results_ok roles s" and "tasks_ok roles s"
  shows "results_ok roles s'"
  using assms(1)
proof cases
  case (begin_deny k role i now d r m)
  then show ?thesis
    using assms(2) callBegin_deny [of role i now "mgr s" d r m]
    by (auto simp: results_ok_def finish_def)
next
  case (end_call k role i now answer d r restart m)
  have "role \<in> set roles \<and> map_of (snap s) role = Some i"
    using task_of_nth [OF assms(3), of k] end_call by simp
  then have new: "backed roles s' (mkResult d role r)"
    using callEnd_decision [OF end_call(4)] end_call(1)
    by (auto simp: backed_def mkResult_def finish_def)
  have "backed roles s res \<Longrightarrow> backed roles s' res" for res
    by (erule backed_mono) (auto simp: end_call(1) finish_def)
  with new show ?thesis
    using assms(2) end_call(1) by (simp add: results_ok_def finish_def)
next
  case (receive res rest)
  then have "backed roles s res"
    using assms(2) by (simp add: results_ok_def)
  then show ?thesis
    using assms(2) receive by (auto simp: results_ok_def receive_def Let_def)
qed (use assms(2) in \<open>auto simp: results_ok_def finish_def\<close>)

lemma answers_ok_step:
  assumes "authz_step roles s s'" and "answers_ok s"
  shows "answers_ok s'"
  using assms(1)
proof cases
  case (end_call k role i now answer d r restart m)
  then have "is_allow answer \<Longrightarrow> d = ''allow''"
    using callEnd_decision [OF end_call(4)] by auto
  then show ?thesis
    using assms(2) end_call(1) by (fastforce simp: answers_ok_def finish_def mkResult_def)
next
  case (receive res rest)
  show ?thesis
  proof (cases "res_decision res = ''allow''")
    case True
    then show ?thesis using receive by (simp add: answers_ok_def receive_def Let_def)
  next
    case False
    then show ?thesis
      using receive assms(2) by (fastforce simp: answers_ok_def receive_def Let_def)
  qed
qed (use assms(2) in \<open>fastforce simp: answers_ok_def finish_def\<close>)+

lemma run_ok_step: "authz_step roles s s' \<Longrightarrow> run_ok roles s \<Longrightarrow> run_ok roles s'"
  using counts_ok_step results_ok_step tasks_ok_step answers_ok_step by (simp add: run_ok_def)

lemma run_ok_start: "run_ok roles (authorizeStart roles m)"
  by (simp add: run_ok_def counts_ok_def results_ok_def tasks_ok_def answers_ok_def authorizeStart_def)

lemma run_ok_reachable: "authz_steps roles (authorizeStart roles m) s \<Longrightarrow> run_ok roles s"
  by (induction rule: rtranclp_induct) (auto intro: run_ok_start run_ok_step)

lemma snap_reachable: "authz_steps roles (authorizeStart roles m) s \<Longrightarrow> snap s = plugins m"
proof (induction rule: rtranclp_induct)
  case (step s s')
  from step.hyps(2) have "snap s' = snap s"
    by cases (simp_all add: finish_def receive_def Let_def)
  with step.IH show ?case by simp
qed (simp add: authorizeStart_def)


section \<open>Properties\<close>

text \<open>
  C20: the decision of \<^verbatim>\<open>Authorize\<close> is exactly what the plugins said, under every interleaving.
  An allow comes with the name of a role of the key that had a configured plugin, and that
  plugin answered ALLOW with the returned reason.  A deny is returned only when every role has
  answered and no plugin answered ALLOW; errors, timeouts, cancellations, panics, open breakers
  and missing plugins all count as deny.
\<close>

theorem authorize_sound:
  assumes "authz_steps roles (authorizeStart roles m) s" and "returned s = Some res"
  shows "res_decision res = ''allow'' \<and> res_plugin res \<in> set roles \<and>
           map_of (plugins m) (res_plugin res) \<noteq> None \<and>
           (\<exists>resp. (res_plugin res, RpcResponse resp) \<in> set (answers s) \<and>
                   ResDecision resp = Decision_ALLOW \<and> ResReason resp = res_reason res) \<or>
         res_decision res = ''deny'' \<and> (roles = [] \<or> active (tasks s) = 0 \<and> todo s = []) \<and>
           (\<forall>(role, answer) \<in> set (answers s). \<not> is_allow answer)"
proof -
  have ok: "counts_ok roles s" "results_ok roles s" "answers_ok s" and "snap s = plugins m"
    using run_ok_reachable [OF assms(1)] snap_reachable [OF assms(1)] by (simp_all add: run_ok_def)
  then have "backed roles s res" and all: "res_decision res = ''deny'' \<Longrightarrow> received s = length roles \<or> roles = []"
    using assms(2) by (auto simp: results_ok_def)
  then consider "res_decision res = ''allow''" | (d) "res_decision res = ''deny''"
    by (auto simp: backed_def)
  then show ?thesis
  proof cases
    case 1
    then show ?thesis
      using \<open>backed roles s res\<close> \<open>snap s = plugins m\<close> by (simp add: backed_def)
  next
    case d
    then have "resultCh s = []" and "roles = [] \<or> active (tasks s) = 0 \<and> todo s = []"
      using all ok(1) by (auto simp: counts_ok_def)
    then show ?thesis
      using d ok(3) assms(2) by (auto simp: answers_ok_def)
  qed
qed

text \<open>An upper bound on the steps that a run of \<^verbatim>\<open>Authorize\<close> and its goroutines still has.\<close>

fun task_size :: "task \<Rightarrow> nat" where
  "task_size (TStart _ _) = 3"
| "task_size (TCall _ _) = 2"
| "task_size TDone = 0"

definition run_measure :: "authz_run \<Rightarrow> nat" where
  "run_measure s = 4 * length (todo s) + sum_list (map task_size (tasks s)) + length (resultCh s)"

lemma sum_task_update:
  assumes "k < length ts"
  shows "sum_list (map task_size (ts[k := t])) + task_size (ts ! k) =
         sum_list (map task_size ts) + task_size t"
proof -
  have "sum_list (map task_size ts) =
      sum_list (map task_size (take k ts)) + (task_size (ts ! k) + sum_list (map task_size (drop (Suc k) ts)))"
    by (subst id_take_nth_drop [OF assms]) simp
  then show ?thesis
    by (simp add: upd_conv_take_nth_drop [OF assms])
qed

lemma run_measure_step:
  assumes "authz_step roles s s'"
  shows "run_measure s' < run_measure s \<or> (\<exists>m. s' = s\<lparr>mgr := m\<rparr>)"
  using assms
proof cases
  case (begin_call k role i now m)
  then show ?thesis
    using sum_task_update [of k "tasks s" "TCall role i"] by (simp add: run_measure_def)
next
  case (begin_deny k role i now d r m)
  then show ?thesis
    using sum_task_update [of k "tasks s" TDone] by (simp add: run_measure_def finish_def)
next
  case (end_call k role i now answer d r restart m)
  then show ?thesis
    using sum_task_update [of k "tasks s" TDone] by (simp add: run_measure_def finish_def)
next
  case (panic k role i)
  then show ?thesis
    using sum_task_update [of k "tasks s" TDone] by (simp add: run_measure_def finish_def)
qed (auto simp: run_measure_def receive_def Let_def)

lemma run_measure_decreases:
  assumes "authz_step roles s s'"
    and "todo s' \<noteq> todo s \<or> tasks s' \<noteq> tasks s \<or> resultCh s' \<noteq> resultCh s"
  shows "\<exists>s'. authz_step roles s s' \<and> run_measure s' < run_measure s"
  using run_measure_step [OF assms(1)] assms by auto

lemma list_update_neq: "k < length xs \<Longrightarrow> xs ! k \<noteq> x \<Longrightarrow> xs[k := x] \<noteq> xs"
  by (metis nth_list_update_eq)

lemma task_progress:
  assumes "k < length (tasks s)" and "tasks s ! k \<noteq> TDone"
  shows "\<exists>s'. authz_step roles s s' \<and> run_measure s' < run_measure s"
proof (cases "tasks s ! k")
  case (TStart role i)
  obtain early m where b: "callBegin role i 0 (mgr s) = (early, m)"
    by (cases "callBegin role i 0 (mgr s)")
  show ?thesis
  proof (cases early)
    case None
    then show ?thesis
      using run_measure_decreases [OF authz_step.begin_call [OF assms(1) TStart, of 0 m]] b
        list_update_neq [OF assms(1), of "TCall role i"] TStart by simp
  next
    case (Some res)
    then show ?thesis
      using run_measure_decreases [OF authz_step.begin_deny [OF assms(1) TStart, of 0 "fst res" "snd res" m]]
        b by (simp add: finish_def)
  qed
next
  case (TCall role i)
  obtain d r restart m where "callEnd role i 0 RpcNil (mgr s) = ((d, r), restart, m)"
    by (metis prod.exhaust)
  from run_measure_decreases [OF authz_step.end_call [OF assms(1) TCall this]]
  show ?thesis by (simp add: finish_def)
qed (use assms in simp)

lemma run_progress:
  assumes "run_ok roles s" and "returned s = None"
  shows "\<exists>s'. authz_step roles s s' \<and> run_measure s' < run_measure s"
proof (cases "todo s")
  case (Cons role rest)
  show ?thesis
  proof (cases "map_of (snap s) role")
    case None
    from run_measure_decreases [OF authz_step.spawn_missing [OF assms(2) Cons this]] Cons
    show ?thesis by simp
  next
    case (Some i)
    from run_measure_decreases [OF authz_step.spawn [OF assms(2) Cons this]] Cons
    show ?thesis by simp
  qed
next
  case Nil
  show ?thesis
  proof (cases "resultCh s")
    case (Cons res rest)
    from run_measure_decreases [OF authz_step.receive [OF assms(2) Nil this]] Cons
    show ?thesis by (auto simp: receive_def Let_def)
  next
    case empty: Nil
    have "active (tasks s) > 0"
      using assms Nil empty by (simp add: run_ok_def counts_ok_def)
    then obtain k where "k < length (tasks s)" "tasks s ! k \<noteq> TDone"
      by (auto simp: active_def filter_empty_conv in_set_conv_nth)
    then show ?thesis by (rule task_progress)
  qed
qed

lemma task_sizes_le: "sum_list (map task_size ts) \<le> 3 * active ts"
proof (induction ts)
  case (Cons t ts)
  then show ?case by (cases t) (simp_all add: active_def)
qed simp

text \<open>
  C21: \<^verbatim>\<open>Authorize\<close> returns and leaks no goroutine.  Every step of the call or its goroutines
  decreases a measure that is at most four times the number of roles, whatever the rest of the
  program does to the manager in between; as long as the call has not returned, such a step is
  possible; and the buffered channel has room for every result still to come, so no goroutine
  blocks in its send even after the call has returned.
\<close>

theorem authorize_returns:
  assumes "authz_steps roles (authorizeStart roles m) s"
  shows "run_measure s \<le> 4 * length roles \<and>
    (\<forall>s'. authz_step roles s s' \<longrightarrow> run_measure s' < run_measure s \<or> (\<exists>m. s' = s\<lparr>mgr := m\<rparr>)) \<and>
    (returned s = None \<longrightarrow> (\<exists>s'. authz_step roles s s' \<and> run_measure s' < run_measure s)) \<and>
    length (resultCh s) + active (tasks s) + length (todo s) \<le> length roles"
proof -
  have ok: "run_ok roles s"
    by (rule run_ok_reachable [OF assms])
  then have count: "received s + length (resultCh s) + active (tasks s) + length (todo s) = length roles"
    by (simp add: run_ok_def counts_ok_def)
  then have "run_measure s \<le> 4 * length roles"
    using task_sizes_le [of "tasks s"] by (simp add: run_measure_def)
  then show ?thesis
    using count run_progress [OF ok] run_measure_step by auto
qed


section \<open>Witnesses\<close>

definition demoAllow :: AuthorizeResponse where
  "demoAllow = \<lparr>ResDecision = Decision_ALLOW, ResReason = ''admin access''\<rparr>"

lemmas demo_run_defs = authorizeStart_def demoManager_def demoInst_def demoAllow_def mkResult_def
  finish_def receive_def callBegin_def callEnd_def updInst_def NewCircuitBreaker_def breaker_simps

lemma demo_run:
  "\<exists>s res. authz_steps [''nobody'', ''admin''] (authorizeStart [''nobody'', ''admin''] demoManager) s \<and>
     returned s = Some res \<and> res_decision res = ''allow''"
proof -
  let ?st = "authz_step [''nobody'', ''admin'']"
  define s0 where "s0 = authorizeStart [''nobody'', ''admin''] demoManager"
  define s1 where "s1 = s0\<lparr>todo := [''admin''],
    resultCh := resultCh s0 @ [mkResult ''deny'' ''nobody'' ''plugin not configured'']\<rparr>"
  define s2 where "s2 = s1\<lparr>todo := [], tasks := tasks s1 @ [TStart ''admin'' 0]\<rparr>"
  define s3 where "s3 = s2\<lparr>mgr := snd (callBegin ''admin'' 0 0 (mgr s2)),
    tasks := (tasks s2)[0 := TCall ''admin'' 0]\<rparr>"
  define m4 where "m4 = snd (snd (callEnd ''admin'' 0 0 (RpcResponse demoAllow) (mgr s3)))"
  define s4 where "s4 = finish 0 (mkResult ''allow'' ''admin'' ''admin access'')
    (s3\<lparr>mgr := m4, answers := (''admin'', RpcResponse demoAllow) # answers s3\<rparr>)"
  define s5 where "s5 = receive (length [''nobody'', ''admin'']) (mkResult ''deny'' ''nobody'' ''plugin not configured'')
    [mkResult ''allow'' ''admin'' ''admin access''] s4"
  define s6 where "s6 = receive (length [''nobody'', ''admin'']) (mkResult ''allow'' ''admin'' ''admin access'') [] s5"
  note defs = s0_def s1_def s2_def s3_def s4_def s5_def s6_def demo_run_defs
  have "?st s0 s1"
    unfolding s1_def by (rule authz_step.spawn_missing) (simp_all add: defs)
  moreover have "?st s1 s2"
    unfolding s2_def by (rule authz_step.spawn) (simp_all add: defs)
  moreover have "?st s2 s3"
    unfolding s3_def by (rule authz_step.begin_call [where now = 0]) (simp_all add: defs)
  moreover have "?st s3 s4"
    unfolding s4_def m4_def
    by (rule authz_step.end_call [where now = 0 and i = 0 and restart = False]) (simp_all add: defs)
  moreover have "?st s4 s5"
    unfolding s5_def by (rule authz_step.receive) (simp_all add: defs)
  moreover have "?st s5 s6"
    unfolding s6_def by (rule authz_step.receive) (simp_all add: defs)
  ultimately have "?st\<^sup>*\<^sup>* s0 s6"
    by (meson converse_rtranclp_into_rtranclp rtranclp.rtrancl_refl)
  moreover have "returned s6 = Some (mkResult ''allow'' ''admin'' ''admin access'')"
    by (simp add: s6_def receive_def mkResult_def)
  ultimately show ?thesis
    unfolding s0_def by (intro exI [of _ s6] exI) (auto simp: mkResult_def)
qed

theorem authorize_sound_witness:
  "\<exists>s resp. authz_steps [''nobody'', ''admin''] (authorizeStart [''nobody'', ''admin''] demoManager) s \<and>
     returned s \<noteq> None \<and> (''admin'', RpcResponse resp) \<in> set (answers s) \<and> ResDecision resp = Decision_ALLOW"
proof -
  obtain s res where s: "authz_steps [''nobody'', ''admin''] (authorizeStart [''nobody'', ''admin''] demoManager) s"
      "returned s = Some res" "res_decision res = ''allow''"
    using demo_run by blast
  then have "res_plugin res = ''admin''"
    using authorize_sound [OF s(1,2)] by (auto simp: demoManager_def split: if_split_asm)
  then show ?thesis
    using authorize_sound [OF s(1,2)] s by auto
qed

theorem authorize_returns_witness:
  "run_measure (authorizeStart [''nobody'', ''admin''] demoManager) \<le> 8 \<and>
   (\<exists>s'. authz_step [''nobody'', ''admin''] (authorizeStart [''nobody'', ''admin''] demoManager) s')"
  using authorize_returns [of "[''nobody'', ''admin'']" demoManager
      "authorizeStart [''nobody'', ''admin''] demoManager"]
  by (auto simp: authorizeStart_def)


section \<open>Outcomes\<close>

text \<open>
  The results that \<^verbatim>\<open>Authorize\<close> can return, when the responses that arrive are among those that the
  plugin of the role gives to the request (\<open>says\<close>).
\<close>

definition authorize_outcome ::
  "(string \<Rightarrow> AuthorizeResponse \<Rightarrow> bool) \<Rightarrow> Manager \<Rightarrow> string list \<Rightarrow> result \<Rightarrow> bool" where
  "authorize_outcome says m roles res \<longleftrightarrow>
     (\<exists>s. authz_steps roles (authorizeStart roles m) s \<and> returned s = Some res \<and>
          (\<forall>role resp. (role, RpcResponse resp) \<in> set (answers s) \<longrightarrow> says role resp))"

lemma authorize_outcome_allow:
  assumes "authorize_outcome says m roles res" and "res_decision res = ''allow''"
  obtains resp where "res_plugin res \<in> set roles" "map_of (plugins m) (res_plugin res) \<noteq> None"
    "says (res_plugin res) resp" "ResDecision resp = Decision_ALLOW" "ResReason resp = res_reason res"
proof -
  obtain s where s: "authz_steps roles (authorizeStart roles m) s" "returned s = Some res"
      "\<And>role resp. (role, RpcResponse resp) \<in> set (answers s) \<Longrightarrow> says role resp"
    using assms(1) by (auto simp: authorize_outcome_def)
  have "backed roles s res"
    using run_ok_reachable [OF s(1)] s(2) by (simp add: run_ok_def results_ok_def)
  then show thesis
    using that s(3) snap_reachable [OF s(1)] assms(2) by (auto simp: backed_def)
qed

text \<open>
  The schedule that starts every goroutine, lets one after the other run to its end and then
  receives, as a function.  It is one of the runs.
\<close>

definition missing :: "(string \<times> nat) list \<Rightarrow> string list \<Rightarrow> result list" where
  "missing sn roles = map (\<lambda>role. mkResult ''deny'' role ''plugin not configured'')
     (filter (\<lambda>role. map_of sn role = None) roles)"

definition launched :: "(string \<times> nat) list \<Rightarrow> string list \<Rightarrow> (string \<times> nat) list" where
  "launched sn roles = List.map_filter (\<lambda>role. map_option (Pair role) (map_of sn role)) roles"

fun runTasks :: "(string \<Rightarrow> AuthorizeResponse) \<Rightarrow> gotime \<Rightarrow> (string \<times> nat) list \<Rightarrow> Manager \<Rightarrow> result list \<times> Manager" where
  "runTasks plugin now [] m = ([], m)"
| "runTasks plugin now ((role, i) # ts) m =
     (let ((d, r), _, m) = callPlugin role i now (RpcResponse (plugin role)) now m;
          (rs, m) = runTasks plugin now ts m
      in (mkResult d role r # rs, m))"

fun firstAllow :: "result list \<Rightarrow> result" where
  "firstAllow [] = mkResult '''' '''' ''''"
| "firstAllow [res] = res"
| "firstAllow (res # rs) = (if res_decision res = ''allow'' then res else firstAllow rs)"

definition authorizeSeq ::
  "(string \<Rightarrow> AuthorizeResponse) \<Rightarrow> gotime \<Rightarrow> string list \<Rightarrow> Manager \<Rightarrow> result \<times> Manager" where
  "authorizeSeq plugin now roles m =
     (if roles = [] then (mkResult ''deny'' '''' ''no roles assigned'', m)
      else
        (let (rs, m') = runTasks plugin now (launched (plugins m) roles) m
         in (firstAllow (missing (plugins m) roles @ rs), m')))"

lemma length_runTasks: "length (fst (runTasks plugin now ts m)) = length ts"
  by (induction ts arbitrary: m) (auto simp: split_beta Let_def)

lemma length_spawned: "length (missing sn roles) + length (launched sn roles) = length roles"
  by (induction roles) (auto simp: missing_def launched_def List.map_filter_simps)

abbreviation starts :: "(string \<times> nat) list \<Rightarrow> task list" where
  "starts \<equiv> map (\<lambda>(role, i). TStart role i)"

lemma seq_spawn:
  assumes "todo s = td" and "returned s = None"
  shows "authz_steps roles s
    (s\<lparr>todo := [], tasks := tasks s @ starts (launched (snap s) td), resultCh := resultCh s @ missing (snap s) td\<rparr>)"
  using assms
proof (induction td arbitrary: s)
  case Nil
  then have "s\<lparr>todo := [], tasks := tasks s, resultCh := resultCh s\<rparr> = s" by simp
  then show ?case by (simp add: launched_def missing_def List.map_filter_simps)
next
  case (Cons role td)
  show ?case
  proof (cases "map_of (snap s) role")
    case None
    with Cons.prems have "authz_step roles s
        (s\<lparr>todo := td, resultCh := resultCh s @ [mkResult ''deny'' role ''plugin not configured'']\<rparr>)"
      by (intro authz_step.spawn_missing)
    from converse_rtranclp_into_rtranclp [OF this Cons.IH] Cons.prems None show ?thesis
      by (simp add: launched_def missing_def List.map_filter_simps)
  next
    case (Some i)
    with Cons.prems have "authz_step roles s (s\<lparr>todo := td, tasks := tasks s @ [TStart role i]\<rparr>)"
      by (intro authz_step.spawn)
    from converse_rtranclp_into_rtranclp [OF this Cons.IH] Cons.prems Some show ?thesis
      by (simp add: launched_def missing_def List.map_filter_simps)
  qed
qed

lemma seq_task:
  assumes "tasks s = done @ TStart role i # rest" and "callPlugin role i now (RpcResponse resp) now (mgr s) = ((d, r), b, m)"
  obtains ans where "set ans \<subseteq> insert (role, RpcResponse resp) (set (answers s))"
    "authz_steps roles s (s\<lparr>mgr := m, tasks := done @ TDone # rest, resultCh := resultCh s @ [mkResult d role r],
       answers := ans\<rparr>)"
proof -
  let ?k = "length done"
  have k: "?k < length (tasks s)" "tasks s ! ?k = TStart role i" using assms(1) by simp_all
  obtain early m1 where b: "callBegin role i now (mgr s) = (early, m1)" by fastforce
  show thesis
  proof (cases early)
    case (Some dr)
    then have "callBegin role i now (mgr s) = (Some (d, r), m)" using assms(2) b by (simp add: callPlugin_def)
    from authz_step.begin_deny [OF k this, of roles] assms(1) show thesis
      by (intro that [of "answers s"]) (auto simp: finish_def list_update_append)
  next
    case None
    let ?s = "s\<lparr>mgr := m1, tasks := (tasks s)[?k := TCall role i]\<rparr>"
    have "callEnd role i now (RpcResponse resp) (mgr ?s) = ((d, r), b, m)"
      using assms(2) b None by (simp add: callPlugin_def)
    then have "authz_step roles ?s (finish ?k (mkResult d role r)
        (?s\<lparr>mgr := m, answers := (role, RpcResponse resp) # answers ?s\<rparr>))"
      using k(1) by (intro authz_step.end_call) simp_all
    moreover have "authz_step roles s ?s" using b None k by (intro authz_step.begin_call) simp_all
    ultimately have "authz_steps roles s (finish ?k (mkResult d role r)
        (?s\<lparr>mgr := m, answers := (role, RpcResponse resp) # answers ?s\<rparr>))"
      by (meson rtranclp.rtrancl_into_rtrancl r_into_rtranclp)
    moreover have "finish ?k (mkResult d role r) (?s\<lparr>mgr := m, answers := (role, RpcResponse resp) # answers ?s\<rparr>) =
        s\<lparr>mgr := m, tasks := done @ TDone # rest, resultCh := resultCh s @ [mkResult d role r],
          answers := (role, RpcResponse resp) # answers s\<rparr>"
      using assms(1) by (cases s) (simp add: finish_def)
    ultimately show thesis by (intro that [of "(role, RpcResponse resp) # answers s"]) auto
  qed
qed

lemma seq_tasks:
  assumes "tasks s = done @ starts ts" and "runTasks plugin now ts (mgr s) = (rs, m)"
    and "\<forall>role resp. (role, RpcResponse resp) \<in> set (answers s) \<longrightarrow> resp = plugin role"
  shows "\<exists>ans ds. authz_steps roles s (s\<lparr>mgr := m, tasks := ds, resultCh := resultCh s @ rs, answers := ans\<rparr>) \<and>
    (\<forall>role resp. (role, RpcResponse resp) \<in> set ans \<longrightarrow> resp = plugin role)"
  using assms
proof (induction ts arbitrary: s "done" rs)
  case Nil
  then have "s\<lparr>mgr := m, tasks := tasks s, resultCh := resultCh s @ rs, answers := answers s\<rparr> = s" by simp
  with Nil.prems(3) show ?case by (intro exI [of _ "answers s"] exI [of _ "tasks s"]) simp
next
  case (Cons t ts)
  obtain role i where t: "t = (role, i)" by fastforce
  obtain d r b m1 where call: "callPlugin role i now (RpcResponse (plugin role)) now (mgr s) = ((d, r), b, m1)"
    by (metis prod.exhaust)
  obtain rs' where rs': "runTasks plugin now ts m1 = (rs', m)" "rs = mkResult d role r # rs'"
    using Cons.prems(2) call by (auto simp: t split: prod.splits)
  obtain ans where ans: "set ans \<subseteq> insert (role, RpcResponse (plugin role)) (set (answers s))"
      and steps: "authz_steps roles s (s\<lparr>mgr := m1, tasks := done @ TDone # starts ts,
        resultCh := resultCh s @ [mkResult d role r], answers := ans\<rparr>)"
    by (rule seq_task [OF _ call]) (use Cons.prems(1) t in simp)
  let ?s = "s\<lparr>mgr := m1, tasks := done @ TDone # starts ts, resultCh := resultCh s @ [mkResult d role r], answers := ans\<rparr>"
  have "\<exists>ans ds. authz_steps roles ?s (?s\<lparr>mgr := m, tasks := ds, resultCh := resultCh ?s @ rs', answers := ans\<rparr>) \<and>
      (\<forall>role resp. (role, RpcResponse resp) \<in> set ans \<longrightarrow> resp = plugin role)"
    by (rule Cons.IH [of _ "done @ [TDone]"]) (use rs' ans Cons.prems(3) in auto)
  then obtain ans' ds where rest: "authz_steps roles ?s
        (s\<lparr>mgr := m, tasks := ds, resultCh := resultCh s @ rs, answers := ans'\<rparr>)"
      "\<forall>role resp. (role, RpcResponse resp) \<in> set ans' \<longrightarrow> resp = plugin role"
    by (auto simp: rs'(2))
  show ?case
    by (rule exI [of _ ans'], rule exI [of _ ds], rule conjI, rule rtranclp_trans [OF steps rest(1)], rule rest(2))
qed

lemma seq_receive:
  assumes "todo s = []" "returned s = None" "resultCh s = rs" "rs \<noteq> []" "received s + length rs = length roles"
  shows "\<exists>s'. authz_steps roles s s' \<and> returned s' = Some (firstAllow rs) \<and> answers s' = answers s"
  using assms
proof (induction rs arbitrary: s rule: firstAllow.induct)
  case (2 res)
  have step: "authz_step roles s (receive (length roles) res [] s)"
    using 2 by (intro authz_step.receive) simp_all
  have "returned (receive (length roles) res [] s) = Some res \<and> answers (receive (length roles) res [] s) = answers s"
    using 2 by (simp add: receive_def Let_def)
  with step show ?case by (intro exI [of _ "receive (length roles) res [] s"]) auto
next
  case (3 res res' rs)
  let ?s = "receive (length roles) res (res' # rs) s"
  have step: "authz_step roles s ?s"
    using 3 by (intro authz_step.receive) simp_all
  show ?case
  proof (cases "res_decision res = ''allow''")
    case True
    then have "returned ?s = Some (firstAllow (res # res' # rs)) \<and> answers ?s = answers s"
      by (simp add: receive_def Let_def)
    with step show ?thesis by (intro exI [of _ ?s]) auto
  next
    case False
    then have "\<exists>s'. authz_steps roles ?s s' \<and> returned s' = Some (firstAllow (res' # rs)) \<and> answers s' = answers ?s"
      using "3.prems" by (intro "3.IH") (simp_all add: receive_def Let_def)
    then obtain s' where s': "authz_steps roles ?s s'" "returned s' = Some (firstAllow (res' # rs))" "answers s' = answers ?s"
      by blast
    moreover have "answers ?s = answers s" by (simp add: receive_def Let_def)
    ultimately show ?thesis
      using False converse_rtranclp_into_rtranclp [of "authz_step roles", OF step s'(1)] by (intro exI [of _ s']) simp
  qed
qed simp

lemma authorizeSeq_outcome:
  "authorize_outcome (\<lambda>role resp. resp = plugin role) m roles (fst (authorizeSeq plugin now roles m))"
proof (cases "roles = []")
  case True
  then show ?thesis
    by (auto simp: authorize_outcome_def authorizeSeq_def authorizeStart_def intro!: exI [of _ "authorizeStart [] m"])
next
  case False
  let ?s = "authorizeStart roles m" and ?sn = "plugins m"
  let ?sa = "?s\<lparr>todo := [], tasks := starts (launched ?sn roles), resultCh := missing ?sn roles\<rparr>"
  obtain rs m' where rs: "runTasks plugin now (launched ?sn roles) m = (rs, m')" by fastforce
  have a: "authz_steps roles ?s ?sa"
    using seq_spawn [of ?s roles roles] False by (simp add: authorizeStart_def)
  obtain ans ds where b: "authz_steps roles ?sa
      (?sa\<lparr>mgr := m', tasks := ds, resultCh := missing ?sn roles @ rs, answers := ans\<rparr>)"
      "\<forall>role resp. (role, RpcResponse resp) \<in> set ans \<longrightarrow> resp = plugin role"
    using seq_tasks [of ?sa "[]" "launched ?sn roles" plugin now rs m' roles] rs
    by (auto simp: authorizeStart_def)
  let ?sb = "?sa\<lparr>mgr := m', tasks := ds, resultCh := missing ?sn roles @ rs, answers := ans\<rparr>"
  have len: "length (missing ?sn roles @ rs) = length roles"
    using length_spawned [of ?sn roles] length_runTasks [of plugin now "launched ?sn roles" m] rs by simp
  then have "missing ?sn roles @ rs \<noteq> []" using False by (metis length_0_conv)
  then have "\<exists>s'. authz_steps roles ?sb s' \<and> returned s' = Some (firstAllow (missing ?sn roles @ rs)) \<and>
      answers s' = answers ?sb"
    using len False by (intro seq_receive) (simp_all add: authorizeStart_def)
  then obtain s' where s': "authz_steps roles ?sb s'"
      "returned s' = Some (firstAllow (missing ?sn roles @ rs))" "answers s' = ans" by auto
  moreover have "authz_steps roles ?s s'"
    by (rule rtranclp_trans [OF a rtranclp_trans [OF b(1) s'(1)]])
  ultimately show ?thesis
    using False rs b(2) by (auto simp: authorize_outcome_def authorizeSeq_def)
qed

end
