(* ===== verification/Authz.thy ===== *)
theory Authz
  imports Sdk Middleware
begin

text \<open>
  The authorization middleware \<^verbatim>\<open>src/internal/authz/middleware.go\<close>.  The \<^verbatim>\<open>Authorizer\<close> interface
  is the argument \<open>authorize\<close>, a function of the roles, the message and the gateway state that
  returns decision, plugin name and reason.
\<close>

type_synonym 'g authorizer = "string list \<Rightarrow> pb_HttpRequest \<Rightarrow> 'g \<Rightarrow> (string \<times> string \<times> string) \<times> 'g"

definition sensitiveHeaders :: "string list" where
  "sensitiveHeaders = [''X-Api-Key'', ''Authorization'', ''Cookie'', ''Proxy-Authorization'']"

definition isSensitive :: "string \<Rightarrow> bool" where
  "isSensitive key \<longleftrightarrow> http_CanonicalHeaderKey key \<in> set sensitiveHeaders"

definition redactHeaders :: "pb_HttpRequest \<Rightarrow> pb_HttpRequest" where
  "redactHeaders req =
     req\<lparr>pb_Headers := map (\<lambda>h. if isSensitive (ph_Key h) then h\<lparr>ph_Values := [''REDACTED'']\<rparr> else h)
                          (pb_Headers req)\<rparr>"

definition writeResult :: "http_request \<Rightarrow> string \<Rightarrow> string \<Rightarrow> string \<Rightarrow> 'g rstate \<Rightarrow> 'g rstate" where
  "writeResult r decision plugin reason st =
     (if c_authzResultPtr (r_ctx r)
      then st\<lparr>cell_authzResult := \<lparr>ar_Decision = decision, ar_Plugin = plugin, ar_Reason = reason\<rparr>\<rparr>
      else st)"

definition authz_Middleware :: "'g authorizer \<Rightarrow> 'g middleware" where
  "authz_Middleware authorize next w r st =
     (let roles = GetRoles (r_ctx r)
      in if roles = [] then
           http_Error w ''Forbidden: no roles assigned'' 403
             (writeResult r ''deny'' '''' ''no roles assigned'' st)
         else
           (let body = GetBodyBytes (r_ctx r);
                reqID = GetRequestID (r_ctx r);
                prin = GetPrincipal (r_ctx r);
                pbReq = redactHeaders (StdlibToHttpRequest r body reqID prin);
                ((decision, pluginName, reason), g) = authorize roles pbReq (global st);
                st = writeResult r decision pluginName reason (st\<lparr>global := g\<rparr>)
            in if decision \<noteq> ''allow'' then http_Error w ''Forbidden'' 403 st
               else next w r st))"

text \<open>The message the middleware hands to the authorizer.\<close>

abbreviation authz_request :: "http_request \<Rightarrow> pb_HttpRequest" where
  "authz_request r \<equiv> redactHeaders (StdlibToHttpRequest r (GetBodyBytes (r_ctx r))
     (GetRequestID (r_ctx r)) (GetPrincipal (r_ctx r)))"

text \<open>
  The headers that carry credentials, in any spelling of their names (RFC 9110: field names are
  case-insensitive).
\<close>

definition credentialHeader :: "string \<Rightarrow> bool" where
  "credentialHeader k \<longleftrightarrow>
     map ascii_lower k \<in> {''x-api-key'', ''authorization'', ''cookie'', ''proxy-authorization''}"

definition without_credentials :: "http_request \<Rightarrow> http_request" where
  "without_credentials r = r\<lparr>r_Header := map (\<lambda>(k, v). (k, if credentialHeader k then [] else v)) (r_Header r)\<rparr>"

lemma ascii_lower_idem [simp]: "ascii_lower (ascii_lower c) = ascii_lower c" "ascii_lower (ascii_upper c) = ascii_lower c"
  "ascii_upper (ascii_lower c) = ascii_upper c"
  by (simp_all add: ascii_lower_def ascii_upper_def byte_in_def)

lemma canonicalLoop_lower:
  "map ascii_lower (canonicalLoop upper s) = map ascii_lower s"
  "canonicalLoop upper (map ascii_lower s) = canonicalLoop upper s"
  by (induction upper s rule: canonicalLoop.induct) (auto simp: Let_def)

lemma validHeaderFieldByte_lower: "validHeaderFieldByte (ascii_lower c) = validHeaderFieldByte c"
proof (cases "byte_in 65 90 c")
  case True
  then have "byte_in 97 122 (ascii_lower c)" by (simp add: ascii_lower_def byte_in_def)
  with True show ?thesis unfolding validHeaderFieldByte_def by blast
qed (simp add: ascii_lower_def)

lemma isSensitive_iff: "isSensitive k \<longleftrightarrow> credentialHeader k"
proof
  assume "isSensitive k"
  have lower: "map ascii_lower (http_CanonicalHeaderKey k) = map ascii_lower k"
    by (simp add: http_CanonicalHeaderKey_def canonicalLoop_lower)
  have "list_all (\<lambda>s. map ascii_lower s \<in> {''x-api-key'', ''authorization'', ''cookie'', ''proxy-authorization''}) sensitiveHeaders"
    by code_simp
  then show "credentialHeader k"
    using \<open>isSensitive k\<close> lower unfolding isSensitive_def credentialHeader_def list_all_iff by force
next
  assume cred: "credentialHeader k"
  have "list_all (\<lambda>s. list_all validHeaderFieldByte s \<and> canonicalLoop True s \<in> set sensitiveHeaders)
      [''x-api-key'', ''authorization'', ''cookie'', ''proxy-authorization'']"
    by code_simp
  then have "list_all validHeaderFieldByte (map ascii_lower k) \<and> canonicalLoop True (map ascii_lower k) \<in> set sensitiveHeaders"
    using cred unfolding credentialHeader_def list_all_iff list.set by (rule bspec)
  then show "isSensitive k"
    by (simp add: isSensitive_def http_CanonicalHeaderKey_def canonicalLoop_lower list_all_iff validHeaderFieldByte_lower)
qed

lemma authz_request_without_credentials: "authz_request (without_credentials r) = authz_request r"
  by (simp add: without_credentials_def redactHeaders_def StdlibToHttpRequest_def comp_def
      case_prod_unfold isSensitive_iff)

text \<open>
  C23: the authorizer learns nothing about credentials, and everything else.  Two requests that
  differ only in the values of \<^verbatim>\<open>X-Api-Key\<close>, \<^verbatim>\<open>Authorization\<close>, \<^verbatim>\<open>Cookie\<close> and \<^verbatim>\<open>Proxy-Authorization\<close>, in any
  spelling of the header names, get the same decision and leave the same response and state,
  unless the next handler distinguishes them.  The message has all headers of the request, with the
  values of these four replaced and all others as they are.
\<close>

theorem authz_noninterference:
  assumes "without_credentials r = without_credentials r'"
  shows "authz_Middleware authorize next w r st =
           authz_Middleware authorize (\<lambda>w _. next w r) w r' st \<and>
         pb_Headers (authz_request r) =
           map (\<lambda>(k, v). \<lparr>ph_Key = k, ph_Values = if credentialHeader k then [''REDACTED''] else v\<rparr>) (r_Header r)"
proof -
  have req: "authz_request r = authz_request r'"
    using authz_request_without_credentials [of r] authz_request_without_credentials [of r'] assms
    by simp
  have "r_ctx (without_credentials r) = r_ctx (without_credentials r')"
    using assms by simp
  then have ctx: "r_ctx r = r_ctx r'"
    by (simp add: without_credentials_def)
  have "authz_Middleware authorize next w r st = authz_Middleware authorize (\<lambda>w _. next w r) w r' st"
    using req ctx by (simp add: authz_Middleware_def writeResult_def Let_def split: prod.split)
  moreover have "pb_Headers (authz_request r) =
      map (\<lambda>(k, v). \<lparr>ph_Key = k, ph_Values = if credentialHeader k then [''REDACTED''] else v\<rparr>) (r_Header r)"
    by (auto simp: redactHeaders_def StdlibToHttpRequest_def isSensitive_iff)
  ultimately show ?thesis ..
qed

text \<open>
  The next handler runs only after the authorizer said \<^verbatim>\<open>allow\<close> to the roles of the
  authenticated key, and then with the request unchanged.  In every other case the response is
  a 403, and the result cell that the audit log reads holds the decision.
\<close>

theorem authz_gate:
  assumes "c_authzResultPtr (r_ctx r)" and "resp_status st = None"
  shows "let out = authz_Middleware authorize next w r st;
             ((decision, plugin, reason), g) = authorize (c_roles (r_ctx r)) (authz_request r) (global st);
             res = \<lparr>ar_Decision = decision, ar_Plugin = plugin, ar_Reason = reason\<rparr>
         in if c_roles (r_ctx r) \<noteq> [] \<and> decision = ''allow''
            then out = next w r (st\<lparr>global := g, cell_authzResult := res\<rparr>)
            else resp_status out = Some 403 \<and> ar_Decision (cell_authzResult out) \<noteq> ''allow'' \<and>
                 resp_body out \<in> {resp_body st @ ''Forbidden'' @ [CHR 0x0A],
                                  resp_body st @ ''Forbidden: no roles assigned'' @ [CHR 0x0A]}"
  using assms
  by (auto simp: authz_Middleware_def writeResult_def context_defs Let_def split: prod.split)

definition demoAuthz :: "unit authorizer" where
  "demoAuthz roles req g = ((if ''admin'' \<in> set roles then ''allow'' else ''deny'', hd roles, ''r''), g)"

definition demoAuthzRequest :: "string \<Rightarrow> string list \<Rightarrow> http_request" where
  "demoAuthzRequest key roles =
     \<lparr>r_Method = ''GET'', r_Scheme = [], r_Host = [], r_Path = ''/'', r_RawQuery = [],
      r_Header = [(''X-Api-Key'', [key])], r_Body = NoBody, r_ContentLength = 0, r_RemoteAddr = [],
      r_ctx = WithAuthzResultPtr (WithRoles Background roles)\<rparr>"

theorem authz_noninterference_witness:
  "authz_Middleware demoAuthz (\<lambda>w r st. Write w ''ok'' st) RawWriter
     (demoAuthzRequest ''a:b'' [''admin'']) (freshState ()) =
   authz_Middleware demoAuthz (\<lambda>w r st. Write w ''ok'' st) RawWriter
     (demoAuthzRequest ''c:d'' [''admin'']) (freshState ())"
proof -
  have "credentialHeader k" if "k = ''X-Api-Key''" for k unfolding that by code_simp
  then have "without_credentials (demoAuthzRequest ''a:b'' [''admin'']) =
      without_credentials (demoAuthzRequest ''c:d'' [''admin''])"
    by (simp add: without_credentials_def demoAuthzRequest_def)
  from authz_noninterference [OF this, of demoAuthz "\<lambda>w r st. Write w ''ok'' st" RawWriter "freshState ()"]
  show ?thesis by simp
qed

theorem authz_gate_witness:
  "resp_status (authz_Middleware demoAuthz (\<lambda>w r st. Write w ''ok'' st) RawWriter
     (demoAuthzRequest ''a:b'' [''read_zones'']) (freshState ())) = Some 403"
  using authz_gate [of "demoAuthzRequest ''a:b'' [''read_zones'']" "freshState ()" demoAuthz
      "\<lambda>w r st. Write w ''ok'' st" RawWriter]
  by (simp add: demoAuthzRequest_def demoAuthz_def context_defs freshState_def Let_def)

end
