(* ===== verification/Ratelimit.thy ===== *)
theory Ratelimit
  imports Float64 Middleware
begin

text \<open>
  Rate limiting: the interface and no-op limiter (\<^verbatim>\<open>src/internal/ratelimit/ratelimit.go\<close>), the
  per-principal token buckets (\<^verbatim>\<open>src/internal/ratelimit/token/limiter.go\<close>) and the middleware
  (\<^verbatim>\<open>src/internal/ratelimit/middleware.go\<close>).

  Each bucket carries the identity of its allocation (\<open>b_ref\<close>), which is what
  \<^verbatim>\<open>CompareAndDelete\<close> compares.  The arithmetic on tokens is that of \<^verbatim>\<open>float64\<close>, one rounding per
  operation (no fused multiply-add).

  The goroutine that \<^verbatim>\<open>New\<close> starts is \<open>cleanupLoop\<close>.  \<open>limiter_step\<close> interleaves its visits and
  deletions with calls of \<^verbatim>\<open>Allow\<close>; a call is one step there, so that the calls of a principal reach
  the lock of its bucket in the order in which they read the clock.
\<close>

section \<open>Token buckets\<close>

record bucket =
  b_ref :: nat
  tokens :: rat
  lastCheck :: gotime

record Limiter =
  buckets :: "string \<rightharpoonup> bucket"
  rate :: rat
  burst :: int
  stopped :: bool
  nextRef :: nat

definition staleThreshold :: duration where
  "staleThreshold = 5 * Minute"

definition token_New :: "rat \<Rightarrow> int \<Rightarrow> Limiter" where
  "token_New cfgRate cfgBurst =
     \<lparr>buckets = Map.empty, rate = cfgRate, burst = cfgBurst, stopped = False, nextRef = 0\<rparr>"

definition token_Close :: "Limiter \<Rightarrow> Limiter" where
  "token_Close l = l\<lparr>stopped := True\<rparr>"

text \<open>\<^verbatim>\<open>Duration.Seconds\<close>; integer division truncates.\<close>

definition Seconds :: "duration \<Rightarrow> rat" where
  "Seconds d =
     (let sec = sgn d * (\<bar>d\<bar> div Second); nsec = sgn d * (\<bar>d\<bar> mod Second)
      in f64 (f64 (of_int sec) + f64 (f64 (of_int nsec) / 1000000000)))"

definition token_LoadOrStore :: "string \<Rightarrow> gotime \<Rightarrow> Limiter \<Rightarrow> bucket \<times> Limiter" where
  "token_LoadOrStore prin now l =
     (case buckets l prin of
        Some b \<Rightarrow> (b, l)
      | None \<Rightarrow>
          (let b = \<lparr>b_ref = nextRef l, tokens = f64 (of_int (burst l)), lastCheck = now\<rparr>
           in (b, l\<lparr>buckets := (buckets l)(prin \<mapsto> b), nextRef := Suc (nextRef l)\<rparr>)))"

text \<open>The critical section of \<^verbatim>\<open>Allow\<close>: refill, clamp, take a token.\<close>

definition takeToken :: "rat \<Rightarrow> int \<Rightarrow> gotime \<Rightarrow> bucket \<Rightarrow> bool \<times> bucket" where
  "takeToken rt bst now b =
     (let elapsed = Seconds (time_Sub now (lastCheck b));
          tk = f64 (tokens b + f64 (elapsed * rt));
          tk = (if tk > f64 (of_int bst) then f64 (of_int bst) else tk);
          b = b\<lparr>tokens := tk, lastCheck := now\<rparr>
      in if tk < 1 then (False, b) else (True, b\<lparr>tokens := f64 (tk - 1)\<rparr>))"

definition token_Allow :: "gotime \<Rightarrow> string \<Rightarrow> Limiter \<Rightarrow> bool \<times> Limiter" where
  "token_Allow now prin l =
     (let (b, l) = token_LoadOrStore prin now l;
          (ok, b) = takeToken (rate l) (burst l) now b
      in (ok, l\<lparr>buckets := (buckets l)(prin \<mapsto> b)\<rparr>))"

text \<open>
  One visit of \<^verbatim>\<open>cleanup\<close>: the staleness read under the bucket lock, and the later
  \<^verbatim>\<open>CompareAndDelete\<close>, between which other goroutines may run.
\<close>

definition isStale :: "gotime \<Rightarrow> bucket \<Rightarrow> bool" where
  "isStale now b \<longleftrightarrow> time_Sub now (lastCheck b) > staleThreshold"

definition CompareAndDelete :: "string \<Rightarrow> nat \<Rightarrow> Limiter \<Rightarrow> Limiter" where
  "CompareAndDelete key ref l =
     (case buckets l key of
        Some b \<Rightarrow> if b_ref b = ref then l\<lparr>buckets := (buckets l)(key := None)\<rparr> else l
      | None \<Rightarrow> l)"

text \<open>\<^verbatim>\<open>cleanup\<close> undisturbed, over the keys in the order \<^verbatim>\<open>Range\<close> visits them.\<close>

fun cleanup :: "gotime \<Rightarrow> string list \<Rightarrow> Limiter \<Rightarrow> Limiter" where
  "cleanup now [] l = l"
| "cleanup now (key # keys) l =
     (case buckets l key of
        None \<Rightarrow> cleanup now keys l
      | Some b \<Rightarrow>
          cleanup now keys (if isStale now b then CompareAndDelete key (b_ref b) l else l))"

text \<open>The loop of the background goroutine over what its \<^verbatim>\<open>select\<close> receives.\<close>

datatype limiter_event = Tick gotime "string list" | Stop

fun cleanupLoop :: "limiter_event list \<Rightarrow> Limiter \<Rightarrow> Limiter" where
  "cleanupLoop [] l = l"
| "cleanupLoop (Stop # es) l = l"
| "cleanupLoop (Tick now keys # es) l = cleanupLoop es (cleanup now keys l)"

text \<open>
  The limiter as its goroutines use it.  An action is a call of \<^verbatim>\<open>Allow\<close>, one visit of \<^verbatim>\<open>cleanup\<close> to a
  key, with the time of the tick, or the deletion that follows a visit that found the bucket stale.  Other
  actions may come between a visit and its deletion.  \<open>lr_pending\<close> is the entry to be deleted, and the
  history variable \<open>lr_touched\<close> says whether its principal has called \<^verbatim>\<open>Allow\<close> since the visit.
\<close>

datatype limiter_action = Call gotime string | Visit gotime string | Remove

record limiter_run =
  lr_limiter :: Limiter
  lr_pending :: "(string \<times> nat) option"
  lr_touched :: bool

fun limiter_step :: "limiter_action \<Rightarrow> limiter_run \<Rightarrow> limiter_run" where
  "limiter_step (Call now prin) s =
     s\<lparr>lr_limiter := snd (token_Allow now prin (lr_limiter s)),
       lr_touched := (lr_touched s \<or> map_option fst (lr_pending s) = Some prin)\<rparr>"
| "limiter_step (Visit now key) s =
     s\<lparr>lr_pending := (case buckets (lr_limiter s) key of
          None \<Rightarrow> None | Some b \<Rightarrow> if isStale now b then Some (key, b_ref b) else None),
       lr_touched := False\<rparr>"
| "limiter_step Remove s =
     (case lr_pending s of
        None \<Rightarrow> s
      | Some (key, ref) \<Rightarrow> s\<lparr>lr_limiter := CompareAndDelete key ref (lr_limiter s), lr_pending := None\<rparr>)"

definition limiter_start :: "rat \<Rightarrow> int \<Rightarrow> limiter_run" where
  "limiter_start cfgRate cfgBurst =
     \<lparr>lr_limiter = token_New cfgRate cfgBurst, lr_pending = None, lr_touched = False\<rparr>"

section \<open>The no-op limiter and the middleware\<close>

definition noop_Allow :: "string \<Rightarrow> 's \<Rightarrow> bool \<times> 's" where
  "noop_Allow prin s = (True, s)"

text \<open>The limiter's \<^verbatim>\<open>Allow\<close> on the gateway state is the argument \<open>allow\<close>.\<close>

definition ratelimit_Middleware :: "(string \<Rightarrow> 'g \<Rightarrow> bool \<times> 'g) \<Rightarrow> 'g middleware" where
  "ratelimit_Middleware allow next w r st =
     (let prin = GetPrincipal (r_ctx r)
      in if prin = '''' then next w r st
         else
           (let (ok, g) = allow prin (global st); st = st\<lparr>global := g\<rparr>
            in if \<not> ok then
                 http_Error w ''rate limit exceeded'' 429 (setHeader ''Retry-After'' ''1'' st)
               else next w r st))"


section \<open>The interface of a limiter\<close>

text \<open>
  What the middleware may rely on: the answers for a principal depend only on what the limiter
  keeps for that principal, and a call for one principal leaves what it keeps for others alone.
\<close>

fun answersOf :: "(gotime \<Rightarrow> string \<Rightarrow> 's \<Rightarrow> bool \<times> 's) \<Rightarrow> string \<Rightarrow> (gotime \<times> string) list \<Rightarrow> 's \<Rightarrow> bool list" where
  "answersOf allow p [] s = []"
| "answersOf allow p ((now, q) # calls) s =
     (let (ok, s) = allow now q s; rest = answersOf allow p calls s
      in if q = p then ok # rest else rest)"

locale rate_limiter =
  fixes allow :: "gotime \<Rightarrow> string \<Rightarrow> 's \<Rightarrow> bool \<times> 's"
    and view :: "'s \<Rightarrow> string \<Rightarrow> 'v"
  assumes allow_other: "q \<noteq> p \<Longrightarrow> view (snd (allow now q s)) p = view s p"
    and allow_local: "view s p = view s' p \<Longrightarrow>
      fst (allow now p s) = fst (allow now p s') \<and>
      view (snd (allow now p s)) p = view (snd (allow now p s')) p"
begin

lemma answers_isolated:
  "view s p = view s' p \<Longrightarrow>
   answersOf allow p calls s = answersOf allow p (filter (\<lambda>c. snd c = p) calls) s'"
proof (induction calls arbitrary: s s')
  case (Cons c calls)
  obtain now q where c: "c = (now, q)" by (cases c)
  obtain ok s1 where a: "allow now q s = (ok, s1)" by (cases "allow now q s")
  show ?case
  proof (cases "q = p")
    case True
    obtain ok' s1' where a': "allow now p s' = (ok', s1')" by (cases "allow now p s'")
    from allow_local [OF Cons.prems, of now] True a a' have "ok' = ok" "view s1 p = view s1' p"
      by simp_all
    with Cons.IH [of s1 s1'] True c a a' show ?thesis by (simp add: Let_def)
  next
    case False
    from allow_other [OF False, of now s] a Cons.prems have "view s1 p = view s' p" by simp
    with Cons.IH [of s1 s'] False c a show ?thesis by (simp add: Let_def)
  qed
qed simp

end

definition token_view :: "Limiter \<Rightarrow> string \<Rightarrow> rat \<times> int \<times> (rat \<times> gotime) option" where
  "token_view l p = (rate l, burst l, map_option (\<lambda>b. (tokens b, lastCheck b)) (buckets l p))"

lemma takeToken_view:
  assumes "tokens b = tokens b'" and "lastCheck b = lastCheck b'"
  shows "fst (takeToken rt bst now b) = fst (takeToken rt bst now b')"
    and "tokens (snd (takeToken rt bst now b)) = tokens (snd (takeToken rt bst now b'))"
    and "lastCheck (snd (takeToken rt bst now b)) = now"
  using assms by (simp_all add: takeToken_def Let_def)

interpretation token: rate_limiter token_Allow token_view
proof
  fix p q :: string and now :: gotime and s :: Limiter
  assume "q \<noteq> p"
  then show "token_view (snd (token_Allow now q s)) p = token_view s p"
    by (simp add: token_view_def token_Allow_def token_LoadOrStore_def Let_def
        split: prod.split option.split)
next
  fix s s' :: Limiter and p :: string and now :: gotime
  assume v: "token_view s p = token_view s' p"
  define b where "b = fst (token_LoadOrStore p now s)"
  define b' where "b' = fst (token_LoadOrStore p now s')"
  have conf: "rate s = rate s'" "burst s = burst s'"
    using v by (simp_all add: token_view_def)
  have bb: "tokens b = tokens b'" "lastCheck b = lastCheck b'"
    using v by (auto simp: b_def b'_def token_view_def token_LoadOrStore_def Let_def split: option.splits)
  have run: "token_Allow now p l = (fst (takeToken (rate l) (burst l) now (fst (token_LoadOrStore p now l))),
      (snd (token_LoadOrStore p now l))\<lparr>buckets := (buckets (snd (token_LoadOrStore p now l)))
        (p \<mapsto> snd (takeToken (rate l) (burst l) now (fst (token_LoadOrStore p now l))))\<rparr>)" for l
    by (simp add: token_Allow_def token_LoadOrStore_def Let_def case_prod_unfold split: option.split)
  have keep: "rate (snd (token_LoadOrStore p now l)) = rate l" "burst (snd (token_LoadOrStore p now l)) = burst l" for l
    by (simp_all add: token_LoadOrStore_def Let_def split: option.split)
  show "fst (token_Allow now p s) = fst (token_Allow now p s') \<and>
      token_view (snd (token_Allow now p s)) p = token_view (snd (token_Allow now p s')) p"
    using conf takeToken_view [OF bb]
    by (simp add: run token_view_def keep takeToken_view(3) flip: b_def b'_def)
qed

interpretation noop: rate_limiter "\<lambda>now :: gotime. noop_Allow" "\<lambda>s p. ()"
  by unfold_locales (simp_all add: noop_Allow_def)

section \<open>The window bound\<close>

text \<open>The relative rounding error of one operation, and its accumulation in a refill.\<close>

definition eps :: rat where
  "eps = 1 / 2 ^ 53"

lemma eps_nonneg [simp]: "0 \<le> eps" "0 \<le> 1 + eps"
  by (simp_all add: eps_def)

lemma f64_le: "0 \<le> x \<Longrightarrow> f64 x \<le> x * (1 + eps)"
  using f64_upper by (simp add: eps_def)

lemma f64_small_int [simp]: "0 \<le> n \<Longrightarrow> n < 2 ^ 53 \<Longrightarrow> f64 (of_int n) = of_int n"
  by (intro f64_of_int) simp

lemma Seconds_nonneg: "0 \<le> d \<Longrightarrow> 0 \<le> Seconds d"
  by (cases "d = 0") (auto simp: Seconds_def Let_def intro!: f64_nonneg add_nonneg_nonneg divide_nonneg_nonneg
      pos_imp_zdiv_nonneg_iff [THEN iffD2] simp: Second_def)

lemma Seconds_le:
  assumes "0 \<le> d" and "d \<le> maxDuration"
  shows "Seconds d \<le> of_int d / 1000000000 * (1 + eps) ^ 2"
proof -
  let ?s = "d div Second" and ?n = "d mod Second"
  have d: "of_int d / 1000000000 = (of_int ?s + of_int ?n / 1000000000 :: rat)"
  proof -
    have "of_int d = (of_int (?s * 1000000000 + ?n) :: rat)" by (simp add: Second_def)
    then show ?thesis by simp
  qed
  have s: "0 \<le> ?s" "?s < 2 ^ 53" "0 \<le> ?n" "?n < 2 ^ 53"
    using assms by (auto simp: Second_def maxDuration_def zdiv_int pos_imp_zdiv_nonneg_iff
        intro: le_less_trans [OF zdiv_mono1 [OF assms(2)]] less_trans [OF pos_mod_bound])
  have sgn: "sgn d * (\<bar>d\<bar> div Second) = ?s" "sgn d * (\<bar>d\<bar> mod Second) = ?n"
    using assms by (cases "d = 0"; simp)+
  let ?f = "f64 (of_int ?n / 1000000000)"
  have f: "0 \<le> ?f" "?f \<le> of_int ?n / 1000000000 * (1 + eps)"
    using s f64_le [of "of_int ?n / 1000000000"] by (simp_all add: f64_nonneg)
  have "Seconds d = f64 (of_int ?s + ?f)"
    using s by (simp add: Seconds_def sgn)
  also have "\<dots> \<le> (of_int ?s + ?f) * (1 + eps)"
    using s f by (intro f64_le) simp
  also have "\<dots> \<le> (of_int ?s * (1 + eps) + of_int ?n / 1000000000 * (1 + eps)) * (1 + eps)"
  proof (intro mult_right_mono add_mono f(2))
    show "(of_int ?s :: rat) \<le> of_int ?s * (1 + eps)"
      using s by (simp add: algebra_simps)
  qed simp
  also have "\<dots> = of_int d / 1000000000 * (1 + eps) ^ 2"
    unfolding d by (simp add: algebra_simps power2_eq_square)
  finally show ?thesis .
qed

text \<open>The exact refill for \<open>d\<close> nanoseconds, with the accumulated rounding error.\<close>

definition refill :: "rat \<Rightarrow> duration \<Rightarrow> rat" where
  "refill rt d = rt * (of_int d / 1000000000) * (1 + eps) ^ 4"

lemma refill_mono: "0 \<le> rt \<Longrightarrow> d \<le> d' \<Longrightarrow> refill rt d \<le> refill rt d'"
  unfolding refill_def by (intro mult_right_mono mult_left_mono divide_right_mono zero_le_power) auto

lemma refill_add: "refill rt (d + d') = refill rt d + refill rt d'"
  by (simp add: refill_def algebra_simps add_divide_distrib)

text \<open>The tokens after the refill, before the clamp.\<close>

definition refilled :: "rat \<Rightarrow> gotime \<Rightarrow> bucket \<Rightarrow> rat" where
  "refilled rt now b = f64 (tokens b + f64 (Seconds (time_Sub now (lastCheck b)) * rt))"

lemma takeToken_after:
  assumes "0 \<le> bst" and "bst < 2 ^ 53" and "takeToken rt bst now b = (ok, b')" and "0 \<le> refilled rt now b"
  shows "of_bool ok + tokens b' \<le> min (refilled rt now b) (of_int bst) + eps * of_int bst"
    and "0 \<le> tokens b'" and "tokens b' \<le> of_int bst" and "lastCheck b' = now"
proof -
  define t where "t = min (refilled rt now b) (of_int bst)"
  have t: "0 \<le> t" "t \<le> of_int bst"
    using assms by (auto simp: t_def)
  have b': "if t < 1 then \<not> ok \<and> b' = b\<lparr>tokens := t, lastCheck := now\<rparr>
      else ok \<and> b' = b\<lparr>lastCheck := now, tokens := f64 (t - 1)\<rparr>"
    using assms(1-3) by (auto simp: takeToken_def t_def refilled_def Let_def min_def split: if_split_asm)
  show "lastCheck b' = now" using b' by (auto split: if_split_asm)
  have eb: "0 \<le> eps * of_int bst" using assms(1) by simp
  have "1 + f64 (t - 1) \<le> t + eps * of_int bst" if "1 \<le> t"
  proof -
    have "f64 (t - 1) \<le> (t - 1) + eps * (t - 1)"
      using f64_le [of "t - 1"] that by (simp add: algebra_simps)
    moreover have "eps * (t - 1) \<le> eps * of_int bst"
      using t that by (intro mult_left_mono) auto
    ultimately show ?thesis by linarith
  qed
  then show "of_bool ok + tokens b' \<le> min (refilled rt now b) (of_int bst) + eps * of_int bst"
    using b' eb by (cases "t < 1") (auto simp flip: t_def)
  show "0 \<le> tokens b'"
    using b' t by (cases "t < 1") (auto intro: f64_nonneg)
  have "f64 (t - 1) \<le> f64 (of_int bst)" if "1 \<le> t"
    using t that by (intro f64_mono) auto
  then show "tokens b' \<le> of_int bst"
    using b' t assms(1,2) by (cases "t < 1") auto
qed

lemma refilled_bounds:
  assumes "0 \<le> rt" and "lastCheck b \<le> now" and "0 \<le> tokens b" and "tokens b \<le> of_int bst"
  shows "0 \<le> refilled rt now b"
    and "refilled rt now b \<le> tokens b + refill rt (now - lastCheck b) + eps * of_int bst"
proof -
  let ?d = "time_Sub now (lastCheck b)" and ?x = "f64 (Seconds (time_Sub now (lastCheck b)) * rt)"
  have d: "0 \<le> ?d" "?d \<le> maxDuration" "?d \<le> now - lastCheck b"
    using assms(2) time_Sub_le [of now "lastCheck b"] by (simp_all add: time_Sub_def duration_defs)
  have sec: "0 \<le> Seconds ?d" "Seconds ?d \<le> of_int ?d / 1000000000 * (1 + eps) ^ 2"
    using Seconds_nonneg [OF d(1)] Seconds_le [OF d(1,2)] by auto
  have x: "0 \<le> ?x"
    using sec assms(1) by (intro f64_nonneg) simp
  show "0 \<le> refilled rt now b"
    unfolding refilled_def using x assms(3) by (intro f64_nonneg) simp
  have "?x \<le> Seconds ?d * rt * (1 + eps)"
    using sec assms(1) by (intro f64_le) simp
  also have "\<dots> \<le> (of_int ?d / 1000000000 * (1 + eps) ^ 2) * rt * (1 + eps)"
    using sec assms(1) by (intro mult_right_mono) auto
  finally have "?x * (1 + eps) \<le> (of_int ?d / 1000000000 * (1 + eps) ^ 2) * rt * (1 + eps) * (1 + eps)"
    by (intro mult_right_mono) auto
  also have "\<dots> = refill rt ?d"
    by (simp add: refill_def power2_eq_square power4_eq_xxxx algebra_simps)
  also have "\<dots> \<le> refill rt (now - lastCheck b)"
    using d(3) assms(1) by (rule refill_mono [rotated])
  finally have "?x * (1 + eps) \<le> refill rt (now - lastCheck b)" .
  moreover have "refilled rt now b \<le> (tokens b + ?x) * (1 + eps)"
    unfolding refilled_def using x assms(3) by (intro f64_le) simp
  moreover have "eps * tokens b \<le> eps * of_int bst"
    using assms(4) by (intro mult_left_mono) auto
  ultimately show "refilled rt now b \<le> tokens b + refill rt (now - lastCheck b) + eps * of_int bst"
    by (simp add: algebra_simps)
qed

definition limiter_conf :: "Limiter \<Rightarrow> bool" where
  "limiter_conf l \<longleftrightarrow> 0 \<le> rate l \<and> 0 \<le> burst l \<and> burst l < 2 ^ 53"

definition bucket_ok :: "string \<Rightarrow> gotime \<Rightarrow> Limiter \<Rightarrow> bool" where
  "bucket_ok p t l \<longleftrightarrow>
     (\<forall>b. buckets l p = Some b \<longrightarrow> 0 \<le> tokens b \<and> tokens b \<le> of_int (burst l) \<and> lastCheck b \<le> t)"

text \<open>What a principal can have taken by time \<open>t\<close>.\<close>

definition avail :: "Limiter \<Rightarrow> string \<Rightarrow> gotime \<Rightarrow> rat" where
  "avail l p t =
     (case buckets l p of
        None \<Rightarrow> of_int (burst l)
      | Some b \<Rightarrow> tokens b + refill (rate l) (t - lastCheck b))"

lemma token_Allow_conf:
  "rate (snd (token_Allow now q l)) = rate l" "burst (snd (token_Allow now q l)) = burst l"
  by (simp_all add: token_Allow_def token_LoadOrStore_def Let_def case_prod_unfold split: option.split)

lemma token_Allow_other:
  "q \<noteq> p \<Longrightarrow> buckets (snd (token_Allow now q l)) p = buckets l p"
  by (simp add: token_Allow_def token_LoadOrStore_def Let_def case_prod_unfold split: option.split)

lemma token_Allow_self:
  assumes "limiter_conf l" and "bucket_ok p now l" and "token_Allow now p l = (ok, l')"
  obtains b' where "buckets l' p = Some b'" "0 \<le> tokens b'" "tokens b' \<le> of_int (burst l)"
    "lastCheck b' = now" "of_bool ok + tokens b' \<le> of_int (burst l) * (1 + eps)"
    "of_bool ok + tokens b' \<le> avail l p now + 2 * eps * of_int (burst l)"
proof -
  define b where "b = fst (token_LoadOrStore p now l)"
  have conf: "0 \<le> rate l" "0 \<le> burst l" "burst l < 2 ^ 53"
    using assms(1) by (simp_all add: limiter_conf_def)
  have b: "lastCheck b \<le> now" "0 \<le> tokens b" "tokens b \<le> of_int (burst l)"
      "tokens b + refill (rate l) (now - lastCheck b) = avail l p now"
    using assms(2) conf
    by (auto simp: b_def token_LoadOrStore_def bucket_ok_def avail_def refill_def Let_def split: option.split)
  obtain ok' b' where tt: "takeToken (rate l) (burst l) now b = (ok', b')"
    by (cases "takeToken (rate l) (burst l) now b")
  have "ok = ok'" "buckets l' p = Some b'"
    using assms(3) tt
    by (auto simp: token_Allow_def token_LoadOrStore_def b_def Let_def split: option.splits)
  moreover note refilled_bounds [OF conf(1) b(1-3)]
  moreover from this(1) have "of_bool ok' + tokens b' \<le>
      min (refilled (rate l) now b) (of_int (burst l)) + eps * of_int (burst l)"
      "0 \<le> tokens b'" "tokens b' \<le> of_int (burst l)" "lastCheck b' = now"
    by (rule takeToken_after [OF conf(2,3) tt])+
  moreover have "min (refilled (rate l) now b) (of_int (burst l)) \<le> of_int (burst l)"
      "min (refilled (rate l) now b) (of_int (burst l)) \<le> refilled (rate l) now b"
    by simp_all
  moreover have "of_int (burst l) * (1 + eps) = of_int (burst l) + eps * of_int (burst l)"
    by (simp add: algebra_simps)
  ultimately show thesis
    using b(4) by (intro that [of b']) simp_all
qed

lemma limiter_conf_Allow: "limiter_conf l \<Longrightarrow> limiter_conf (snd (token_Allow now q l))"
  by (simp add: limiter_conf_def token_Allow_conf)

lemma bucket_ok_Allow:
  assumes "limiter_conf l" and "bucket_ok p now l"
  shows "bucket_ok p now (snd (token_Allow now q l))"
proof (cases "q = p")
  case True
  obtain ok l' where a: "token_Allow now p l = (ok, l')" by (cases "token_Allow now p l")
  from token_Allow_self [OF assms a] obtain b' where "buckets l' p = Some b'" "0 \<le> tokens b'"
      "tokens b' \<le> of_int (burst l)" "lastCheck b' = now" .
  then show ?thesis
    using a True token_Allow_conf(2) [of now p l] by (simp add: bucket_ok_def)
next
  case False
  then show ?thesis using assms(2) by (simp add: bucket_ok_def token_Allow_other token_Allow_conf)
qed

lemma bucket_ok_mono: "bucket_ok p t l \<Longrightarrow> t \<le> t' \<Longrightarrow> bucket_ok p t' l"
  by (auto simp: bucket_ok_def)

text \<open>
  The clock of a run: a call reads a time that is not before any earlier call or tick.  The tick that
  a visit belongs to may be older than the calls before the visit.
\<close>

fun timely :: "gotime \<Rightarrow> limiter_action list \<Rightarrow> bool" where
  "timely t [] = True"
| "timely t (Call now prin # as) = (t \<le> now \<and> timely now as)"
| "timely t (Visit now key # as) = timely (max t now) as"
| "timely t (Remove # as) = timely t as"

text \<open>The calls of a principal that are let through, and the deletions of its bucket that raced with a call.\<close>

fun granted :: "string \<Rightarrow> limiter_action \<Rightarrow> limiter_run \<Rightarrow> bool" where
  "granted p (Call now prin) s = (prin = p \<and> fst (token_Allow now prin (lr_limiter s)))"
| "granted p _ s = False"

fun raced :: "string \<Rightarrow> limiter_action \<Rightarrow> limiter_run \<Rightarrow> bool" where
  "raced p Remove s = (map_option fst (lr_pending s) = Some p \<and> lr_touched s)"
| "raced p _ s = False"

fun tally :: "(limiter_action \<Rightarrow> limiter_run \<Rightarrow> bool) \<Rightarrow> limiter_action list \<Rightarrow> limiter_run \<Rightarrow> nat" where
  "tally P [] s = 0"
| "tally P (a # as) s = of_bool (P a s) + tally P as (limiter_step a s)"

lemma cleanup_visits:
  "lr_limiter (fold limiter_step (concat (map (\<lambda>key. [Visit now key, Remove]) keys)) s) = cleanup now keys (lr_limiter s)"
  by (induction keys arbitrary: s) (auto split: option.split)

text \<open>
  A bucket that is deleted because it was idle is as good as full, if it is refilled at the rate that
  fills it in the five minutes of \<open>staleThreshold\<close>.  \<open>credit\<close> is what a principal can take at once at time \<open>t\<close>.
\<close>

definition fillRate :: "Limiter \<Rightarrow> rat" where
  "fillRate l = max (rate l) (of_int (burst l) / 300)"

definition credit :: "Limiter \<Rightarrow> string \<Rightarrow> gotime \<Rightarrow> rat" where
  "credit l p t =
     (case buckets l p of
        None \<Rightarrow> of_int (burst l)
      | Some b \<Rightarrow> min (of_int (burst l)) (tokens b + refill (fillRate l) (t - lastCheck b)))"

lemma fillRate_nonneg: "limiter_conf l \<Longrightarrow> 0 \<le> fillRate l"
  by (simp add: fillRate_def limiter_conf_def le_max_iff_disj)

lemma refill_nonneg: "0 \<le> rt \<Longrightarrow> 0 \<le> d \<Longrightarrow> 0 \<le> refill rt d"
  using refill_mono [of rt 0 d] by (simp add: refill_def)

lemma credit_other: "q \<noteq> p \<Longrightarrow> credit (snd (token_Allow now q l)) p t = credit l p t"
  by (simp add: credit_def fillRate_def token_Allow_conf token_Allow_other split: option.split)

lemma credit_bounds:
  assumes "limiter_conf l" and "bucket_ok p t l"
  shows "0 \<le> credit l p t" and "credit l p t \<le> of_int (burst l)"
  using assms refill_nonneg [OF fillRate_nonneg [OF assms(1)]]
  by (auto simp: credit_def bucket_ok_def limiter_conf_def split: option.split)

lemma credit_later:
  assumes "limiter_conf l" and "t \<le> t'"
  shows "credit l p t' \<le> credit l p t + refill (fillRate l) (t' - t)"
proof -
  have pos: "0 \<le> refill (fillRate l) (t' - t)"
    using assms by (intro refill_nonneg fillRate_nonneg) auto
  show ?thesis
  proof (cases "buckets l p")
    case (Some b)
    have "refill (fillRate l) (t' - lastCheck b) = refill (fillRate l) (t - lastCheck b) + refill (fillRate l) (t' - t)"
      using refill_add [of "fillRate l" "t - lastCheck b" "t' - t"] by simp
    with pos show ?thesis unfolding credit_def Some by simp
  qed (use pos in \<open>simp add: credit_def\<close>)
qed

lemma avail_le_credit:
  assumes "limiter_conf l" and "bucket_ok p t l"
  shows "min (of_int (burst l)) (avail l p t) \<le> credit l p t"
proof (cases "buckets l p")
  case (Some b)
  have "lastCheck b \<le> t" using assms(2) Some by (simp add: bucket_ok_def)
  then have "rate l * (of_int (t - lastCheck b) / 1000000000) * (1 + eps) ^ 4 \<le>
      fillRate l * (of_int (t - lastCheck b) / 1000000000) * (1 + eps) ^ 4"
    by (intro mult_right_mono) (auto simp: fillRate_def)
  then show ?thesis by (simp add: avail_def credit_def Some refill_def)
qed (simp add: avail_def credit_def)

lemma credit_Allow:
  assumes "limiter_conf l" and "bucket_ok p now l" and "token_Allow now p l = (ok, l')"
  shows "of_bool ok + credit l' p now \<le> credit l p now + 2 * eps * of_int (burst l)"
proof -
  from token_Allow_self [OF assms] obtain b' where b': "buckets l' p = Some b'" "lastCheck b' = now"
      "of_bool ok + tokens b' \<le> of_int (burst l) * (1 + eps)"
      "of_bool ok + tokens b' \<le> avail l p now + 2 * eps * of_int (burst l)" .
  have "credit l' p now \<le> tokens b'" using b'(1,2) by (simp add: credit_def refill_def)
  moreover have "0 \<le> eps * of_int (burst l)" using assms(1) by (simp add: limiter_conf_def)
  then have "of_bool ok + tokens b' \<le> min (of_int (burst l)) (avail l p now) + 2 * eps * of_int (burst l)"
    using b'(3,4) by (simp add: min_def algebra_simps)
  ultimately show ?thesis using avail_le_credit [OF assms(1,2)] by linarith
qed

text \<open>What holds of the limiter and of a pending deletion at time \<open>t\<close>.\<close>

definition limiter_ok :: "string \<Rightarrow> gotime \<Rightarrow> limiter_run \<Rightarrow> bool" where
  "limiter_ok p t s \<longleftrightarrow>
     limiter_conf (lr_limiter s) \<and> bucket_ok p t (lr_limiter s) \<and>
     (map_option fst (lr_pending s) = Some p \<and> \<not> lr_touched s \<longrightarrow> credit (lr_limiter s) p t = of_int (burst (lr_limiter s)))"

lemma credit_mono:
  assumes "limiter_conf l" and "t \<le> t'"
  shows "credit l p t \<le> credit l p t'"
proof -
  have "refill (fillRate l) (t - c) \<le> refill (fillRate l) (t' - c)" for c
    using assms by (intro refill_mono fillRate_nonneg) auto
  then show ?thesis by (auto simp: credit_def min_def split: option.split intro: order_trans)
qed

lemma limiter_ok_mono:
  assumes "limiter_ok p t s" and "t \<le> t'"
  shows "limiter_ok p t' s"
proof -
  have "bucket_ok p t' (lr_limiter s)" using assms bucket_ok_mono by (auto simp: limiter_ok_def)
  then show ?thesis
    using assms credit_mono [of "lr_limiter s" t t' p] credit_bounds(2) [of "lr_limiter s" p t']
    by (auto simp: limiter_ok_def)
qed

lemma stale_credit:
  assumes "limiter_conf l" and "bucket_ok p t l" and "buckets l p = Some b" and "isStale now b" and "now \<le> t"
  shows "credit l p t = of_int (burst l)"
proof -
  have "staleThreshold < t - lastCheck b"
    using assms(4,5) time_Sub_le [of now "lastCheck b"] by (auto simp: isStale_def staleThreshold_def duration_defs time_Sub_def)
  then have d: "300 \<le> (of_int (t - lastCheck b) / 1000000000 :: rat)"
    by (simp add: staleThreshold_def duration_defs)
  have "of_int (burst l) = of_int (burst l) / 300 * (300 :: rat)" by simp
  also have "\<dots> \<le> fillRate l * (of_int (t - lastCheck b) / 1000000000)"
    using d assms(1) by (intro mult_mono) (auto simp: fillRate_def limiter_conf_def)
  also have "\<dots> \<le> refill (fillRate l) (t - lastCheck b)"
    unfolding refill_def using d fillRate_nonneg [OF assms(1)]
      mult_left_mono [of 1 "(1 + eps) ^ 4" "fillRate l * (of_int (t - lastCheck b) / 1000000000)"]
    by (simp add: one_le_power)
  finally show ?thesis using assms(2,3) by (simp add: credit_def bucket_ok_def)
qed

lemma CompareAndDelete_conf [simp]:
  "rate (CompareAndDelete k ref l) = rate l" "burst (CompareAndDelete k ref l) = burst l"
  by (simp_all add: CompareAndDelete_def split: option.split)

lemma CompareAndDelete_bucket:
  "buckets (CompareAndDelete k ref l) p = buckets l p \<or> p = k \<and> buckets (CompareAndDelete k ref l) p = None"
  by (simp add: CompareAndDelete_def split: option.split)

lemma limiter_step_conf [simp]:
  "rate (lr_limiter (limiter_step a s)) = rate (lr_limiter s)"
  "burst (lr_limiter (limiter_step a s)) = burst (lr_limiter s)"
  by (cases a; simp add: token_Allow_conf split: option.split)+

lemma limiter_ok_step:
  assumes "limiter_ok p t s"
  shows "t \<le> now \<Longrightarrow> limiter_ok p now (limiter_step (Call now q) s)"
    and "limiter_ok p (max t now) (limiter_step (Visit now key) s)"
    and "limiter_ok p t (limiter_step Remove s)"
proof -
  let ?l = "lr_limiter s"
  have ok: "limiter_conf ?l" "bucket_ok p t ?l" using assms by (simp_all add: limiter_ok_def)
  show "limiter_ok p now (limiter_step (Call now q) s)" if "t \<le> now"
  proof -
    have now: "limiter_ok p now s" by (rule limiter_ok_mono [OF assms that])
    then have "limiter_conf (snd (token_Allow now q ?l))" "bucket_ok p now (snd (token_Allow now q ?l))"
      by (auto simp: limiter_ok_def intro: limiter_conf_Allow bucket_ok_Allow)
    then show ?thesis
      using now by (auto simp: limiter_ok_def token_Allow_conf credit_other)
  qed
  show "limiter_ok p (max t now) (limiter_step (Visit now key) s)"
  proof -
    have "bucket_ok p (max t now) ?l" by (rule bucket_ok_mono [OF ok(2)]) simp
    then show ?thesis
      using ok stale_credit [OF ok(1), of p "max t now" _ now]
      by (auto simp: limiter_ok_def split: option.splits if_splits)
  qed
  show "limiter_ok p t (limiter_step Remove s)"
  proof (cases "lr_pending s")
    case (Some kr)
    obtain k ref where "kr = (k, ref)" by (cases kr)
    moreover have "bucket_ok p t (CompareAndDelete k ref ?l)"
      using ok(2) CompareAndDelete_bucket [of k ref ?l p] by (auto simp: bucket_ok_def)
    ultimately show ?thesis using ok(1) Some by (simp add: limiter_ok_def limiter_conf_def)
  qed (use assms in simp)
qed

lemma credit_Remove:
  assumes "limiter_ok p t s"
  shows "credit (lr_limiter (limiter_step Remove s)) p t \<le>
    credit (lr_limiter s) p t + of_bool (raced p Remove s) * of_int (burst (lr_limiter s))"
proof (cases "lr_pending s")
  case (Some kr)
  obtain k ref where kr: "kr = (k, ref)" by (cases kr)
  let ?l = "lr_limiter s" and ?l' = "CompareAndDelete k ref (lr_limiter s)"
  have ok: "limiter_conf ?l" "bucket_ok p t ?l" using assms by (simp_all add: limiter_ok_def)
  consider "buckets ?l' p = buckets ?l p" | "p = k" "buckets ?l' p = None"
    using CompareAndDelete_bucket [of k ref ?l p] by auto
  then show ?thesis
  proof cases
    case 1
    then have "credit ?l' p t = credit ?l p t" by (simp add: credit_def fillRate_def split: option.split)
    then show ?thesis using Some kr ok(1) by (simp add: limiter_conf_def)
  next
    case 2
    then have "credit ?l' p t = of_int (burst ?l)" by (simp add: credit_def)
    then show ?thesis
      using Some kr 2 assms credit_bounds(1) [OF ok] by (auto simp: limiter_ok_def)
  qed
qed simp

lemma timely_calls: "timely t as \<Longrightarrow> Call now q \<in> set as \<Longrightarrow> t \<le> now"
  by (induction t as rule: timely.induct) auto

lemma tally_no_calls: "(\<And>now q. Call now q \<notin> set as) \<Longrightarrow> tally (granted p) as s = 0"
proof (induction as arbitrary: s)
  case (Cons a as)
  then show ?case by (cases a) auto
qed simp

text \<open>Slack for the roundings of \<open>n\<close> actions.\<close>

definition slack :: "Limiter \<Rightarrow> nat \<Rightarrow> rat" where
  "slack l n = of_nat n * (2 * eps * of_int (burst l))"

lemma slack_nonneg: "limiter_conf l \<Longrightarrow> 0 \<le> slack l n"
  by (simp add: limiter_conf_def slack_def)

text \<open>The bound from a state on: the credit, the refill until \<open>t1\<close>, and a burst for every race.\<close>

definition budget :: "string \<Rightarrow> gotime \<Rightarrow> limiter_action list \<Rightarrow> gotime \<Rightarrow> limiter_run \<Rightarrow> rat" where
  "budget p t1 as t s =
     credit (lr_limiter s) p t + refill (fillRate (lr_limiter s)) (t1 - t) +
     of_nat (tally (raced p) as s) * of_int (burst (lr_limiter s)) + slack (lr_limiter s) (length as)"

lemma slack_step [simp]: "slack (lr_limiter (limiter_step a s)) n = slack (lr_limiter s) n"
  "fillRate (lr_limiter (limiter_step a s)) = fillRate (lr_limiter s)"
  by (simp_all add: slack_def fillRate_def)

lemma budget_later:
  assumes "limiter_ok p t s" and "t \<le> t'"
  shows "budget p t1 as t' s \<le> budget p t1 as t s"
proof -
  have "refill (fillRate (lr_limiter s)) (t1 - t) =
      refill (fillRate (lr_limiter s)) (t' - t) + refill (fillRate (lr_limiter s)) (t1 - t')"
    using refill_add [of "fillRate (lr_limiter s)" "t' - t" "t1 - t'"] by simp
  moreover have "credit (lr_limiter s) p t' \<le> credit (lr_limiter s) p t + refill (fillRate (lr_limiter s)) (t' - t)"
    using assms by (intro credit_later) (simp_all add: limiter_ok_def)
  ultimately show ?thesis unfolding budget_def by linarith
qed

lemma budget_nonneg:
  assumes "limiter_ok p t s" and "t \<le> t1"
  shows "0 \<le> budget p t1 as t s"
  using assms credit_bounds(1) [of "lr_limiter s" p t] refill_nonneg [OF fillRate_nonneg, of "lr_limiter s" "t1 - t"]
    slack_nonneg [of "lr_limiter s" "length as"]
  by (auto simp: budget_def limiter_ok_def limiter_conf_def intro!: add_nonneg_nonneg mult_nonneg_nonneg)

lemma budget_step:
  assumes "limiter_ok p t s"
  shows "t \<le> now \<Longrightarrow> of_bool (granted p (Call now q) s) + budget p t1 as now (limiter_step (Call now q) s) \<le>
      budget p t1 (Call now q # as) t s"
    and "budget p t1 as (max t now) (limiter_step (Visit now key) s) \<le> budget p t1 (Visit now key # as) t s"
    and "budget p t1 as t (limiter_step Remove s) \<le> budget p t1 (Remove # as) t s"
proof -
  let ?l = "lr_limiter s"
  have ok: "limiter_conf ?l" "bucket_ok p t ?l" using assms by (simp_all add: limiter_ok_def)
  have sl: "slack ?l (Suc n) = slack ?l n + 2 * eps * of_int (burst ?l)" "0 \<le> 2 * eps * of_int (burst ?l)" for n
    using ok(1) by (simp_all add: slack_def algebra_simps limiter_conf_def)
  show "of_bool (granted p (Call now q) s) + budget p t1 as now (limiter_step (Call now q) s) \<le>
      budget p t1 (Call now q # as) t s" if "t \<le> now"
  proof -
    have now: "bucket_ok p now ?l" by (rule bucket_ok_mono [OF ok(2) that])
    have "of_bool (granted p (Call now q) s) + credit (snd (token_Allow now q ?l)) p now \<le>
        credit ?l p now + 2 * eps * of_int (burst ?l)"
    proof (cases "q = p")
      case True
      then show ?thesis using credit_Allow [OF ok(1) now, of "fst (token_Allow now p ?l)"] by simp
    next
      case False
      then show ?thesis using sl(2) by (simp add: credit_other)
    qed
    moreover have "budget p t1 (Call now q # as) now s \<le> budget p t1 (Call now q # as) t s"
      by (rule budget_later [OF assms that])
    ultimately show ?thesis
      using sl(1) slack_step [of "Call now q" s] by (simp add: budget_def token_Allow_conf)
  qed
  have "budget p t1 (Visit now key # as) (max t now) s \<le> budget p t1 (Visit now key # as) t s"
    by (rule budget_later [OF assms]) simp
  then show "budget p t1 as (max t now) (limiter_step (Visit now key) s) \<le> budget p t1 (Visit now key # as) t s"
    using sl by (simp add: budget_def)
  show "budget p t1 as t (limiter_step Remove s) \<le> budget p t1 (Remove # as) t s"
  proof -
    let ?s = "limiter_step Remove s"
    have "budget p t1 as t ?s = credit (lr_limiter ?s) p t + refill (fillRate ?l) (t1 - t) +
        of_nat (tally (raced p) as ?s) * of_int (burst ?l) + slack ?l (length as)"
      by (simp add: budget_def del: limiter_step.simps)
    moreover have "budget p t1 (Remove # as) t s = credit ?l p t + refill (fillRate ?l) (t1 - t) +
        (of_bool (raced p Remove s) * of_int (burst ?l) + of_nat (tally (raced p) as ?s) * of_int (burst ?l)) +
        slack ?l (Suc (length as))"
      by (simp add: budget_def distrib_right del: limiter_step.simps raced.simps)
    ultimately show ?thesis using credit_Remove [OF assms] sl(1) [of "length as"] sl(2) by linarith
  qed
qed

lemma tally_budget:
  assumes "limiter_ok p t s" and "timely t as" and "t \<le> t1" and "\<And>now q. Call now q \<in> set as \<Longrightarrow> now \<le> t1"
  shows "of_nat (tally (granted p) as s) \<le> budget p t1 as t s"
  using assms
proof (induction as arbitrary: t s)
  case Nil
  then show ?case using budget_nonneg by simp
next
  case (Cons a as)
  show ?case
  proof (cases a)
    case (Call now q)
    then have now: "t \<le> now" "timely now as" "now \<le> t1" using Cons.prems(2,4) by auto
    have "of_nat (tally (granted p) as (limiter_step a s)) \<le> budget p t1 as now (limiter_step a s)"
      using limiter_ok_step(1) [OF Cons.prems(1) now(1)] now Cons.prems(4) Call by (intro Cons.IH) auto
    then show ?thesis using budget_step(1) [OF Cons.prems(1) now(1), of q t1 as] Call by simp
  next
    case (Visit now key)
    show ?thesis
    proof (cases "max t now \<le> t1")
      case True
      then have "of_nat (tally (granted p) as (limiter_step a s)) \<le> budget p t1 as (max t now) (limiter_step a s)"
        using limiter_ok_step(2) [OF Cons.prems(1)] Cons.prems(2,4) Visit by (intro Cons.IH) auto
      then show ?thesis using budget_step(2) [OF Cons.prems(1), of t1 as now key] Visit by simp
    next
      case False
      have "Call now' q \<notin> set as" for now' q
        using timely_calls [of "max t now" as now' q] Cons.prems(2,4) Visit False by force
      then show ?thesis
        using tally_no_calls [of as p] budget_nonneg [OF Cons.prems(1,3)] Visit by simp
    qed
  next
    case Remove
    then have "of_nat (tally (granted p) as (limiter_step a s)) \<le> budget p t1 as t (limiter_step a s)"
      using limiter_ok_step(3) [OF Cons.prems(1)] Cons.prems(2-4) by (intro Cons.IH) auto
    then show ?thesis using budget_step(3) [OF Cons.prems(1), of t1 as] Remove by simp
  qed
qed

text \<open>The clock after a run.\<close>

fun clockAfter :: "gotime \<Rightarrow> limiter_action list \<Rightarrow> gotime" where
  "clockAfter t [] = t"
| "clockAfter t (Call now prin # as) = clockAfter now as"
| "clockAfter t (Visit now key # as) = clockAfter (max t now) as"
| "clockAfter t (Remove # as) = clockAfter t as"

lemma timely_append: "timely t (as @ bs) \<longleftrightarrow> timely t as \<and> timely (clockAfter t as) bs"
  by (induction t as rule: timely.induct) auto

lemma timely_raise: "timely t as \<Longrightarrow> (\<And>now q. Call now q \<in> set as \<Longrightarrow> t' \<le> now) \<Longrightarrow> timely (max t t') as"
proof (induction t as rule: timely.induct)
  case (2 t now prin as)
  then show ?case by (auto simp: max_def)
next
  case (3 t now key as)
  then have "timely (max (max t now) t') as" by auto
  then show ?case by (simp add: max.commute max.left_commute)
qed auto

lemma limiter_ok_run:
  assumes "limiter_ok p t s" and "timely t as"
  shows "limiter_ok p (clockAfter t as) (fold limiter_step as s)"
  using assms
proof (induction t as arbitrary: s rule: timely.induct)
  case (2 t now prin as)
  then show ?case using limiter_ok_step(1) [OF "2.prems"(1)] by simp
next
  case (3 t now key as)
  then show ?case using limiter_ok_step(2) [OF "3.prems"(1)] by simp
next
  case (4 t as)
  then show ?case using limiter_ok_step(3) [OF "4.prems"(1)] by simp
qed simp

lemma fold_limiter_conf:
  "rate (lr_limiter (fold limiter_step as s)) = rate (lr_limiter s)"
  "burst (lr_limiter (fold limiter_step as s)) = burst (lr_limiter s)"
  by (induction as arbitrary: s) simp_all

section \<open>Properties\<close>

text \<open>
  C26: the rate limit holds for every principal over every stretch of time, whatever the background
  cleanup does, up to rounding and races.  In a run of the limiter from its start, with any interleaving
  of calls by all principals and of the visits and deletions of the cleanup, and a monotone clock, the
  number of requests of one principal that are let through in a contiguous stretch of actions, whose calls
  lie between \<open>t0\<close> and \<open>t1\<close>, is at most the burst size plus the duration times the rate, or times the
  rate that fills a bucket within the five minutes of \<^verbatim>\<open>staleThreshold\<close> if that is larger, because a
  bucket that was idle for longer is replaced by a full one.  Each deletion of its bucket in the
  stretch that raced with a call of the principal adds one burst size at most.  The rounding of \<^verbatim>\<open>float64\<close> adds
  at most a factor \<open>(1 + 2\<^sup>-\<^sup>5\<^sup>3)\<^sup>4\<close> on the refill and \<open>2\<^sup>-\<^sup>5\<^sup>2\<close> burst sizes per action.
\<close>

theorem token_window_bound:
  assumes "0 \<le> rt" and "0 \<le> bst" and "bst < 2 ^ 53" and "timely t (pre @ seg)"
    and "\<And>now q. Call now q \<in> set seg \<Longrightarrow> t0 \<le> now \<and> now \<le> t1" and "t0 \<le> t1"
  shows "of_nat (tally (granted p) seg (fold limiter_step pre (limiter_start rt bst))) \<le>
    of_int bst + max rt (of_int bst / 300) * (of_int (t1 - t0) / 1000000000) * (1 + 1 / 2 ^ 53) ^ 4 +
    of_nat (tally (raced p) seg (fold limiter_step pre (limiter_start rt bst))) * of_int bst +
    of_nat (length seg) * of_int bst / (2 ^ 52 :: rat)"
proof -
  let ?s = "fold limiter_step pre (limiter_start rt bst)" and ?t = "max (clockAfter t pre) t0"
  have "limiter_ok p t (limiter_start rt bst)"
    using assms(1-3) by (simp add: limiter_ok_def limiter_start_def token_New_def limiter_conf_def bucket_ok_def)
  then have ok: "limiter_ok p ?t ?s"
    using assms(4) by (intro limiter_ok_mono [OF limiter_ok_run]) (auto simp: timely_append)
  have conf: "rate (lr_limiter ?s) = rt" "burst (lr_limiter ?s) = bst"
    by (simp_all add: fold_limiter_conf limiter_start_def token_New_def)
  have time: "timely ?t seg" using assms(4,5) by (intro timely_raise) (auto simp: timely_append)
  let ?r = "fillRate (lr_limiter ?s)"
  have pos: "0 \<le> ?r" using ok by (simp add: limiter_ok_def fillRate_nonneg)
  have "of_nat (tally (granted p) seg ?s) \<le>
      of_int bst + refill ?r (t1 - t0) + of_nat (tally (raced p) seg ?s) * of_int bst + slack (lr_limiter ?s) (length seg)"
  proof (cases "?t \<le> t1")
    case True
    have "of_nat (tally (granted p) seg ?s) \<le> budget p t1 seg ?t ?s"
      using assms(5) True by (intro tally_budget [OF ok time]) auto
    moreover have "credit (lr_limiter ?s) p ?t \<le> of_int bst"
      using ok credit_bounds(2) [of "lr_limiter ?s" p ?t] conf by (simp add: limiter_ok_def)
    moreover have "refill ?r (t1 - ?t) \<le> refill ?r (t1 - t0)" by (intro refill_mono pos) simp
    ultimately show ?thesis by (simp add: budget_def conf)
  next
    case False
    then have "tally (granted p) seg ?s = 0"
      using timely_calls [OF time] assms(5) by (intro tally_no_calls) force
    moreover have "0 \<le> refill ?r (t1 - t0)" using assms(6) pos by (intro refill_nonneg) simp_all
    moreover have "0 \<le> slack (lr_limiter ?s) (length seg)" using ok by (simp add: limiter_ok_def slack_nonneg)
    ultimately show ?thesis using assms(2) by simp
  qed
  then show ?thesis by (simp add: refill_def fillRate_def slack_def conf eps_def)
qed

fun runCalls :: "(gotime \<times> string) list \<Rightarrow> Limiter \<Rightarrow> Limiter" where
  "runCalls [] l = l"
| "runCalls ((now, q) # calls) l = runCalls calls (snd (token_Allow now q l))"

lemma runCalls_ok:
  assumes "limiter_conf l" and "bucket_ok p t l" and "sorted (t # map fst calls)"
    and "\<forall>c \<in> set calls. fst c \<le> t'" and "t \<le> t'"
  shows "limiter_conf (runCalls calls l) \<and> bucket_ok p t' (runCalls calls l) \<and>
         rate (runCalls calls l) = rate l \<and> burst (runCalls calls l) = burst l"
  using assms
proof (induction calls arbitrary: l t)
  case (Cons c calls)
  obtain now q where c: "c = (now, q)" by (cases c)
  have "bucket_ok p now (snd (token_Allow now q l))"
    using Cons.prems c by (intro bucket_ok_Allow bucket_ok_mono [OF Cons.prems(2)]) auto
  then show ?case
    using Cons.IH [of "snd (token_Allow now q l)" now] limiter_conf_Allow [OF Cons.prems(1)]
      Cons.prems(3-5) c by (simp add: token_Allow_conf)
qed (auto intro: bucket_ok_mono)

text \<open>
  Principals do not influence each other.  The answers that one principal gets in any
  interleaving of calls are those it would get if it were alone.
\<close>

theorem token_isolation:
  "answersOf token_Allow p calls l = answersOf token_Allow p (filter (\<lambda>c. snd c = p) calls) l"
  by (rule token.answers_isolated) (rule refl)

lemma cleanup_bucket:
  "rate (cleanup t keys l) = rate l" "burst (cleanup t keys l) = burst l"
  "buckets (cleanup t keys l) p =
     (case buckets l p of
        None \<Rightarrow> None
      | Some b \<Rightarrow> if p \<in> set keys \<and> isStale t b then None else Some b)"
  by (induction keys arbitrary: l) (auto simp: CompareAndDelete_def split: option.split)

text \<open>The background goroutine only removes a bucket that is stale at one of its ticks.\<close>

lemma cleanupLoop_keeps:
  "buckets l p = Some b \<Longrightarrow> (\<And>now keys. Tick now keys \<in> set es \<Longrightarrow> \<not> isStale now b) \<Longrightarrow>
   buckets (cleanupLoop es l) p = Some b"
proof (induction es l rule: cleanupLoop.induct)
  case (3 now keys es l)
  have "\<not> isStale now b" using 3(3) [of now keys] by simp
  then have "buckets (cleanup now keys l) p = Some b" using 3(2) by (simp add: cleanup_bucket)
  then show ?case using 3(1,3) by (metis cleanupLoop.simps(3) list.set_intros(2))
qed simp_all

lemma Seconds_stale:
  assumes "staleThreshold < d" and "d \<le> maxDuration"
  shows "300 \<le> Seconds d"
proof -
  have d: "0 < d" "300 * Second < d" using assms(1) by (simp_all add: staleThreshold_def duration_defs)
  have s: "300 \<le> d div Second" "d div Second < 2 ^ 53" "0 \<le> d mod Second"
    using d assms(2) by (auto simp: Second_def maxDuration_def intro: le_less_trans [OF zdiv_mono1 [OF assms(2)]])
  have f: "0 \<le> f64 (f64 (of_int (d mod Second)) / 1000000000)"
    using s(3) by (intro f64_nonneg divide_nonneg_nonneg) auto
  have "(300 :: rat) \<le> of_int (d div Second)"
    using s(1) by linarith
  then have "(300 :: rat) \<le> of_int (d div Second) + f64 (f64 (of_int (d mod Second)) / 1000000000)"
    using f by linarith
  then have "f64 300 \<le> f64 (of_int (d div Second) + f64 (f64 (of_int (d mod Second)) / 1000000000))"
    by (intro f64_mono) auto
  moreover have "f64 300 = (300 :: rat)" using f64_of_int [of 300] by simp
  ultimately show ?thesis using d s by (simp add: Seconds_def)
qed

lemma stale_full:
  assumes "0 \<le> bst" and "bst < 2 ^ 53" and "of_int bst \<le> 300 * rt" and "0 \<le> tokens b"
    and "staleThreshold < time_Sub now (lastCheck b)"
  shows "of_int bst \<le> refilled rt now b"
proof -
  let ?el = "Seconds (time_Sub now (lastCheck b))"
  have el: "300 \<le> ?el"
    using assms(5) by (intro Seconds_stale) (simp_all add: time_Sub_def duration_defs)
  have "0 \<le> 300 * rt" using assms(1,3) by (meson of_int_0_le_iff order_trans)
  then have "0 \<le> rt" by simp
  then have "of_int bst \<le> ?el * rt"
    using assms(3) mult_right_mono [OF el] by fastforce
  then have "of_int bst \<le> f64 (?el * rt)"
    using f64_mono [of "of_int bst" "?el * rt"] assms(1,2) by simp
  then have "f64 (of_int bst) \<le> refilled rt now b"
    unfolding refilled_def using assms(1,4) by (intro f64_mono) auto
  then show ?thesis using assms(1,2) by simp
qed

lemma takeToken_full:
  assumes "0 \<le> bst" and "bst < 2 ^ 53" and "of_int bst \<le> refilled rt now b"
  shows "takeToken rt bst now b =
    (1 \<le> bst, b\<lparr>tokens := (if 1 \<le> bst then f64 (of_int bst - 1) else of_int bst), lastCheck := now\<rparr>)"
proof -
  have f: "f64 (of_int bst) = of_int bst" by (rule f64_small_int [OF assms(1,2)])
  have tk: "(if refilled rt now b > of_int bst then of_int bst else refilled rt now b) = of_int bst"
    using assms(3) by simp
  have lt: "(of_int bst :: rat) < 1 \<longleftrightarrow> \<not> 1 \<le> bst" by linarith
  show ?thesis
    unfolding takeToken_def Let_def refilled_def [symmetric] f tk lt by (cases b) simp
qed

lemma refilled_fresh:
  assumes "0 \<le> bst" and "bst < 2 ^ 53"
  shows "refilled rt now \<lparr>b_ref = i, tokens = of_int bst, lastCheck = now\<rparr> = of_int bst"
  using assms by (simp add: refilled_def Seconds_def)

text \<open>
  Evicting idle buckets is invisible, provided that a bucket refills within the five minutes
  of \<^verbatim>\<open>staleThreshold\<close>: after a cleanup at time \<open>t\<close> every principal gets the answers it would have
  got without it.
\<close>

theorem eviction_invisible:
  assumes "0 \<le> burst l" and "burst l < 2 ^ 53" and "of_int (burst l) \<le> 300 * rate l"
    and "\<And>b. buckets l p = Some b \<Longrightarrow> 0 \<le> tokens b" and "\<forall>c \<in> set calls. t \<le> fst c"
  shows "answersOf token_Allow p calls (cleanup t keys l) = answersOf token_Allow p calls l"
proof -
  note alone = token.answers_isolated [OF refl, of p]
  show ?thesis
  proof (cases "buckets (cleanup t keys l) p = buckets l p")
    case True
    then have "token_view (cleanup t keys l) p = token_view l p"
      by (simp add: token_view_def cleanup_bucket)
    then show ?thesis
      using token.answers_isolated [of "cleanup t keys l" p l calls] alone [of calls l] by simp
  next
    case False
    then obtain b where b: "buckets l p = Some b" "isStale t b" "buckets (cleanup t keys l) p = None"
      by (auto simp: cleanup_bucket split: option.splits if_split_asm)
    show ?thesis
    proof (cases "filter (\<lambda>c. snd c = p) calls")
      case Nil
      then show ?thesis
        using alone [of calls l] alone [of calls "cleanup t keys l"] by simp
    next
      case (Cons c cs)
      have "snd c = p" "c \<in> set calls" using Cons by (auto simp: filter_eq_Cons_iff)
      then obtain now where c: "c = (now, p)" "(now, p) \<in> set calls"
        by (metis prod.collapse)
      have "staleThreshold < time_Sub now (lastCheck b)"
        using b(2) c(2) assms(5) time_Sub_mono [of t now "lastCheck b"] by (force simp: isStale_def)
      from stale_full [OF assms(1-3) assms(4) [OF b(1)] this]
      have full: "of_int (burst l) \<le> refilled (rate l) now b" .
      note fresh = takeToken_full [OF assms(1,2), of "rate l" now, OF eq_refl, OF refilled_fresh [OF assms(1,2), symmetric]]
      have same: "fst (token_Allow now p (cleanup t keys l)) = fst (token_Allow now p l)"
          "token_view (snd (token_Allow now p (cleanup t keys l))) p = token_view (snd (token_Allow now p l)) p"
        using b by (simp_all add: token_Allow_def token_LoadOrStore_def token_view_def cleanup_bucket(1,2) Let_def
            f64_small_int [OF assms(1,2)] takeToken_full [OF assms(1,2) full] fresh)
      have "answersOf token_Allow p cs (snd (token_Allow now p (cleanup t keys l))) =
          answersOf token_Allow p cs (snd (token_Allow now p l))"
        using token.answers_isolated [OF same(2), of cs] alone [of cs "snd (token_Allow now p l)"]
        by simp
      then show ?thesis
        unfolding alone [of calls] Cons c using same(1)
        by (simp add: case_prod_unfold Let_def)
    qed
  qed
qed

text \<open>
  Finding: without the proviso an exhausted principal gets a full burst again by being idle for
  five minutes, and a bucket refreshed between the staleness read and the delete is deleted
  nevertheless, because \<^verbatim>\<open>CompareAndDelete\<close> compares the pointer, which \<^verbatim>\<open>Allow\<close> does not change.
\<close>

lemma refreshed_bucket_deleted:
  assumes "buckets l p = Some b"
  shows "buckets (CompareAndDelete p (b_ref b) (snd (token_Allow now p l))) p = None"
  using assms
  by (simp add: token_Allow_def token_LoadOrStore_def takeToken_def CompareAndDelete_def Let_def)

text \<open>
  The middleware forwards a request exactly when its principal is empty or the limiter
  admits it; a refused request gets 429 with \<^verbatim>\<open>Retry-After: 1\<close>, and in both cases the limiter
  is asked at most once.
\<close>

theorem ratelimit_gate:
  assumes "resp_status st = None"
  shows "let out = ratelimit_Middleware allow next w r st; p = c_principal (r_ctx r)
         in if p = '''' then out = next w r st
            else (case allow p (global st) of
                    (True, g) \<Rightarrow> out = next w r (st\<lparr>global := g\<rparr>)
                  | (False, g) \<Rightarrow> resp_status out = Some 429 \<and> global out = g \<and>
                      header_Get (resp_header out) ''Retry-After'' = ''1'')"
proof -
  have canon: "http_CanonicalHeaderKey ''Retry-After'' \<noteq> http_CanonicalHeaderKey ''X-Content-Type-Options''"
      "http_CanonicalHeaderKey ''Retry-After'' \<noteq> http_CanonicalHeaderKey ''Content-Type''"
      "http_CanonicalHeaderKey ''Retry-After'' \<noteq> http_CanonicalHeaderKey ''Content-Length''"
    by code_simp+
  have retry: "header_Get (resp_header (http_Error w msg c (setHeader ''Retry-After'' v s))) ''Retry-After'' = v"
    for msg c v and s :: "'a rstate"
    using canon by (simp add: http_Error_def setHeader_def header_Get_Set header_Get_Del Let_def)
  have keep: "resp_status (setHeader k v s) = resp_status s" "global (setHeader k v s) = global s"
    for k v and s :: "'a rstate"
    by (simp_all add: setHeader_def)
  obtain ok g where a: "allow (c_principal (r_ctx r)) (global st) = (ok, g)"
    by (cases "allow (c_principal (r_ctx r)) (global st)")
  show ?thesis
    using assms by (cases ok) (simp_all add: ratelimit_Middleware_def context_defs Let_def a retry keep)
qed


section \<open>Witnesses\<close>

theorem token_window_bound_witness:
  "let s = fold limiter_step [Call 0 ''alice'', Visit 400000000000 ''alice''] (limiter_start 1 1);
       seg = [Call 400000000000 ''alice'', Remove, Call 400000000000 ''alice'']
   in of_nat (tally (granted ''alice'') seg s) \<le> (1 :: rat) + of_nat (tally (raced ''alice'') seg s) + 3 / 2 ^ 52"
proof -
  define pre where "pre = [Call 0 ''alice'', Visit 400000000000 ''alice'']"
  define seg where "seg = [Call 400000000000 ''alice'', Remove, Call 400000000000 ''alice'']"
  have "timely 0 (pre @ seg)" "length seg = 3" by (simp_all add: pre_def seg_def)
  moreover have "400000000000 \<le> now \<and> now \<le> (400000000000 :: int)" if "Call now q \<in> set seg" for now q
    using that by (auto simp: seg_def)
  ultimately show ?thesis
    unfolding Let_def pre_def [symmetric] seg_def [symmetric]
    using token_window_bound [of 1 1 0 pre seg 400000000000 400000000000 "''alice''"] by simp
qed

theorem eviction_invisible_witness:
  "answersOf token_Allow ''alice'' [(400000000000, ''alice'')]
     (cleanup 400000000000 [''alice''] (runCalls [(0, ''alice'')] (token_New 1 1))) =
   answersOf token_Allow ''alice'' [(400000000000, ''alice'')] (runCalls [(0, ''alice'')] (token_New 1 1))"
proof (rule eviction_invisible)
  let ?l = "runCalls [(0, ''alice'')] (token_New 1 1)"
  have run: "limiter_conf ?l \<and> bucket_ok ''alice'' 0 ?l \<and> rate ?l = 1 \<and> burst ?l = 1"
  proof -
    have "limiter_conf (token_New 1 1)" "bucket_ok ''alice'' 0 (token_New 1 1)"
        "rate (token_New 1 1) = 1" "burst (token_New 1 1) = 1"
      by (simp_all add: limiter_conf_def bucket_ok_def token_New_def)
    then show ?thesis
      using runCalls_ok [of "token_New 1 1" "''alice''" 0 "[(0, ''alice'')]" 0] by simp
  qed
  then show "0 \<le> burst ?l" "burst ?l < 2 ^ 53" "of_int (burst ?l) \<le> 300 * rate ?l" by simp_all
  show "0 \<le> tokens b" if "buckets ?l ''alice'' = Some b" for b
    using run that by (simp add: bucket_ok_def)
qed simp

theorem ratelimit_gate_witness:
  "resp_status (ratelimit_Middleware (\<lambda>p g. (False, g)) (\<lambda>w r st. Write w ''ok'' st) RawWriter
     \<lparr>r_Method = ''GET'', r_Scheme = [], r_Host = [], r_Path = ''/'', r_RawQuery = [], r_Header = [],
      r_Body = NoBody, r_ContentLength = 0, r_RemoteAddr = [], r_ctx = WithPrincipal Background ''alice''\<rparr>
     (freshState ())) = Some 429"
  using ratelimit_gate [of "freshState ()" "\<lambda>p g. (False, g)" "\<lambda>w r st. Write w ''ok'' st" RawWriter
     "\<lparr>r_Method = ''GET'', r_Scheme = [], r_Host = [], r_Path = ''/'', r_RawQuery = [], r_Header = [],
      r_Body = NoBody, r_ContentLength = 0, r_RemoteAddr = [], r_ctx = WithPrincipal Background ''alice''\<rparr>"]
  by (simp add: freshState_def context_defs Let_def)

end
