(* ===== verification/Httproute.thy ===== *)
theory Httproute
  imports Prelude
begin

text \<open>
  Route templates for metric labels and span names, \<^verbatim>\<open>src/internal/httproute/normalize.go\<close>.
\<close>

definition OtherPath :: string where
  "OtherPath = ''/other''"

definition knownFixedPaths :: "string list" where
  "knownFixedPaths = [''healthz'', ''readyz'', ''metrics'']"

definition zoneTailActions :: "string list" where
  "zoneTailActions = [''export'', ''notify'', ''axfr-retrieve'', ''rectify'']"

text \<open>The loop that removes empty trailing parts.\<close>

function dropTrailingEmpty :: "string list \<Rightarrow> string list" where
  "dropTrailingEmpty parts =
     (if parts \<noteq> [] \<and> last parts = '''' then dropTrailingEmpty (butlast parts) else parts)"
  by auto
termination by (relation "measure length") auto

declare dropTrailingEmpty.simps [simp del]

definition rejoin :: "string list \<Rightarrow> string" where
  "rejoin parts = ''/'' @ strings_Join parts ''/''"

text \<open>What \<^verbatim>\<open>Normalize\<close> does with the parts of the path.\<close>

definition routeOf :: "string list \<Rightarrow> string" where
  "routeOf parts =
        (if parts = [] then ''/''
         else if length parts = 1 \<and> parts ! 0 \<in> set knownFixedPaths then ''/'' @ parts ! 0
         else if length parts < 3 \<or> parts ! 0 \<noteq> ''api'' \<or> parts ! 1 \<noteq> ''v1'' \<or> parts ! 2 \<noteq> ''servers''
         then OtherPath
         else if length parts = 3 then ''/api/v1/servers''
         else
           (let parts = parts[3 := '':server_id'']
            in if length parts = 4 then rejoin parts
               else if parts ! 4 \<noteq> ''zones'' then
                 (if length parts = 5 then rejoin parts else OtherPath)
               else if length parts = 5 then rejoin parts
               else
                 (let parts = parts[5 := '':zone_id'']
                  in if length parts = 6 then rejoin parts
                     else
                       (let tail = parts ! 6
                        in if tail \<in> set zoneTailActions \<and> length parts = 7 then rejoin parts
                           else if tail = ''cryptokeys'' then
                             (if length parts = 7 then rejoin parts
                              else if length parts = 8 then rejoin (parts[7 := '':cryptokey_id''])
                              else OtherPath)
                           else if tail = ''metadata'' then
                             (if length parts = 7 then rejoin parts
                              else if length parts = 8 then rejoin (parts[7 := '':kind''])
                              else OtherPath)
                           else OtherPath))))"

definition Normalize :: "string \<Rightarrow> string" where
  "Normalize path =
     routeOf (dropTrailingEmpty (strings_Split (strings_TrimPrefix path ''/'') CHR ''/''))"

text \<open>The templates that the documentation of \<^verbatim>\<open>Normalize\<close> lists.\<close>

definition templates :: "string list" where
  "templates =
     [''/'', ''/healthz'', ''/readyz'', ''/metrics'', ''/other'', ''/api/v1/servers'',
      ''/api/v1/servers/:server_id'', ''/api/v1/servers/:server_id/zones'',
      ''/api/v1/servers/:server_id/zones/:zone_id'',
      ''/api/v1/servers/:server_id/zones/:zone_id/export'',
      ''/api/v1/servers/:server_id/zones/:zone_id/notify'',
      ''/api/v1/servers/:server_id/zones/:zone_id/axfr-retrieve'',
      ''/api/v1/servers/:server_id/zones/:zone_id/rectify'',
      ''/api/v1/servers/:server_id/zones/:zone_id/cryptokeys'',
      ''/api/v1/servers/:server_id/zones/:zone_id/cryptokeys/:cryptokey_id'',
      ''/api/v1/servers/:server_id/zones/:zone_id/metadata'',
      ''/api/v1/servers/:server_id/zones/:zone_id/metadata/:kind'']"

lemma dropTrailingEmpty_spec:
  "set (dropTrailingEmpty parts) \<subseteq> set parts \<and>
   (dropTrailingEmpty parts = [] \<or> last (dropTrailingEmpty parts) \<noteq> [])"
proof (induction parts rule: dropTrailingEmpty.induct)
  case (1 parts)
  show ?case
  proof (cases "parts \<noteq> [] \<and> last parts = []")
    case True
    then show ?thesis
      using 1 dropTrailingEmpty.simps [of parts] by (auto dest: in_set_butlastD)
  next
    case False
    then show ?thesis
      using dropTrailingEmpty.simps [of parts] by auto
  qed
qed

lemma dropTrailingEmpty_id: "parts \<noteq> [] \<Longrightarrow> last parts \<noteq> [] \<Longrightarrow> dropTrailingEmpty parts = parts"
  by (simp add: dropTrailingEmpty.simps [of parts])

text \<open>Matching on the shape of the part list.\<close>

lemma parts_cases:
  obtains "parts = []" | a where "parts = [a]" | a b where "parts = [a, b]"
    | a b c where "parts = [a, b, c]" | a b c d where "parts = [a, b, c, d]"
    | a b c d e where "parts = [a, b, c, d, e]" | a b c d e f where "parts = [a, b, c, d, e, f]"
    | a b c d e f g where "parts = [a, b, c, d, e, f, g]"
    | a b c d e f g h where "parts = [a, b, c, d, e, f, g, h]"
    | a b c d e f g h i r where "parts = a # b # c # d # e # f # g # h # i # r"
  by (metis neq_Nil_conv)

definition is_server_resource :: "string \<Rightarrow> bool" where
  "is_server_resource s \<longleftrightarrow>
     (\<exists>x. s = ''/api/v1/servers/:server_id/'' @ x \<and> x \<noteq> [] \<and> CHR ''/'' \<notin> set x)"

lemma routeOf_range:
  assumes "\<forall>p \<in> set parts. CHR ''/'' \<notin> set p" and "parts = [] \<or> last parts \<noteq> []"
  shows "routeOf parts \<in> set templates \<or> is_server_resource (routeOf parts)"
proof (cases parts rule: parts_cases)
  case (6 a b c d e)
  then show ?thesis
    using assms
    by (auto simp: routeOf_def rejoin_def templates_def OtherPath_def is_server_resource_def
        Let_def numeral_eq_Suc)
qed (simp_all add: routeOf_def rejoin_def templates_def OtherPath_def zoneTailActions_def
    knownFixedPaths_def Let_def numeral_eq_Suc)

lemma Normalize_cases: "Normalize path \<in> set templates \<or> is_server_resource (Normalize path)"
  unfolding Normalize_def
proof (rule routeOf_range)
  show "\<forall>p \<in> set (dropTrailingEmpty (strings_Split (strings_TrimPrefix path ''/'') CHR ''/'')). CHR ''/'' \<notin> set p"
    using dropTrailingEmpty_spec strings_Split_elem_nosep by blast
qed (use dropTrailingEmpty_spec in blast)

text \<open>
  Every label is one of the documented templates, or \<^verbatim>\<open>/api/v1/servers/:server_id/\<close> followed
  by a single path segment: server, zone, crypto key and metadata identifiers never reach a
  label.
\<close>

theorem Normalize_range: "Normalize path \<in> set templates \<or> is_server_resource (Normalize path)"
  by (rule Normalize_cases)

lemma Normalize_template: "t \<in> set templates \<Longrightarrow> Normalize t = t"
proof -
  have "list_all (\<lambda>t. Normalize t = t) templates" by code_simp
  then show "t \<in> set templates \<Longrightarrow> Normalize t = t" by (simp add: list_all_iff)
qed

lemma Normalize_server_resource:
  assumes "x \<noteq> []" and "CHR ''/'' \<notin> set x" and "CHR ''/'' \<notin> set sid"
  shows "Normalize (''/api/v1/servers/'' @ sid @ ''/'' @ x) = ''/api/v1/servers/:server_id/'' @ x"
proof -
  have "strings_Split (strings_TrimPrefix (''/api/v1/servers/'' @ sid @ ''/'' @ x) ''/'') CHR ''/'' =
      [''api'', ''v1'', ''servers'', sid, x]"
    using assms strings_Split_Join [of "[''api'', ''v1'', ''servers'', sid, x]" "CHR ''/''"]
    by (simp add: strings_TrimPrefix_def)
  moreover have "dropTrailingEmpty [''api'', ''v1'', ''servers'', sid, x] = [''api'', ''v1'', ''servers'', sid, x]"
    using assms(1) by (intro dropTrailingEmpty_id) auto
  ultimately show ?thesis
    by (simp add: Normalize_def routeOf_def rejoin_def Let_def numeral_eq_Suc)
qed

text \<open>Normalization is idempotent: a label is its own label.\<close>

theorem Normalize_idempotent: "Normalize (Normalize path) = Normalize path"
  using Normalize_cases [of path]
proof
  assume "is_server_resource (Normalize path)"
  then obtain x where x: "Normalize path = ''/api/v1/servers/:server_id/'' @ x" "x \<noteq> []" "CHR ''/'' \<notin> set x"
    by (auto simp: is_server_resource_def)
  show ?thesis
    using Normalize_server_resource [OF x(2,3), of "'':server_id''"] x(1) by simp
qed (rule Normalize_template)

text \<open>
  Finding: the set of labels is not bounded.  The segment after the server identifier is kept as
  it is, whatever it is, so there are infinitely many labels.
\<close>

lemma Normalize_unbounded: "infinite (range Normalize)"
proof -
  define label where "label n = ''/api/v1/servers/:server_id/'' @ replicate (Suc n) (CHR ''a'')" for n
  have "label n = Normalize (''/api/v1/servers/'' @ [] @ ''/'' @ replicate (Suc n) (CHR ''a''))" for n
    unfolding label_def by (rule Normalize_server_resource [symmetric]) auto
  then have "range label \<subseteq> range Normalize" by blast
  moreover have "inj label"
    by (intro injI) (auto simp: label_def dest: arg_cong [where f = length])
  ultimately show ?thesis
    using finite_imageD [of label UNIV] finite_subset infinite_UNIV_nat by blast
qed

end
