(* ===== verification/Plugins.thy ===== *)
theory Plugins
  imports Sdk
begin

text \<open>
  The authorization plugins that ship with the gateway and decide on method and path alone:
  \<^verbatim>\<open>src/plugins/admin\<close>, \<^verbatim>\<open>api_discovery\<close>, \<^verbatim>\<open>read_zones\<close> and \<^verbatim>\<open>zone_notify\<close>.
\<close>

definition pb_allow :: "string \<Rightarrow> AuthorizeResponse" where
  "pb_allow reason = \<lparr>ResDecision = Decision_ALLOW, ResReason = reason\<rparr>"

definition pb_deny :: "string \<Rightarrow> AuthorizeResponse" where
  "pb_deny reason = \<lparr>ResDecision = Decision_DENY, ResReason = reason\<rparr>"

section \<open>admin, api_discovery\<close>

definition admin_Authorize :: "pb_HttpRequest \<Rightarrow> AuthorizeResponse" where
  "admin_Authorize req = pb_allow ''admin: full access''"

definition api_discovery_Authorize :: "pb_HttpRequest \<Rightarrow> AuthorizeResponse" where
  "api_discovery_Authorize req =
     (if pb_Method req = ''GET'' \<and> pb_Path req = ''/api'' then pb_allow ''api_discovery: version discovery''
      else pb_deny (''api_discovery: only GET /api allowed, got '' @ pb_Method req @ '' '' @ pb_Path req))"

section \<open>read_zones\<close>

text \<open>
  The two regular expressions, anchored at both ends: the literal, and the literal followed by
  one or more bytes of \<^verbatim>\<open>[a-z0-9.-]\<close>.
\<close>

definition zones_path :: string where
  "zones_path = ''/api/v1/servers/localhost/zones''"

definition zone_char :: "char \<Rightarrow> bool" where
  "zone_char c \<longleftrightarrow> byte_in 97 122 c \<or> byte_in 48 57 c \<or> c = CHR ''.'' \<or> c = CHR ''-''"

definition match_zones :: "string \<Rightarrow> bool" where
  "match_zones p \<longleftrightarrow> p = zones_path"

definition match_zone :: "string \<Rightarrow> bool" where
  "match_zone p \<longleftrightarrow>
     strings_HasPrefix p (zones_path @ ''/'') \<and>
     (let z = drop (length zones_path + 1) p in z \<noteq> [] \<and> list_all zone_char z)"

definition allowedGetPaths :: "(string \<Rightarrow> bool) list" where
  "allowedGetPaths = [match_zones, match_zone]"

definition read_zones_Authorize :: "pb_HttpRequest \<Rightarrow> AuthorizeResponse" where
  "read_zones_Authorize req =
     (if pb_Method req \<noteq> ''GET'' then pb_deny ''read_zones: only GET is allowed''
      else if list_ex (\<lambda>re. re (pb_Path req)) allowedGetPaths
      then pb_allow ''read_zones: GET on zones endpoint''
      else pb_deny ''read_zones: path not allowed'')"

section \<open>zone_notify\<close>

definition isZoneSubpath :: "string \<Rightarrow> bool" where
  "isZoneSubpath path =
     (let parts = strings_Split (strings_TrimPrefix path ''/'') CHR ''/''
      in length parts \<ge> 6 \<and> parts ! 0 = ''api'' \<and> parts ! 1 = ''v1'' \<and> parts ! 2 = ''servers'' \<and>
         parts ! 4 = ''zones'')"

definition zone_notify_Authorize :: "pb_HttpRequest \<Rightarrow> AuthorizeResponse" where
  "zone_notify_Authorize req =
     (if pb_Method req = ''PUT'' \<and> strings_HasSuffix (pb_Path req) ''/notify'' \<and> isZoneSubpath (pb_Path req)
      then pb_allow ''zone_notify: zone notify''
      else pb_deny (''zone_notify: only PUT to zone notify allowed, got '' @ pb_Method req @ '' '' @ pb_Path req))"


section \<open>Properties\<close>

lemmas plugin_defs = pb_allow_def pb_deny_def Decision_ALLOW_def Decision_DENY_def

text \<open>
  \<^verbatim>\<open>read_zones\<close> is read-only and confined.  It allows exactly GET requests for the zone list
  of the server \<^verbatim>\<open>localhost\<close> or for one of its zones, where the zone name is a non-empty string
  of lower-case letters (bytes 97 to 122), digits (48 to 57), dots and hyphens; in particular no further path segment and no
  percent escape can follow.
\<close>

theorem read_zones_exact:
  "ResDecision (read_zones_Authorize req) = Decision_ALLOW \<longleftrightarrow>
     pb_Method req = ''GET'' \<and>
     (pb_Path req = ''/api/v1/servers/localhost/zones'' \<or>
      (\<exists>z. pb_Path req = ''/api/v1/servers/localhost/zones/'' @ z \<and> z \<noteq> [] \<and>
           (\<forall>c \<in> set z. of_char c \<in> {97 .. 122 :: int} \<union> {48 .. 57} \<or> c = CHR ''.'' \<or> c = CHR ''-'')))"
proof -
  have "match_zone p \<longleftrightarrow> (\<exists>z. p = zones_path @ ''/'' @ z \<and> z \<noteq> [] \<and> list_all zone_char z)" for p
    by (auto simp: match_zone_def strings_HasPrefix_def prefix_def Let_def)
  then show ?thesis
    by (auto simp: read_zones_Authorize_def allowedGetPaths_def match_zones_def zones_path_def plugin_defs
        list_all_iff zone_char_def byte_in_def)
qed

lemma five_or_more: "5 \<le> length xs \<Longrightarrow> \<exists>a b c d e rest. xs = [a, b, c, d, e] @ rest"
  by (auto simp: Suc_le_length_iff eval_nat_numeral)

text \<open>
  \<^verbatim>\<open>zone_notify\<close> allows only PUT requests below the zones of a server whose last segment is
  \<^verbatim>\<open>notify\<close>.
\<close>

theorem zone_notify_confined:
  assumes "ResDecision (zone_notify_Authorize req) = Decision_ALLOW"
  shows "pb_Method req = ''PUT'' \<and>
    (\<exists>sid rest. strings_Split (strings_TrimPrefix (pb_Path req) ''/'') CHR ''/'' =
       [''api'', ''v1'', ''servers'', sid, ''zones''] @ rest @ [''notify''])"
proof -
  let ?parts = "strings_Split (strings_TrimPrefix (pb_Path req) ''/'') CHR ''/''"
  have h: "pb_Method req = ''PUT''" "suffix ''/notify'' (pb_Path req)" "isZoneSubpath (pb_Path req)"
    using assms by (auto simp: zone_notify_Authorize_def plugin_defs strings_HasSuffix_def split: if_split_asm)
  obtain p where p: "pb_Path req = p @ ''/notify''" using h(2) by (auto simp: suffix_def)
  have len: "6 \<le> length ?parts" and nth: "?parts ! 0 = ''api''" "?parts ! 1 = ''v1''" "?parts ! 2 = ''servers''"
      "?parts ! 4 = ''zones''"
    using h(3) by (auto simp: isZoneSubpath_def Let_def)
  have "p \<noteq> []"
  proof
    assume "p = []"
    then have "?parts = [''notify'']" using p by (simp add: strings_TrimPrefix_def)
    with len show False by simp
  qed
  then obtain q where "strings_TrimPrefix (pb_Path req) ''/'' = q @ ''/notify''"
  proof -
    have "strings_TrimPrefix (pb_Path req) ''/'' = (if hd p = CHR ''/'' then tl p else p) @ ''/notify''"
      using p \<open>p \<noteq> []\<close> by (cases p) (auto simp: strings_TrimPrefix_def)
    then show thesis by (rule that)
  qed
  moreover have "strings_Split (q @ ''/notify'') CHR ''/'' = strings_Split q CHR ''/'' @ [''notify'']"
    using strings_Split_append_Split [of q "CHR ''/''" "''notify''"] by (simp add: strings_Split_nosep)
  ultimately have "?parts = strings_Split q CHR ''/'' @ [''notify'']" by simp
  moreover obtain a b c d e rest where "strings_Split q CHR ''/'' = [a, b, c, d, e] @ rest"
    using len calculation five_or_more [of "strings_Split q CHR ''/''"] by auto
  ultimately show ?thesis
    using h(1) nth by auto
qed

definition demoPbRequest :: "string \<Rightarrow> string \<Rightarrow> pb_HttpRequest" where
  "demoPbRequest method path =
     \<lparr>pb_Method = method, pb_Scheme = [], pb_Host = [], pb_Path = path, pb_RawQuery = [], pb_Headers = [],
      pb_Body = [], pb_ContentLength = 0, pb_RemoteAddr = [], pb_RequestId = [], pb_Principal = []\<rparr>"

theorem read_zones_exact_witness:
  "ResDecision (read_zones_Authorize (demoPbRequest ''GET'' ''/api/v1/servers/localhost/zones/a.b'')) = Decision_ALLOW"
  by (subst read_zones_exact) (simp add: demoPbRequest_def)

lemma zone_notify_example:
  "ResDecision (zone_notify_Authorize (demoPbRequest ''PUT'' ''/api/v1/servers/s/zones/z/notify'')) = Decision_ALLOW"
  by code_simp

theorem zone_notify_confined_witness:
  "\<exists>sid rest. strings_Split (strings_TrimPrefix ''/api/v1/servers/s/zones/z/notify'' ''/'') CHR ''/'' =
     [''api'', ''v1'', ''servers'', sid, ''zones''] @ rest @ [''notify'']"
  using zone_notify_confined [OF zone_notify_example] by (simp add: demoPbRequest_def)

text \<open>
  Finding: the plugin does not check that the path has the shape of a notify endpoint.  It also
  allows a zone that is called \<^verbatim>\<open>notify\<close> to be replaced, and resources below a zone of that name.
\<close>

lemma zone_notify_too_wide:
  "ResDecision (zone_notify_Authorize (demoPbRequest ''PUT'' ''/api/v1/servers/s/zones/notify'')) = Decision_ALLOW"
  "ResDecision (zone_notify_Authorize (demoPbRequest ''PUT'' ''/api/v1/servers/s/zones/z/metadata/notify'')) = Decision_ALLOW"
  by code_simp+

end
