(* ===== verification/Pg_Array.thy ===== *)
theory Pg_Array
  imports Prelude
begin

text \<open>
  The text form of PostgreSQL arrays, \<^verbatim>\<open>src/internal/store/postgres/pgarray.go\<close>: the roles and
  allowed CIDRs of a key pass through it on every write and every read.
\<close>

section \<open>Reading\<close>

text \<open>The state of the loop of \<^verbatim>\<open>parseArrayElements\<close>.\<close>

record parse_state =
  ps_result :: "string list"
  ps_current :: string
  ps_inQuote :: bool
  ps_escaped :: bool
  ps_quoted :: bool

definition NullError :: string where
  "NullError = ''pgarray: NULL array elements are not supported''"

definition flush :: "parse_state \<Rightarrow> string + parse_state" where
  "flush st =
     (let val = (if ps_quoted st then ps_current st else strings_TrimSpace (ps_current st))
      in if \<not> ps_quoted st \<and> strings_EqualFold val ''NULL'' then Inl NullError
         else Inr (st\<lparr>ps_result := ps_result st @ [val], ps_current := [], ps_quoted := False\<rparr>))"

fun parseLoop :: "string \<Rightarrow> parse_state \<Rightarrow> string + parse_state" where
  "parseLoop [] st = Inr st"
| "parseLoop (c # s) st =
     (if ps_escaped st then
        parseLoop s (st\<lparr>ps_current := ps_current st @ [c], ps_escaped := False\<rparr>)
      else if c = CHR 0x5C then parseLoop s (st\<lparr>ps_escaped := True\<rparr>)
      else if c = CHR 0x22 then
        parseLoop s (st\<lparr>ps_inQuote := \<not> ps_inQuote st, ps_quoted := True\<rparr>)
      else if c = CHR '','' \<and> \<not> ps_inQuote st then
        (case flush st of Inl e \<Rightarrow> Inl e | Inr st \<Rightarrow> parseLoop s st)
      else parseLoop s (st\<lparr>ps_current := ps_current st @ [c]\<rparr>))"

definition parse_init :: "string list \<Rightarrow> parse_state" where
  "parse_init acc = \<lparr>ps_result = acc, ps_current = [], ps_inQuote = False, ps_escaped = False, ps_quoted = False\<rparr>"

definition parseArrayElements :: "string \<Rightarrow> string + string list" where
  "parseArrayElements s =
     (case parseLoop s (parse_init []) of
        Inl e \<Rightarrow> Inl e
      | Inr st \<Rightarrow> (case flush st of Inl e \<Rightarrow> Inl e | Inr st \<Rightarrow> Inr (ps_result st)))"

text \<open>What the driver hands to \<^verbatim>\<open>Scan\<close>, and the slice it sets; \<^const>\<open>None\<close> is a nil slice.\<close>

datatype sql_src = SrcNil | SrcString string | SrcBytes bytes | SrcOther

definition scanLiteral :: "string \<Rightarrow> string + string list option" where
  "scanLiteral lit =
     (let s = strings_TrimSpace lit
      in if s = ''{}'' then Inr (Some [])
         else if length s < 2 \<or> hd s \<noteq> CHR ''{'' \<or> last s \<noteq> CHR ''}''
         then Inl ''pgarray: invalid array literal''
         else (case parseArrayElements (butlast (tl s)) of
                 Inl e \<Rightarrow> Inl e
               | Inr elems \<Rightarrow> Inr (Some elems)))"

fun Scan :: "sql_src \<Rightarrow> string + string list option" where
  "Scan SrcNil = Inr None"
| "Scan (SrcString v) = scanLiteral v"
| "Scan (SrcBytes v) = scanLiteral v"
| "Scan SrcOther = Inl ''pgarray: cannot scan''"


section \<open>Writing\<close>

definition needsQuotes :: "string \<Rightarrow> bool" where
  "needsQuotes s \<longleftrightarrow> s = [] \<or> strings_ContainsAny s [CHR ''{'', CHR ''}'', CHR '','', CHR 0x22, CHR 0x5C] \<or>
     strings_ContainsAny s [CHR '' '', CHR 0x09, CHR 0x0A]"

text \<open>The loop over the runes of the element.\<close>

definition escapeRunes :: "string \<Rightarrow> string" where
  "escapeRunes s =
     concat (map (\<lambda>r. if r = [CHR 0x22] \<or> r = [CHR 0x5C] then CHR 0x5C # r else r) (range_runes s))"

definition quoteArrayElement :: "string \<Rightarrow> string" where
  "quoteArrayElement s = (if needsQuotes s then [CHR 0x22] @ escapeRunes s @ [CHR 0x22] else s)"

definition Value :: "string list option \<Rightarrow> string option" where
  "Value a = map_option (\<lambda>xs. ''{'' @ strings_Join (map quoteArrayElement xs) '','' @ ''}'') a"


section \<open>Round trip\<close>

text \<open>
  Elements that survive: valid UTF-8, and, where they are written without quotes, not surrounded
  by white space and not the word \<^verbatim>\<open>NULL\<close>.
\<close>

definition pg_safe :: "string \<Rightarrow> bool" where
  "pg_safe s \<longleftrightarrow> valid_utf8 s \<and> (needsQuotes s \<or> strings_TrimSpace s = s \<and> \<not> strings_EqualFold s ''NULL'')"

lemma parseLoop_plain:
  assumes "\<forall>c \<in> set s. c \<notin> {CHR 0x5C, CHR 0x22, CHR '',''}" and "\<not> ps_escaped st"
  shows "parseLoop (s @ r) st = parseLoop r (st\<lparr>ps_current := ps_current st @ s\<rparr>)"
  using assms by (induction s arbitrary: st) auto

lemma unescaped [simp]: "\<not> ps_escaped st \<Longrightarrow> st\<lparr>ps_escaped := False\<rparr> = st"
  by simp

lemma parseLoop_escape:
  assumes "\<not> ps_escaped st" and "ps_inQuote st"
  shows "parseLoop (concat (map (\<lambda>c. if c = CHR 0x22 \<or> c = CHR 0x5C then [CHR 0x5C, c] else [c]) s) @ r) st =
    parseLoop r (st\<lparr>ps_current := ps_current st @ s\<rparr>)"
  using assms by (induction s arbitrary: st) auto

text \<open>On bytes, escaping the runes is escaping the bytes: quote and backslash occur in no longer rune.\<close>

lemma utf8_tail_bytes:
  assumes "utf8_width s = Some n" and "n \<noteq> 1"
  shows "\<forall>c \<in> set (take n s). c \<noteq> CHR 0x22 \<and> c \<noteq> CHR 0x5C"
  using utf8_width_high [OF assms] by (auto simp: high_def)

lemma concat_map_single: "\<forall>c \<in> set s. f c = [c] \<Longrightarrow> concat (map f s) = s"
  by (induction s) auto

definition escapeBytes :: "string \<Rightarrow> string" where
  "escapeBytes s = concat (map (\<lambda>c. if c = CHR 0x22 \<or> c = CHR 0x5C then [CHR 0x5C, c] else [c]) s)"

lemma escapeBytes_append: "escapeBytes (s @ t) = escapeBytes s @ escapeBytes t"
  by (simp add: escapeBytes_def)

lemma escapeRunes_bytes: "valid_utf8 s \<Longrightarrow> escapeRunes s = escapeBytes s"
proof (induction s rule: length_induct)
  case (1 s)
  show ?case
  proof (cases "s = []")
    case True
    then show ?thesis by (simp add: escapeRunes_def escapeBytes_def range_runes.simps)
  next
    case False
    then obtain n where n: "utf8_width s = Some n" "valid_utf8 (drop n s)"
        "range_runes s = take n s # range_runes (drop n s)"
      using 1(2) valid_utf8_Some by blast
    have "length (drop n s) < length s"
      using utf8_width_pos [OF n(1)] by auto
    with 1(1) n(2) have "escapeRunes (drop n s) = escapeBytes (drop n s)" by blast
    moreover have "(if take n s = [CHR 0x22] \<or> take n s = [CHR 0x5C] then CHR 0x5C # take n s else take n s) =
        escapeBytes (take n s)"
    proof (cases "n = 1")
      case True
      then obtain c where "take n s = [c]"
        using False by (cases s) auto
      then show ?thesis by (simp add: escapeBytes_def)
    next
      case False
      note tail = utf8_tail_bytes [OF n(1) False]
      have "escapeBytes (take n s) = take n s"
        unfolding escapeBytes_def using tail by (intro concat_map_single) simp
      moreover have "take n s \<noteq> [CHR 0x22]" "take n s \<noteq> [CHR 0x5C]"
        using tail by force+
      ultimately show ?thesis by simp
    qed
    ultimately show ?thesis
      using escapeBytes_append [of "take n s" "drop n s"] n(3) by (simp add: escapeRunes_def)
  qed
qed

text \<open>
  The two ways an element may be written: between quotes with every quote and backslash escaped,
  or as it is, where it needs no quotes, is not the word \<^verbatim>\<open>NULL\<close> and is not surrounded by white space.
\<close>

definition array_element :: "string \<Rightarrow> string \<Rightarrow> bool" where
  "array_element x w \<longleftrightarrow> w = [CHR 0x22] @ escapeBytes x @ [CHR 0x22] \<or>
     w = x \<and> \<not> needsQuotes x \<and> strings_TrimSpace x = x \<and> \<not> strings_EqualFold x ''NULL''"

definition array_literal :: "string list \<Rightarrow> string" where
  "array_literal ws = ''{'' @ strings_Join ws '','' @ ''}''"

lemma quoteArrayElement_element: "pg_safe x \<Longrightarrow> array_element x (quoteArrayElement x)"
  by (auto simp: array_element_def quoteArrayElement_def pg_safe_def escapeRunes_bytes)

lemma array_element_nonempty: "array_element x w \<Longrightarrow> w \<noteq> []"
  by (auto simp: array_element_def needsQuotes_def)

lemma parse_element:
  assumes "array_element x w"
  shows "\<exists>q. parseLoop (w @ r) (parse_init acc) =
    parseLoop r (parse_init acc\<lparr>ps_current := x, ps_quoted := q\<rparr>) \<and> (q \<or> strings_TrimSpace x = x \<and>
      \<not> strings_EqualFold x ''NULL'')"
proof (cases "w = [CHR 0x22] @ escapeBytes x @ [CHR 0x22]")
  case True
  have "parseLoop (w @ r) (parse_init acc) =
      parseLoop (escapeBytes x @ CHR 0x22 # r) ((parse_init acc)\<lparr>ps_inQuote := True, ps_quoted := True\<rparr>)"
    using True by (simp add: parse_init_def)
  also have "\<dots> = parseLoop r ((parse_init acc)\<lparr>ps_current := x, ps_quoted := True\<rparr>)"
    unfolding escapeBytes_def by (subst parseLoop_escape) (simp_all add: parse_init_def)
  finally show ?thesis by blast
next
  case False
  with assms have w: "w = x" "\<not> needsQuotes x" "strings_TrimSpace x = x \<and> \<not> strings_EqualFold x ''NULL''"
    by (auto simp: array_element_def)
  then have "\<forall>c \<in> set x. c \<notin> {CHR 0x5C, CHR 0x22, CHR '',''}"
    by (auto simp: needsQuotes_def strings_ContainsAny_def list_ex_iff)
  from parseLoop_plain [OF this, of "parse_init acc" r] show ?thesis
    using w by (intro exI [of _ False]) (simp add: parse_init_def)
qed

lemma flush_element:
  assumes "q \<or> strings_TrimSpace x = x \<and> \<not> strings_EqualFold x ''NULL''"
  shows "flush (parse_init acc\<lparr>ps_current := x, ps_quoted := q\<rparr>) = Inr (parse_init (acc @ [x]))"
  using assms by (auto simp: flush_def parse_init_def)

lemma parse_elements:
  assumes "list_all2 array_element xs ws" and "xs \<noteq> []"
  shows "\<exists>st. parseLoop (strings_Join ws '','') (parse_init acc) = Inr st \<and>
    flush st = Inr (parse_init (acc @ xs))"
  using assms
proof (induction xs ws arbitrary: acc rule: list_all2_induct)
  case (Cons x xs w ws)
  show ?case
  proof (cases "xs = []")
    case True
    obtain q where "parseLoop (w @ []) (parse_init acc) =
        parseLoop [] (parse_init acc\<lparr>ps_current := x, ps_quoted := q\<rparr>)"
        "q \<or> strings_TrimSpace x = x \<and> \<not> strings_EqualFold x ''NULL''"
      using parse_element [OF Cons.hyps(1), of "[]" acc] by auto
    then show ?thesis
      using True Cons.hyps(2) flush_element [of q x acc] by simp
  next
    case False
    let ?rest = "strings_Join ws '',''"
    obtain q where q: "parseLoop (w @ CHR '','' # ?rest) (parse_init acc) =
        parseLoop (CHR '','' # ?rest) (parse_init acc\<lparr>ps_current := x, ps_quoted := q\<rparr>)"
        "q \<or> strings_TrimSpace x = x \<and> \<not> strings_EqualFold x ''NULL''"
      using parse_element [OF Cons.hyps(1), of "CHR '','' # ?rest" acc] by auto
    have ne: "ws \<noteq> []"
      using False Cons.hyps(2) by auto
    have "parseLoop (CHR '','' # ?rest) (parse_init acc\<lparr>ps_current := x, ps_quoted := q\<rparr>) =
        parseLoop ?rest (parse_init (acc @ [x]))"
      using flush_element [OF q(2), of acc] by (simp add: parse_init_def)
    then show ?thesis
      using Cons.IH [of "acc @ [x]"] False q(1) ne by (simp add: strings_Join_Cons)
  qed
qed simp

lemma TrimSpace_braces: "strings_TrimSpace (''{'' @ s @ ''}'') = ''{'' @ s @ ''}''"
proof -
  have l: "\<forall>r \<in> set space_runes. hd r \<noteq> CHR ''{''" and r: "\<forall>r \<in> set space_runes. last r \<noteq> CHR ''}''"
    by code_simp+
  show ?thesis
    using trimLeftSpace_id [OF l, of "s @ ''}''"] trimRightSpace_id [OF r, of "''{'' @ s"]
    by (simp add: strings_TrimSpace_def)
qed

lemma scan_elements:
  assumes "list_all2 array_element xs ws"
  shows "scanLiteral (array_literal ws) = Inr (Some xs)"
proof (cases "xs = []")
  case True
  then show ?thesis
    using assms TrimSpace_braces [of "[]"] by (simp add: scanLiteral_def array_literal_def)
next
  case False
  let ?j = "strings_Join ws '',''"
  obtain st where st: "parseLoop ?j (parse_init []) = Inr st" "flush st = Inr (parse_init xs)"
    using parse_elements [OF assms False, of "[]"] by auto
  have "?j \<noteq> []"
    using False assms array_element_nonempty
    by (cases ws; cases "tl ws") (auto simp: strings_Join_Cons list_all2_Cons2)
  then show ?thesis
    using TrimSpace_braces [of ?j] st
    by (simp add: array_literal_def scanLiteral_def parseArrayElements_def parse_init_def)
qed

lemma Value_elements:
  assumes "\<forall>x \<in> set xs. pg_safe x"
  shows "\<exists>ws. list_all2 array_element xs ws \<and> Value (Some xs) = Some (array_literal ws)"
  using assms quoteArrayElement_element
  by (intro exI [of _ "map quoteArrayElement xs"])
     (auto simp: Value_def array_literal_def list_all2_map2 list.rel_refl_strong)

text \<open>
  C30: what is written to a text array column is read back, with two provisos: scanning the literal
  that \<^verbatim>\<open>Value\<close> produces for a list gives the list, in order and with duplicates, quotes, commas, braces,
  backslashes and empty strings intact, if every element is valid UTF-8, none is the word \<^verbatim>\<open>NULL\<close> in any case,
  and an element that begins or ends with white space contains a blank, a tab, a newline or one
  of the special characters.  A nil slice is NULL in both directions.
\<close>

theorem TextArray_roundtrip:
  assumes "\<forall>x \<in> set xs. valid_utf8 x \<and> \<not> strings_EqualFold x ''NULL'' \<and>
    (strings_TrimSpace x = x \<or>
     set x \<inter> {CHR '' '', CHR 0x09, CHR 0x0A, CHR ''{'', CHR ''}'', CHR '','', CHR 0x22, CHR 0x5C} \<noteq> {})"
  shows "(\<exists>lit. Value (Some xs) = Some lit \<and> Scan (SrcString lit) = Inr (Some xs) \<and> Scan (SrcBytes lit) = Inr (Some xs)) \<and>
    Value None = None \<and> Scan SrcNil = Inr None"
proof -
  have "\<forall>x \<in> set xs. pg_safe x"
    using assms by (auto simp: pg_safe_def needsQuotes_def strings_ContainsAny_def list_ex_iff)
  from Value_elements [OF this] scan_elements show ?thesis by (auto simp: Value_def)
qed

theorem TextArray_roundtrip_witness:
  "Scan (SrcString ([CHR ''{'', CHR ''a'', CHR '','', CHR 0x22, CHR ''b'', CHR '','', CHR 0x5C, CHR 0x22, CHR 0x22, CHR ''}''])) =
     Inr (Some [''a'', [CHR ''b'', CHR '','', CHR 0x22]])"
proof -
  have "\<forall>x \<in> set [''a'', [CHR ''b'', CHR '','', CHR 0x22]]. valid_utf8 x \<and> \<not> strings_EqualFold x ''NULL'' \<and>
    (strings_TrimSpace x = x \<or>
     set x \<inter> {CHR '' '', CHR 0x09, CHR 0x0A, CHR ''{'', CHR ''}'', CHR '','', CHR 0x22, CHR 0x5C} \<noteq> {})"
    by code_simp
  moreover have "Value (Some [''a'', [CHR ''b'', CHR '','', CHR 0x22]]) =
    Some [CHR ''{'', CHR ''a'', CHR '','', CHR 0x22, CHR ''b'', CHR '','', CHR 0x5C, CHR 0x22, CHR 0x22, CHR ''}'']"
    by code_simp
  ultimately show ?thesis using TextArray_roundtrip [of "[''a'', [CHR ''b'', CHR '','', CHR 0x22]]"] by auto
qed

text \<open>
  Finding: elements outside \<^const>\<open>pg_safe\<close> do not survive.  A role called \<^verbatim>\<open>NULL\<close> (in any case) is
  written without quotes, and the row that holds it can no longer be read; white space other
  than blank, tab and newline is not quoted either and is trimmed away.
\<close>

lemma TextArray_NULL: "Scan (SrcString (the (Value (Some [''null''])))) = Inl NullError"
  by code_simp

lemma TextArray_trimmed: "Scan (SrcString (the (Value (Some [[CHR ''a'', CHR 0x0D]])))) = Inr (Some [''a''])"
  by code_simp

end
