(* ===== verification/Proxy.thy ===== *)
theory Proxy
  imports Middleware "HOL-Library.Char_ord" "HOL-Library.List_Lexorder"
begin

text \<open>
  Forwarding to the PowerDNS upstream: the interface \<^verbatim>\<open>src/internal/proxy/proxy.go\<close>, the
  single-backend proxy \<^verbatim>\<open>src/internal/proxy/single/single.go\<close>, the balancer
  \<^verbatim>\<open>src/internal/proxy/balancer/balancer.go\<close> and its health checks \<^verbatim>\<open>health.go\<close>, on top of what
  they use of \<^verbatim>\<open>net/http/httputil.ReverseProxy\<close>.

  The network is an argument: \<open>transport\<close> takes the outbound request and the gateway state and
  returns a response or an error.  It acts on the whole gateway state, because other requests
  and health checks run during a round trip: it may change every health flag and the counter.
  For the balancer that state is a pair of the balancer and the outside world.  Between two round
  trips the flags of the skipped backends are read at once.  The outbound request is what the
  transport is given; the headers that \<^verbatim>\<open>http.Transport\<close> itself may add to it, such as
  \<^verbatim>\<open>Accept-Encoding\<close>, are part of the network.
\<close>

section \<open>The reverse proxy of net/http/httputil\<close>

record url =
  u_Scheme :: string
  u_Host :: string
  u_Path :: string
  u_RawQuery :: string

text \<open>
  A response carries status, header and body, and whether copying the body to the client failed,
  in which case the reverse proxy panics with \<^verbatim>\<open>http.ErrAbortHandler\<close>.  An error says whether the
  client cancelled the request.  Informational answers and trailers are left out; an answer
  101, which the outbound request never asks for, is an error.
\<close>

datatype rt_result =
  RTResponse (rt_status: int) (rt_header: header) (rt_body: bytes) (rt_aborted: bool)
| RTError (rt_canceled: bool)

definition header_values :: "header \<Rightarrow> string \<Rightarrow> string list" where
  "header_values h key = (case map_of h key of None \<Rightarrow> [] | Some vs \<Rightarrow> vs)"

definition hopHeaders :: "string list" where
  "hopHeaders =
     [''Connection'', ''Proxy-Connection'', ''Keep-Alive'', ''Proxy-Authenticate'', ''Proxy-Authorization'',
      ''Te'', ''Trailer'', ''Transfer-Encoding'', ''Upgrade'']"

definition delAll :: "string list \<Rightarrow> header \<Rightarrow> header" where
  "delAll keys h = fold (\<lambda>k h. header_Del h k) keys h"

definition trimBytes :: "char list \<Rightarrow> string \<Rightarrow> string" where
  "trimBytes cs s = rev (dropWhile (\<lambda>c. c \<in> set cs) (rev (dropWhile (\<lambda>c. c \<in> set cs) s)))"

definition commaParts :: "header \<Rightarrow> string \<Rightarrow> string list" where
  "commaParts h key = concat (map (\<lambda>v. strings_Split v CHR '','') (header_values h key))"

definition connectionTokens :: "header \<Rightarrow> string list" where
  "connectionTokens h =
     filter (\<lambda>t. t \<noteq> [])
       (map (trimBytes [CHR '' '', CHR 0x09, CHR 0x0A, CHR 0x0D]) (commaParts h ''Connection''))"

definition removeHopByHopHeaders :: "header \<Rightarrow> header" where
  "removeHopByHopHeaders h = delAll hopHeaders (delAll (connectionTokens h) h)"

definition hasToken :: "header \<Rightarrow> string \<Rightarrow> string \<Rightarrow> bool" where
  "hasToken h key tok =
     list_ex (\<lambda>t. map ascii_lower (trimBytes [CHR '' '', CHR 0x09] t) = map ascii_lower tok) (commaParts h key)"

definition upgradeType :: "header \<Rightarrow> string" where
  "upgradeType h = (if hasToken h ''Connection'' ''Upgrade'' then header_Get h ''Upgrade'' else [])"

definition ascii_IsPrint :: "string \<Rightarrow> bool" where
  "ascii_IsPrint s = list_all (byte_in 32 126) s"

text \<open>The header of the outbound request when \<^verbatim>\<open>Rewrite\<close> is called.\<close>

definition outHeader :: "header \<Rightarrow> header" where
  "outHeader h =
     (let out = removeHopByHopHeaders h;
          out = (if hasToken h ''Te'' ''trailers'' then header_Set out ''Te'' ''trailers'' else out);
          out = (if upgradeType h \<noteq> []
                 then header_Set (header_Set out ''Connection'' ''Upgrade'') ''Upgrade'' (upgradeType h)
                 else out)
      in delAll [''Forwarded'', ''X-Forwarded-For'', ''X-Forwarded-Host'', ''X-Forwarded-Proto''] out)"

text \<open>
  \<^verbatim>\<open>cleanQueryParams\<close>: a query with a semicolon or a broken escape is parsed and encoded again,
  for queries below the parser's limit on the number of parameters.
\<close>

fun queryClean :: "string \<Rightarrow> bool" where
  "queryClean [] = True"
| "queryClean (c # s) =
     (if c = CHR '';'' then False
      else if c = CHR ''%'' then
        (case s of
           a # b # s' \<Rightarrow> fromHexChar a \<noteq> None \<and> fromHexChar b \<noteq> None \<and> queryClean s'
         | _ \<Rightarrow> False)
      else queryClean s)"

fun QueryUnescape :: "string \<Rightarrow> string option" where
  "QueryUnescape [] = Some []"
| "QueryUnescape (c # s) =
     (if c = CHR ''%'' then
        (case s of
           a # b # s' \<Rightarrow>
             (case (fromHexChar a, fromHexChar b) of
                (Some x, Some y) \<Rightarrow> map_option ((#) (char_of (16 * x + y))) (QueryUnescape s')
              | _ \<Rightarrow> None)
         | _ \<Rightarrow> None)
      else map_option ((#) (if c = CHR ''+'' then CHR '' '' else c)) (QueryUnescape s))"

definition QueryEscape :: "string \<Rightarrow> string" where
  "QueryEscape s =
     concat (map (\<lambda>c. if byte_in 48 57 c \<or> byte_in 65 90 c \<or> byte_in 97 122 c \<or> c \<in> set ''-_.~'' then [c]
                      else if c = CHR '' '' then ''+''
                      else CHR ''%'' # map ascii_upper (hex_EncodeToString [c])) s)"

definition parsePair :: "string \<Rightarrow> (string \<times> string) option" where
  "parsePair part =
     (if CHR '';'' \<in> set part \<or> part = [] then None
      else
        (let (k, v) = (case strings_Cut part CHR ''='' of None \<Rightarrow> (part, []) | Some kv \<Rightarrow> kv)
         in case (QueryUnescape k, QueryUnescape v) of
              (Some k, Some v) \<Rightarrow> Some (k, v)
            | _ \<Rightarrow> None))"

definition reencode :: "string \<Rightarrow> string" where
  "reencode s =
     (let pairs = List.map_filter parsePair (strings_Split s CHR ''&'')
      in strings_Join (map (\<lambda>(k, v). QueryEscape k @ ''='' @ QueryEscape v) (sort_key fst pairs)) ''&'')"

definition cleanQueryParams :: "string \<Rightarrow> string" where
  "cleanQueryParams s = (if queryClean s then s else reencode s)"

text \<open>\<^verbatim>\<open>ProxyRequest.SetURL\<close> for paths without encoded slashes.\<close>

definition singleJoiningSlash :: "string \<Rightarrow> string \<Rightarrow> string" where
  "singleJoiningSlash a b =
     (if strings_HasSuffix a ''/'' \<and> strings_HasPrefix b ''/'' then a @ tl b
      else if \<not> strings_HasSuffix a ''/'' \<and> \<not> strings_HasPrefix b ''/'' then a @ ''/'' @ b
      else a @ b)"

definition SetURL :: "url \<Rightarrow> http_request \<Rightarrow> http_request" where
  "SetURL target out =
     out\<lparr>r_Scheme := u_Scheme target, r_Path := singleJoiningSlash (u_Path target) (r_Path out),
         r_RawQuery := (if u_RawQuery target = [] \<or> r_RawQuery out = [] then u_RawQuery target @ r_RawQuery out
                        else u_RawQuery target @ ''&'' @ r_RawQuery out)\<rparr>"

definition addHeaders :: "header \<Rightarrow> header \<Rightarrow> header" where
  "addHeaders dst src =
     fold (\<lambda>(k, vs) h. (k, header_values h k @ vs) # filter (\<lambda>(k', _). k' \<noteq> k) h) src dst"

definition sendResponse :: "ResponseWriter \<Rightarrow> int \<Rightarrow> header \<Rightarrow> bytes \<Rightarrow> bool \<Rightarrow> 'g rstate \<Rightarrow> 'g rstate" where
  "sendResponse w code hdr body aborted st =
     (let st = st\<lparr>resp_header := addHeaders (resp_header st) (removeHopByHopHeaders hdr)\<rparr>;
          st = WriteHeader w code st;
          st = Write w body st
      in if aborted then st\<lparr>panicking := True\<rparr> else st)"


section \<open>Rewriting the request\<close>

definition rewriteHeader :: "string \<Rightarrow> header \<Rightarrow> header \<Rightarrow> header" where
  "rewriteHeader apiKey inH outH =
     (let contentType = header_Get inH ''Content-Type'';
          accept = header_Get inH ''Accept'';
          outH = delAll (map fst inH) outH;
          outH = header_Set outH ''X-API-Key'' apiKey;
          outH = (if contentType \<noteq> [] then header_Set outH ''Content-Type'' contentType else outH)
      in if accept \<noteq> [] then header_Set outH ''Accept'' accept else outH)"

definition rewriteFunc :: "url \<Rightarrow> string \<Rightarrow> http_request \<Rightarrow> http_request \<Rightarrow> http_request" where
  "rewriteFunc target apiKey inR outR =
     (let outR = outR\<lparr>r_Header := rewriteHeader apiKey (r_Header inR) (r_Header outR)\<rparr>;
          outR = SetURL target outR
      in outR\<lparr>r_Host := u_Host target\<rparr>)"

text \<open>
  The outbound request of the reverse proxy with that rewrite function.  A body of length 0 is
  dropped, and an empty \<^verbatim>\<open>User-Agent\<close> keeps the transport from sending its own.
\<close>

definition proxyOutbound :: "(http_request \<Rightarrow> http_request \<Rightarrow> http_request) \<Rightarrow> http_request \<Rightarrow> http_request" where
  "proxyOutbound rewrite r =
     (let out = r\<lparr>r_Header := outHeader (r_Header r), r_RawQuery := cleanQueryParams (r_RawQuery r),
                  r_Body := (if r_ContentLength r = 0 then NoBody else r_Body r)\<rparr>;
          out = rewrite r out
      in if map_of (r_Header out) ''User-Agent'' = None
         then out\<lparr>r_Header := header_Set (r_Header out) ''User-Agent'' []\<rparr> else out)"

abbreviation outbound :: "url \<Rightarrow> string \<Rightarrow> http_request \<Rightarrow> http_request" where
  "outbound target apiKey \<equiv> proxyOutbound (rewriteFunc target apiKey)"

type_synonym 'g transport = "http_request \<Rightarrow> 'g \<Rightarrow> rt_result \<times> 'g"

text \<open>
  The round trip.  A request to upgrade to a protocol that is not printable ASCII goes to the
  error handler without one.
\<close>

definition roundTrip ::
  "'g transport \<Rightarrow> (http_request \<Rightarrow> http_request \<Rightarrow> http_request) \<Rightarrow> http_request \<Rightarrow> 'g \<Rightarrow> rt_result \<times> 'g" where
  "roundTrip transport rewrite r g =
     (if \<not> ascii_IsPrint (upgradeType (r_Header r)) then (RTError False, g)
      else transport (proxyOutbound rewrite r) g)"


section \<open>The single backend\<close>

definition single_New :: "(string \<Rightarrow> url option) \<Rightarrow> string \<Rightarrow> string \<Rightarrow> (url \<times> string) option" where
  "single_New parseURL upstreamURL apiKey = map_option (\<lambda>target. (target, apiKey)) (parseURL upstreamURL)"

text \<open>The rewrite closure of \<^verbatim>\<open>single.New\<close>, and the round trip with it.\<close>

definition single_Rewrite :: "url \<Rightarrow> string \<Rightarrow> http_request \<Rightarrow> http_request \<Rightarrow> http_request" where
  "single_Rewrite target apiKey inR outR =
     (let contentType = header_Get (r_Header inR) ''Content-Type'';
          accept = header_Get (r_Header inR) ''Accept'';
          h = delAll (map fst (r_Header inR)) (r_Header outR);
          h = header_Set h ''X-API-Key'' apiKey;
          h = (if contentType \<noteq> [] then header_Set h ''Content-Type'' contentType else h);
          h = (if accept \<noteq> [] then header_Set h ''Accept'' accept else h);
          outR = SetURL target (outR\<lparr>r_Header := h\<rparr>)
      in outR\<lparr>r_Host := u_Host target\<rparr>)"

text \<open>The balancer's comment: the same logic in both.\<close>

lemma single_Rewrite_same: "single_Rewrite = rewriteFunc"
  by (intro ext) (simp add: single_Rewrite_def rewriteFunc_def rewriteHeader_def Let_def)

definition single_ServeHTTP :: "url \<times> string \<Rightarrow> 'g transport \<Rightarrow> 'g handler" where
  "single_ServeHTTP backend transport w r st =
     (let (res, g) = roundTrip transport (single_Rewrite (fst backend) (snd backend)) r (global st);
          st = st\<lparr>global := g\<rparr>
      in case res of
           RTResponse code hdr body aborted \<Rightarrow> sendResponse w code hdr body aborted st
         | RTError canceled \<Rightarrow> if canceled then st else http_Error w ''bad gateway'' 502 st)"

definition single_Healthy :: "url \<times> string \<Rightarrow> bool" where
  "single_Healthy backend = True"


section \<open>The balancer\<close>

definition maxAttempts :: nat where
  "maxAttempts = 2"

definition isIdempotentMethod :: "string \<Rightarrow> bool" where
  "isIdempotentMethod m \<longleftrightarrow> m \<in> {''GET'', ''HEAD'', ''PUT'', ''DELETE''}"

record attemptState =
  att_failed :: bool
  att_canceled :: bool

record backendEntry =
  be_target :: url
  be_url :: string
  be_apiKey :: string
  be_healthy :: bool

record Balancer =
  lb_backends :: "backendEntry list"
  lb_counter :: int

text \<open>The loop of \<^verbatim>\<open>New\<close>; \<open>None\<close> is an error.\<close>

fun newEntries :: "(string \<Rightarrow> url option) \<Rightarrow> (string \<times> string) list \<Rightarrow> backendEntry list option" where
  "newEntries parseURL [] = Some []"
| "newEntries parseURL ((u, key) # bs) =
     (case parseURL u of
        None \<Rightarrow> None
      | Some target \<Rightarrow>
          map_option (\<lambda>es. \<lparr>be_target = target, be_url = u, be_apiKey = key, be_healthy = True\<rparr> # es)
            (newEntries parseURL bs))"

definition balancer_New :: "(string \<Rightarrow> url option) \<Rightarrow> (string \<times> string) list \<Rightarrow> Balancer option" where
  "balancer_New parseURL backends =
     (if backends = [] then None
      else map_option (\<lambda>es. \<lparr>lb_backends = es, lb_counter = 0\<rparr>) (newEntries parseURL backends))"

definition setHealthy :: "nat \<Rightarrow> bool \<Rightarrow> Balancer \<Rightarrow> Balancer" where
  "setHealthy idx h lb =
     lb\<lparr>lb_backends := (lb_backends lb)[idx := (lb_backends lb ! idx)\<lparr>be_healthy := h\<rparr>]\<rparr>"

text \<open>
  One attempt: the reverse proxy of backend \<open>idx\<close> with its \<^verbatim>\<open>ErrorHandler\<close>.
\<close>

definition attempt ::
  "(Balancer \<times> 'e) transport \<Rightarrow> nat \<Rightarrow> ResponseWriter \<Rightarrow> http_request \<Rightarrow> (Balancer \<times> 'e) rstate \<Rightarrow>
   attemptState \<times> (Balancer \<times> 'e) rstate" where
  "attempt transport idx w r st =
     (let entry = lb_backends (fst (global st)) ! idx;
          (res, lb, e) = roundTrip transport (rewriteFunc (be_target entry) (be_apiKey entry)) r (global st)
      in case res of
           RTResponse code hdr body aborted \<Rightarrow>
             (\<lparr>att_failed = False, att_canceled = False\<rparr>,
              sendResponse w code hdr body aborted (st\<lparr>global := (lb, e)\<rparr>))
         | RTError canceled \<Rightarrow>
             (if canceled then (\<lparr>att_failed = True, att_canceled = True\<rparr>, st\<lparr>global := (lb, e)\<rparr>)
              else (\<lparr>att_failed = True, att_canceled = False\<rparr>, st\<lparr>global := (setHealthy idx False lb, e)\<rparr>)))"

text \<open>
  The buffered body is put back before every attempt.  A body that is not buffered has been
  closed by the attempt: reading it again fails.
\<close>

definition withBody :: "http_request \<Rightarrow> http_request" where
  "withBody r =
     (case GetBodyBytes (r_ctx r) of None \<Rightarrow> r | Some body \<Rightarrow> r\<lparr>r_Body := Body body False\<rparr>)"

definition closeBody :: "http_request \<Rightarrow> http_request" where
  "closeBody r =
     (case r_Body r of
        NoBody \<Rightarrow> r
      | Body _ _ \<Rightarrow> if r_ContentLength r = 0 then r else r\<lparr>r_Body := Body [] True\<rparr>)"

text \<open>
  The loop of \<^verbatim>\<open>ServeHTTP\<close>: \<open>k\<close> indices remain, \<open>i\<close> is the loop variable, \<open>start + i\<close> is an unsigned
  64-bit sum.  \<open>Inl st\<close> is a return out of the loop, \<open>Inr (attempts, st)\<close> its end.
\<close>

primrec serveLoop ::
  "(Balancer \<times> 'e) transport \<Rightarrow> int \<Rightarrow> nat \<Rightarrow> int \<Rightarrow> nat \<Rightarrow> ResponseWriter \<Rightarrow> http_request \<Rightarrow> (Balancer \<times> 'e) rstate \<Rightarrow>
   (Balancer \<times> 'e) rstate + nat \<times> (Balancer \<times> 'e) rstate" where
  "serveLoop transport start 0 i attempts w r st = Inr (attempts, st)"
| "serveLoop transport start (Suc k) i attempts w r st =
     (if \<not> attempts < maxAttempts then Inr (attempts, st)
      else
        (let lb = fst (global st);
             n = int (length (lb_backends lb));
             idx = nat (((start + i) mod 2 ^ 64) mod n)
         in if \<not> be_healthy (lb_backends lb ! idx)
            then serveLoop transport start k (i + 1) attempts w r st
            else
              (let r = withBody r;
                   (att, st) = attempt transport idx w r st;
                   attempts = Suc attempts
               in if \<not> att_failed att then Inl st
                  else if att_canceled att then Inl st
                  else if \<not> isIdempotentMethod (r_Method r) then Inr (attempts, st)
                  else serveLoop transport start k (i + 1) attempts w (closeBody r) st)))"

definition balancer_ServeHTTP :: "(Balancer \<times> 'e) transport \<Rightarrow> (Balancer \<times> 'e) handler" where
  "balancer_ServeHTTP transport w r st =
     (let (lb, e) = global st;
          n = length (lb_backends lb);
          counter = (lb_counter lb + 1) mod 2 ^ 64;
          start = (counter - 1) mod 2 ^ 64;
          st = st\<lparr>global := (lb\<lparr>lb_counter := counter\<rparr>, e)\<rparr>
      in case serveLoop transport start n 0 0 w r st of
           Inl st \<Rightarrow> st
         | Inr (attempts, st) \<Rightarrow>
             (if attempts = 0 then http_Error w ''no healthy backends'' 502 st
              else http_Error w ''bad gateway'' 502 st))"

definition balancer_Healthy :: "Balancer \<Rightarrow> bool" where
  "balancer_Healthy lb = list_ex be_healthy (lb_backends lb)"

text \<open>
  Health checks.  The outcome of a probe is \<open>None\<close> if the request could not be created, and
  otherwise the status of the response, or \<open>None\<close> for an error.
\<close>

definition checkOne :: "int option option \<Rightarrow> backendEntry \<Rightarrow> backendEntry" where
  "checkOne outcome entry =
     (case outcome of
        None \<Rightarrow> entry
      | Some resp \<Rightarrow>
          entry\<lparr>be_healthy := (case resp of None \<Rightarrow> False | Some code \<Rightarrow> 200 \<le> code \<and> code < 300)\<rparr>)"

definition checkAll :: "int option option list \<Rightarrow> Balancer \<Rightarrow> Balancer" where
  "checkAll outcomes lb = lb\<lparr>lb_backends := map2 checkOne outcomes (lb_backends lb)\<rparr>"

text \<open>
  The goroutine that repeats the checks.  An event is a tick, with the outcome of every probe, the
  cancellation by \<^verbatim>\<open>Close\<close>, or a change of the balancer by a request between two ticks.
\<close>

datatype health_event = ProbeTick "int option option list" | ProbeDone | Served "Balancer \<Rightarrow> Balancer"

fun healthLoop :: "health_event list \<Rightarrow> Balancer \<Rightarrow> Balancer" where
  "healthLoop [] lb = lb"
| "healthLoop (ProbeTick outcomes # es) lb = healthLoop es (checkAll outcomes lb)"
| "healthLoop (ProbeDone # es) lb = lb"
| "healthLoop (Served f # es) lb = healthLoop es (f lb)"


section \<open>What reaches the upstream\<close>

lemma map_of_delAll:
  "map_of (delAll keys h) k = (if k \<in> http_CanonicalHeaderKey ` set keys then None else map_of h k)"
  by (induction keys arbitrary: h) (auto simp: delAll_def map_of_header_Del)

lemma hasToken_present: "hasToken h key tok \<Longrightarrow> map_of h key \<noteq> None"
  by (cases "map_of h key") (auto simp: hasToken_def commaParts_def header_values_def)

lemma upgradeType_present:
  "upgradeType h \<noteq> [] \<Longrightarrow> map_of h ''Connection'' \<noteq> None \<and> map_of h (http_CanonicalHeaderKey ''Upgrade'') \<noteq> None"
  using hasToken_present [of h "''Connection''" "''Upgrade''"]
  by (cases "map_of h (http_CanonicalHeaderKey ''Upgrade'')") (auto simp: upgradeType_def header_Get_def split: if_splits)

lemma canonical_keys [simp]:
  "http_CanonicalHeaderKey ''Te'' = ''Te''"
  "http_CanonicalHeaderKey ''Connection'' = ''Connection''"
  "http_CanonicalHeaderKey ''Upgrade'' = ''Upgrade''"
  "http_CanonicalHeaderKey ''X-API-Key'' = ''X-Api-Key''"
  "http_CanonicalHeaderKey ''Content-Type'' = ''Content-Type''"
  "http_CanonicalHeaderKey ''Accept'' = ''Accept''"
  "http_CanonicalHeaderKey ''User-Agent'' = ''User-Agent''"
  by code_simp+

text \<open>The reverse proxy adds no header of its own before the rewrite.\<close>

lemma outHeader_dom:
  assumes "map_of h k = None"
  shows "map_of (outHeader h) k = None"
proof -
  have te: "k \<noteq> ''Te''" if "hasToken h ''Te'' ''trailers''"
    using assms hasToken_present [OF that] by blast
  have up: "k \<noteq> ''Connection'' \<and> k \<noteq> ''Upgrade''" if "upgradeType h \<noteq> []"
    using assms upgradeType_present [OF that] by auto
  have hop: "map_of (removeHopByHopHeaders h) k = None"
    by (simp add: removeHopByHopHeaders_def map_of_delAll assms)
  show ?thesis
    unfolding outHeader_def Let_def map_of_delAll
    using te up hop by (simp add: map_of_header_Set)
qed

lemma header_wf_keys:
  assumes "header_wf h"
  shows "http_CanonicalHeaderKey ` set (map fst h) = dom (map_of h)"
proof -
  have "http_CanonicalHeaderKey k = k" if "k \<in> fst ` set h" for k
    using assms that by (auto simp: header_wf_def list_all_iff)
  then show ?thesis by (simp add: dom_map_of_conv_image_fst)
qed

lemma rewrite_strips:
  assumes "header_wf h"
  shows "map_of (delAll (map fst h) (outHeader h)) k = None"
  using outHeader_dom [of h k] by (simp add: map_of_delAll header_wf_keys [OF assms, simplified] domIff)

lemma map_of_rewriteHeader:
  assumes "header_wf h"
  shows "map_of (rewriteHeader apiKey h (outHeader h)) k =
     (if k = ''Accept'' \<and> header_Get h ''Accept'' \<noteq> [] then Some [header_Get h ''Accept'']
      else if k = ''Content-Type'' \<and> header_Get h ''Content-Type'' \<noteq> [] then Some [header_Get h ''Content-Type'']
      else if k = ''X-Api-Key'' then Some [apiKey] else None)"
proof -
  have opt: "map_of (if v \<noteq> [] then header_Set h' key v else h') k =
      (if k = http_CanonicalHeaderKey key \<and> v \<noteq> [] then Some [v] else map_of h' k)" for h' :: header and key v
    by (simp add: map_of_header_Set)
  show ?thesis
    unfolding rewriteHeader_def Let_def opt map_of_header_Set rewrite_strips [OF assms] canonical_keys by (rule refl)
qed

lemma rewriteFunc_header: "r_Header (rewriteFunc target apiKey inR outR) = rewriteHeader apiKey (r_Header inR) (r_Header outR)"
  by (simp add: rewriteFunc_def SetURL_def Let_def)

lemma header_names_distinct:
  "''X-Api-Key'' \<noteq> ''Content-Type''" "''X-Api-Key'' \<noteq> ''Accept''" "''X-Api-Key'' \<noteq> ''User-Agent''"
  "''Content-Type'' \<noteq> ''Accept''" "''Content-Type'' \<noteq> ''User-Agent''" "''Accept'' \<noteq> ''User-Agent''"
  by simp_all

lemma map_of_outbound:
  "map_of (r_Header (outbound target apiKey r)) k =
     (case map_of (rewriteHeader apiKey (r_Header r) (outHeader (r_Header r))) k of
        None \<Rightarrow> if k = ''User-Agent'' then Some [[]] else None
      | Some v \<Rightarrow> Some v)"
  by (auto simp: proxyOutbound_def Let_def rewriteFunc_header map_of_header_Set split: option.split)

text \<open>
  C27: The header PowerDNS receives is independent of everything the client sent except the first
  values of \<^verbatim>\<open>Content-Type\<close> and \<^verbatim>\<open>Accept\<close>: besides these, the request carries the backend's own API
  key under \<^verbatim>\<open>X-Api-Key\<close>, an empty \<^verbatim>\<open>User-Agent\<close>, and nothing else.  In particular neither the
  client's gateway key nor a forwarding or connection header is passed on.
\<close>

theorem outbound_header_exact:
  assumes "header_wf (r_Header r)"
  shows "map_of (r_Header (outbound target apiKey r)) k =
     (if k = ''X-Api-Key'' then Some [apiKey]
      else if k = ''Content-Type'' \<and> header_Get (r_Header r) k \<noteq> [] then Some [header_Get (r_Header r) k]
      else if k = ''Accept'' \<and> header_Get (r_Header r) k \<noteq> [] then Some [header_Get (r_Header r) k]
      else if k = ''User-Agent'' then Some [[]]
      else None)"
  unfolding map_of_outbound map_of_rewriteHeader [OF assms]
  using header_names_distinct by (simp split: if_split)

theorem outbound_header_exact_witness:
  "map_of (r_Header (outbound \<lparr>u_Scheme = ''http'', u_Host = ''pdns:8081'', u_Path = [], u_RawQuery = []\<rparr> ''backend''
     \<lparr>r_Method = ''GET'', r_Scheme = [], r_Host = ''gw'', r_Path = ''/api'', r_RawQuery = [],
      r_Header = [(''X-Api-Key'', [''client'']), (''Accept'', [''text/plain''])],
      r_Body = NoBody, r_ContentLength = 0, r_RemoteAddr = [], r_ctx = Background\<rparr>)) ''X-Api-Key''
   = Some [''backend'']"
  by (subst outbound_header_exact, code_simp, simp)


section \<open>The balancer's attempts\<close>

text \<open>
  The backend that the loop looks at in round \<open>i\<close>, and the part of a backend that no operation
  changes.
\<close>

definition roundIdx :: "int \<Rightarrow> nat \<Rightarrow> nat \<Rightarrow> nat" where
  "roundIdx start n i = nat (((start + int i) mod 2 ^ 64) mod int n)"

definition be_fixed :: "backendEntry \<Rightarrow> url \<times> string" where
  "be_fixed b = (be_target b, be_apiKey b)"

definition keepsBackends :: "(Balancer \<times> 'e) transport \<Rightarrow> bool" where
  "keepsBackends transport \<longleftrightarrow>
     (\<forall>out g. map be_fixed (lb_backends (fst (snd (transport out g)))) = map be_fixed (lb_backends (fst g)))"

text \<open>A transport that also keeps a log of the requests it is given.\<close>

definition logged :: "(Balancer \<times> 'e) transport \<Rightarrow> (Balancer \<times> http_request list \<times> 'e) transport" where
  "logged transport out g =
     (let (lb, log, e) = g; (res, lb', e') = transport out (lb, e) in (res, lb', log @ [out], e'))"

text \<open>The request can be sent again: its body is buffered or empty.\<close>

definition replayable :: "http_request \<Rightarrow> bool" where
  "replayable r \<longleftrightarrow> GetBodyBytes (r_ctx r) \<noteq> None \<or> r_Body r = NoBody \<or> r_ContentLength r = 0"

definition loopState :: "'s + nat \<times> 's \<Rightarrow> 's" where
  "loopState res = (case res of Inl st \<Rightarrow> st | Inr (_, st) \<Rightarrow> st)"

lemma roundIdx_less: "0 < n \<Longrightarrow> roundIdx start n i < n"
  by (simp add: roundIdx_def nat_less_iff)

lemma roundIdx_inj:
  assumes "0 \<le> start" "start + int n \<le> 2 ^ 64" "i < n" "j < n" "roundIdx start n i = roundIdx start n j"
  shows "i = j"
proof -
  have "(start + int i) mod 2 ^ 64 = start + int i" "(start + int j) mod 2 ^ 64 = start + int j"
    using assms by (auto intro: mod_pos_pos_trivial)
  then have "(start + int i) mod int n = (start + int j) mod int n"
    using assms by (simp add: roundIdx_def eq_nat_nat_iff)
  then have "int n dvd int i - int j"
    by (metis add_diff_cancel_left mod_eq_dvd_iff)
  then show "i = j"
    using assms(3,4) dvd_imp_le_int [of "int i - int j" "int n"] by (cases "i = j") linarith+
qed

lemma withBody_twice: "replayable r \<Longrightarrow> withBody (closeBody (withBody r)) = withBody r"
  by (cases r) (auto simp: replayable_def withBody_def closeBody_def GetBodyBytes_def split: option.splits body.splits)

lemma replayable_again: "replayable r \<Longrightarrow> replayable (closeBody (withBody r))"
  by (cases r) (auto simp: replayable_def withBody_def closeBody_def GetBodyBytes_def split: option.splits body.splits)

lemma method_again [simp]: "r_Method (closeBody r) = r_Method r" "r_Method (withBody r) = r_Method r"
  by (auto simp: withBody_def closeBody_def split: option.splits body.splits)

lemma sendResponse_global [simp]: "global (sendResponse w code hdr body aborted st) = global st"
  by (simp add: sendResponse_def Let_def)

lemma setHealthy_fixed: "map be_fixed (lb_backends (setHealthy idx h lb)) = map be_fixed (lb_backends lb)"
  by (cases "idx < length (lb_backends lb)")
     (simp_all add: setHealthy_def be_fixed_def map_update list_update_same_conv list_update_beyond)

text \<open>One attempt sends at most the backend's own request, and keeps what is fixed.\<close>

definition send :: "(url \<times> string) list \<Rightarrow> nat \<Rightarrow> http_request \<Rightarrow> http_request" where
  "send fx idx r = outbound (fst (fx ! idx)) (snd (fx ! idx)) r"

lemma attempt_logged:
  assumes "keepsBackends T" and "attempt (logged T) idx w r st = (att, st')" and "global st = (lb, log, e)"
  obtains lb' sent e' where "global st' = (lb', log @ sent, e')"
    and "map be_fixed (lb_backends lb') = map be_fixed (lb_backends lb)"
    and "idx < length (lb_backends lb) \<Longrightarrow> sent = [] \<or> sent = [send (map be_fixed (lb_backends lb)) idx r]"
proof -
  let ?out = "outbound (be_target (lb_backends lb ! idx)) (be_apiKey (lb_backends lb ! idx)) r"
  obtain res lb1 e1 where T: "T ?out (lb, e) = (res, lb1, e1)" by (metis prod_cases3)
  have keep: "map be_fixed (lb_backends lb1) = map be_fixed (lb_backends lb)"
    using assms(1) T unfolding keepsBackends_def by (metis fst_conv snd_conv)
  show thesis
  proof (cases "ascii_IsPrint (upgradeType (r_Header r))")
    case True
    then show thesis
      using assms(2) keep by (intro that [of "fst (global st')" "[?out]" e1])
        (auto simp: attempt_def roundTrip_def logged_def Let_def assms(3) T setHealthy_fixed send_def be_fixed_def
              split: rt_result.splits if_splits)
  next
    case False
    then show thesis
      using assms(2) by (intro that [of "fst (global st')" "[]" e])
        (auto simp: attempt_def roundTrip_def Let_def assms(3) setHealthy_fixed)
  qed
qed


lemma serveLoop_Suc:
  assumes "attempts < maxAttempts" and "length (lb_backends (fst (global st))) = n"
  shows "serveLoop T start (Suc k) (int i) attempts w r st =
     (if \<not> be_healthy (lb_backends (fst (global st)) ! roundIdx start n i)
      then serveLoop T start k (int (Suc i)) attempts w r st
      else (case attempt T (roundIdx start n i) w (withBody r) st of
              (att, st1) \<Rightarrow>
                if \<not> att_failed att \<or> att_canceled att then Inl st1
                else if \<not> isIdempotentMethod (r_Method r) then Inr (Suc attempts, st1)
                else serveLoop T start k (int (Suc i)) (Suc attempts) w (closeBody (withBody r)) st1))"
proof -
  have idx: "nat ((start + int i) mod 2 ^ 64 mod int (length (lb_backends (fst (global st))))) = roundIdx start n i"
    by (simp only: roundIdx_def assms(2))
  have suc: "int i + 1 = int (Suc i)" by simp
  show ?thesis
    using assms(1) unfolding serveLoop.simps Let_def idx suc
    by (auto split: prod.split)
qed

text \<open>One round of the loop that tries a backend: what it sends, and how the loop goes on.\<close>

lemma serveLoop_tried:
  assumes "keepsBackends T" and "0 \<le> start" and "start + int n \<le> 2 ^ 64"
    and g: "global st = (lb, log, e)" and fx: "map be_fixed (lb_backends lb) = fx" "length fx = n" "i < n"
    and tried: "attempts < maxAttempts" "be_healthy (lb_backends lb ! roundIdx start n i)"
  obtains st' lb' first e' where
    "global st' = (lb', log @ map (\<lambda>j. send fx (roundIdx start n j) (withBody r)) first, e')"
    "map be_fixed (lb_backends lb') = fx" "set first \<subseteq> {i..<Suc i}" "distinct first" "length first \<le> 1"
    "loopState (serveLoop (logged T) start (Suc k) (int i) attempts w r st) = st' \<or>
     isIdempotentMethod (r_Method r) \<and>
     serveLoop (logged T) start (Suc k) (int i) attempts w r st =
       serveLoop (logged T) start k (int (Suc i)) (Suc attempts) w (closeBody (withBody r)) st'"
proof -
  let ?idx = "roundIdx start n i" and ?r = "withBody r"
  have len: "length (lb_backends lb) = n" using fx(1,2) by auto
  have lt: "?idx < length (lb_backends lb)" using fx(3) len by (simp add: roundIdx_less)
  obtain att st1 where att: "attempt (logged T) ?idx w ?r st = (att, st1)" by fastforce
  obtain lb1 sent e1 where st1: "global st1 = (lb1, log @ sent, e1)"
      and fx1: "map be_fixed (lb_backends lb1) = map be_fixed (lb_backends lb)"
      and sent: "sent = [] \<or> sent = [send fx ?idx ?r]"
    using attempt_logged [OF assms(1) att g] lt fx(1) by metis
  have loop: "serveLoop (logged T) start (Suc k) (int i) attempts w r st =
      (if \<not> att_failed att \<or> att_canceled att then Inl st1
       else if \<not> isIdempotentMethod (r_Method r) then Inr (Suc attempts, st1)
       else serveLoop (logged T) start k (int (Suc i)) (Suc attempts) w (closeBody ?r) st1)"
    using tried serveLoop_Suc [where T = "logged T" and st = st and n = n and i = i and k = k and w = w and r = r]
      assms(2,3) by (simp add: g len att fx del: serveLoop.simps of_nat_Suc)
  have "sent = map (\<lambda>j. send fx (roundIdx start n j) ?r) (if sent = [] then [] else [i])"
    using sent by auto
  then show thesis
    using st1 fx1 fx(1)
    by (intro that [of st1 lb1 "if sent = [] then [] else [i]" e1])
       (auto simp: loop loopState_def simp del: serveLoop.simps of_nat_Suc)
qed

lemma serveLoop_logged:
  assumes "keepsBackends T" and "0 \<le> start" and "start + int n \<le> 2 ^ 64"
  shows "\<lbrakk>global st = (lb, log, e); map be_fixed (lb_backends lb) = fx; length fx = n; i + k = n;
          attempts \<le> maxAttempts; replayable r\<rbrakk> \<Longrightarrow>
     \<exists>lb' e' rounds.
       global (loopState (serveLoop (logged T) start k (int i) attempts w r st)) =
         (lb', log @ map (\<lambda>j. send fx (roundIdx start n j) (withBody r)) rounds, e') \<and>
       distinct rounds \<and> set rounds \<subseteq> {i..<n} \<and> length rounds + attempts \<le> maxAttempts \<and>
       (\<not> isIdempotentMethod (r_Method r) \<longrightarrow> length rounds \<le> 1)"
proof (induction k arbitrary: i attempts r st lb log e)
  case 0
  then show ?case by (intro exI [of _ lb] exI [of _ e] exI [of _ "[]"]) (simp add: loopState_def)
next
  case (Suc k)
  let ?idx = "roundIdx start n i" and ?r = "withBody r"
  have len: "length (lb_backends lb) = n" using Suc.prems(2,3) by auto
  have lt: "?idx < length (lb_backends lb)" using Suc.prems(4) len by (simp add: roundIdx_less)
  note step = serveLoop_Suc [where T = "logged T" and st = st and n = n and i = i and k = k and w = w and r = r]
  consider (full) "\<not> attempts < maxAttempts" | (skip) "attempts < maxAttempts" "\<not> be_healthy (lb_backends lb ! ?idx)"
    | (tried) "attempts < maxAttempts" "be_healthy (lb_backends lb ! ?idx)" by blast
  then show ?case
  proof cases
    case full
    then show ?thesis using Suc.prems
      by (intro exI [of _ lb] exI [of _ e] exI [of _ "[]"]) (simp add: loopState_def)
  next
    case skip
    then have "serveLoop (logged T) start (Suc k) (int i) attempts w r st =
        serveLoop (logged T) start k (int (Suc i)) attempts w r st"
      by (simp add: step Suc.prems(1) len del: serveLoop.simps of_nat_Suc)
    then show ?thesis
      using Suc.IH [OF Suc.prems(1-3) _ Suc.prems(5,6), of "Suc i"] Suc.prems(4)
      by (fastforce simp del: serveLoop.simps of_nat_Suc)
  next
    case tried
    have i: "i < n" using Suc.prems(4) by simp
    obtain st1 lb1 first e1 where
        st1: "global st1 = (lb1, log @ map (\<lambda>j. send fx (roundIdx start n j) ?r) first, e1)"
        and fx1: "map be_fixed (lb_backends lb1) = fx"
        and first: "set first \<subseteq> {i..<Suc i}" "distinct first" "length first \<le> 1"
        and loop: "loopState (serveLoop (logged T) start (Suc k) (int i) attempts w r st) = st1 \<or>
          isIdempotentMethod (r_Method r) \<and>
          serveLoop (logged T) start (Suc k) (int i) attempts w r st =
            serveLoop (logged T) start k (int (Suc i)) (Suc attempts) w (closeBody ?r) st1"
      by (rule serveLoop_tried [OF assms Suc.prems(1-3) i tried])
    from loop show ?thesis
    proof
      assume "loopState (serveLoop (logged T) start (Suc k) (int i) attempts w r st) = st1"
      then show ?thesis
        using first tried(1) Suc.prems(4) st1
        by (intro exI [of _ lb1] exI [of _ e1] exI [of _ first]) auto
    next
      assume go: "isIdempotentMethod (r_Method r) \<and>
          serveLoop (logged T) start (Suc k) (int i) attempts w r st =
            serveLoop (logged T) start k (int (Suc i)) (Suc attempts) w (closeBody ?r) st1"
      obtain lb' e' rounds where rest:
          "global (loopState (serveLoop (logged T) start k (int (Suc i)) (Suc attempts) w (closeBody ?r) st1)) =
            (lb', (log @ map (\<lambda>j. send fx (roundIdx start n j) ?r) first) @
              map (\<lambda>j. send fx (roundIdx start n j) ?r) rounds, e')"
          "distinct rounds" "set rounds \<subseteq> {Suc i..<n}" "length rounds + Suc attempts \<le> maxAttempts"
        using Suc.IH [OF st1 fx1 Suc.prems(3), of "Suc i" "Suc attempts" "closeBody ?r"] Suc.prems tried(1)
        by (auto simp: replayable_again withBody_twice simp del: serveLoop.simps)
      then show ?thesis
        using go first Suc.prems(4)
        by (intro exI [of _ lb'] exI [of _ e'] exI [of _ "first @ rounds"]) (auto simp del: serveLoop.simps)
    qed
  qed
qed


lemma counter_start:
  "0 \<le> c \<Longrightarrow> c < 2 ^ 64 \<Longrightarrow> ((c + 1) mod 2 ^ 64 - 1) mod 2 ^ 64 = (c :: int)"
  by (simp add: mod_diff_left_eq)

definition bumped :: "(Balancer \<times> 'e) rstate \<Rightarrow> (Balancer \<times> 'e) rstate" where
  "bumped st =
     st\<lparr>global := (fst (global st)\<lparr>lb_counter := (lb_counter (fst (global st)) + 1) mod 2 ^ 64\<rparr>, snd (global st))\<rparr>"

text \<open>The handler is the loop from the counter's old value, and an error if the loop ends.\<close>

lemma balancer_ServeHTTP_loop:
  assumes "0 \<le> lb_counter (fst (global st))" and "lb_counter (fst (global st)) < 2 ^ 64"
  shows "balancer_ServeHTTP T w r st =
     (case serveLoop T (lb_counter (fst (global st))) (length (lb_backends (fst (global st)))) 0 0 w r (bumped st) of
        Inl st \<Rightarrow> st
      | Inr (attempts, st) \<Rightarrow>
          http_Error w (if attempts = 0 then ''no healthy backends'' else ''bad gateway'') 502 st)"
proof (cases "global st")
  case (Pair lb e)
  have start: "((lb_counter lb + 1) mod 2 ^ 64 - 1) mod 2 ^ 64 = lb_counter lb"
    using assms counter_start [of "lb_counter lb"] by (simp add: Pair)
  show ?thesis
    unfolding balancer_ServeHTTP_def bumped_def Let_def Pair prod.case fst_conv snd_conv start
    by (intro sum.case_cong prod.case_cong refl ext) simp
qed

definition demoBackend :: "string \<Rightarrow> backendEntry" where
  "demoBackend host =
     \<lparr>be_target = \<lparr>u_Scheme = ''http'', u_Host = host, u_Path = [], u_RawQuery = []\<rparr>,
      be_url = ''http://'' @ host, be_apiKey = host, be_healthy = True\<rparr>"

definition demoBalancer :: Balancer where
  "demoBalancer = \<lparr>lb_backends = [demoBackend ''a'', demoBackend ''b'', demoBackend ''c''], lb_counter = 4\<rparr>"

definition demoGet :: http_request where
  "demoGet = \<lparr>r_Method = ''GET'', r_Scheme = [], r_Host = ''gw'', r_Path = ''/api'', r_RawQuery = [], r_Header = [],
     r_Body = NoBody, r_ContentLength = 0, r_RemoteAddr = [], r_ctx = Background\<rparr>"

text \<open>
  C28: Whatever other requests and health checks do to the health flags meanwhile, one request
  is sent to at most two backends, to at most one if its method is not idempotent, and never
  twice to the same backend; every copy that is sent is the client's request with its body,
  rewritten for that backend and carrying that backend's key.
\<close>

theorem balancer_attempts:
  assumes "keepsBackends T" and "global st = (lb, [], e)" and "replayable r"
    and "0 \<le> lb_counter lb" and "lb_counter lb + int (length (lb_backends lb)) < 2 ^ 64"
  shows "\<exists>lb' e' idxs.
     global (balancer_ServeHTTP (logged T) w r st) =
       (lb', map (\<lambda>idx. outbound (be_target (lb_backends lb ! idx)) (be_apiKey (lb_backends lb ! idx)) (withBody r)) idxs, e') \<and>
     distinct idxs \<and> set idxs \<subseteq> {..<length (lb_backends lb)} \<and>
     length idxs \<le> (if isIdempotentMethod (r_Method r) then 2 else 1)"
proof -
  let ?n = "length (lb_backends lb)" and ?fx = "map be_fixed (lb_backends lb)"
  let ?idx = "roundIdx (lb_counter lb) ?n"
  let ?loop = "serveLoop (logged T) (lb_counter lb) ?n (int 0) 0 w r (bumped st)"
  have g: "global (bumped st) = (lb\<lparr>lb_counter := (lb_counter lb + 1) mod 2 ^ 64\<rparr>, [], e)"
    by (simp add: bumped_def assms(2))
  have bound: "lb_counter lb + int ?n \<le> 2 ^ 64" using assms(5) by linarith
  have "\<exists>lb' e' rounds.
      global (loopState ?loop) = (lb', [] @ map (\<lambda>j. send ?fx (?idx j) (withBody r)) rounds, e') \<and>
      distinct rounds \<and> set rounds \<subseteq> {0..<?n} \<and> length rounds + 0 \<le> maxAttempts \<and>
      (\<not> isIdempotentMethod (r_Method r) \<longrightarrow> length rounds \<le> 1)"
    by (rule serveLoop_logged [OF assms(1,4) bound g _ _ _ _ assms(3)]) simp_all
  then obtain lb' e' rounds where loop:
      "global (loopState ?loop) = (lb', [] @ map (\<lambda>j. send ?fx (?idx j) (withBody r)) rounds, e')"
      "distinct rounds" "set rounds \<subseteq> {0..<?n}" "length rounds + 0 \<le> maxAttempts"
      "\<not> isIdempotentMethod (r_Method r) \<longrightarrow> length rounds \<le> 1"
    by blast
  have "inj_on ?idx {0..<?n}"
    using roundIdx_inj [of "lb_counter lb" ?n] assms(4,5) by (auto intro!: inj_onI)
  then have dist: "distinct (map ?idx rounds)"
    using loop(2,3) by (auto simp: distinct_map intro: inj_on_subset)
  have range: "set (map ?idx rounds) \<subseteq> {..<?n}"
  proof
    fix x assume "x \<in> set (map ?idx rounds)"
    then obtain j where j: "j \<in> set rounds" "x = ?idx j" by auto
    then have "0 < ?n" using loop(3) by auto
    then show "x \<in> {..<?n}" using roundIdx_less j(2) by simp
  qed
  have "global (balancer_ServeHTTP (logged T) w r st) = global (loopState ?loop)"
    using assms(4,5) balancer_ServeHTTP_loop [of st "logged T" w r]
    by (simp add: assms(2) loopState_def split: sum.split prod.split)
  moreover have "map (\<lambda>j. send ?fx (?idx j) (withBody r)) rounds =
      map (\<lambda>idx. outbound (be_target (lb_backends lb ! idx)) (be_apiKey (lb_backends lb ! idx)) (withBody r)) (map ?idx rounds)"
    using range by (auto simp: send_def be_fixed_def)
  ultimately show ?thesis
    using loop(1,4,5) dist range
    by (intro exI [of _ lb'] exI [of _ e'] exI [of _ "map ?idx rounds"]) (simp add: maxAttempts_def)
qed

theorem balancer_attempts_witness:
  "\<exists>lb' e' idxs.
     global (balancer_ServeHTTP (logged (\<lambda>out g. (RTError False, g))) RawWriter demoGet
        (freshState (demoBalancer, [], ()))) =
       (lb', map (\<lambda>idx. outbound (be_target (lb_backends demoBalancer ! idx)) (be_apiKey (lb_backends demoBalancer ! idx))
                  (withBody demoGet)) idxs, e') \<and>
     distinct idxs \<and> set idxs \<subseteq> {..<length (lb_backends demoBalancer)} \<and>
     length idxs \<le> (if isIdempotentMethod (r_Method demoGet) then 2 else 1)"
  by (rule balancer_attempts)
     (simp_all add: keepsBackends_def freshState_def replayable_def demoGet_def demoBalancer_def)


section \<open>Failover\<close>

text \<open>
  The reference: try a list of backends in order.  An answer or a cancellation ends it, a
  failure of a request that must not be repeated is a 502.
\<close>

fun failover ::
  "(Balancer \<times> 'e) transport \<Rightarrow> nat list \<Rightarrow> ResponseWriter \<Rightarrow> http_request \<Rightarrow> (Balancer \<times> 'e) rstate \<Rightarrow>
   (Balancer \<times> 'e) rstate" where
  "failover transport [] w r st = http_Error w ''bad gateway'' 502 st"
| "failover transport (idx # idxs) w r st =
     (case attempt transport idx w r st of
        (att, st1) \<Rightarrow>
          if \<not> att_failed att \<or> att_canceled att then st1
          else failover transport (if isIdempotentMethod (r_Method r) then idxs else []) w r st1)"

definition healthyFrom :: "Balancer \<Rightarrow> int \<Rightarrow> nat \<Rightarrow> nat list" where
  "healthyFrom lb start i =
     filter (\<lambda>idx. be_healthy (lb_backends lb ! idx))
       (map (roundIdx start (length (lb_backends lb))) [i..<length (lb_backends lb)])"

definition quiet :: "(Balancer \<times> 'e) transport \<Rightarrow> bool" where
  "quiet transport \<longleftrightarrow> (\<forall>out g. fst (snd (transport out g)) = fst g)"

definition loopEnd :: "ResponseWriter \<Rightarrow> 'g rstate + nat \<times> 'g rstate \<Rightarrow> 'g rstate" where
  "loopEnd w res =
     (case res of
        Inl st \<Rightarrow> st
      | Inr (attempts, st) \<Rightarrow>
          http_Error w (if attempts = 0 then ''no healthy backends'' else ''bad gateway'') 502 st)"

lemma attempt_failed_quiet:
  assumes "quiet T" and "attempt T idx w r st = (att, st1)" and "att_failed att" and "\<not> att_canceled att"
  shows "fst (global st1) = setHealthy idx False (fst (global st))"
proof -
  obtain lb e where g: "global st = (lb, e)" by fastforce
  let ?out = "outbound (be_target (lb_backends lb ! idx)) (be_apiKey (lb_backends lb ! idx)) r"
  obtain res e1 where T: "T ?out (lb, e) = (res, lb, e1)"
    using assms(1) unfolding quiet_def by (metis fst_conv prod.collapse)
  show ?thesis
    using assms(2-4) by (auto simp: attempt_def roundTrip_def Let_def g T split: rt_result.splits if_splits)
qed

text \<open>Marking one backend leaves the rest of the round as it was.\<close>

lemma healthyFrom_setHealthy:
  assumes "0 \<le> start" and "start + int (length (lb_backends lb)) \<le> 2 ^ 64" and "i < length (lb_backends lb)"
  shows "healthyFrom (setHealthy (roundIdx start (length (lb_backends lb)) i) h lb) start (Suc i) =
     healthyFrom lb start (Suc i)"
proof -
  let ?n = "length (lb_backends lb)"
  have "roundIdx start ?n i \<noteq> roundIdx start ?n j" if "Suc i \<le> j" "j < ?n" for j
    using roundIdx_inj [OF assms(1,2), of j i] assms(3) that by auto
  then show ?thesis
    by (auto simp: healthyFrom_def setHealthy_def nth_list_update_neq intro!: filter_cong)
qed

lemma healthyFrom_step:
  "i < length (lb_backends lb) \<Longrightarrow>
   healthyFrom lb start i =
     (let idx = roundIdx start (length (lb_backends lb)) i
      in if be_healthy (lb_backends lb ! idx) then idx # healthyFrom lb start (Suc i)
         else healthyFrom lb start (Suc i))"
  by (simp add: healthyFrom_def Let_def upt_conv_Cons)

lemma serveLoop_failover:
  assumes "quiet T" and "0 \<le> start" and "start + int n \<le> 2 ^ 64"
  shows "\<lbrakk>length (lb_backends (fst (global st))) = n; i + k = n; attempts \<le> maxAttempts; replayable r\<rbrakk> \<Longrightarrow>
     loopEnd w (serveLoop T start k (int i) attempts w r st) =
       (if attempts = 0 \<and> healthyFrom (fst (global st)) start i = []
        then http_Error w ''no healthy backends'' 502 st
        else failover T (take (maxAttempts - attempts) (healthyFrom (fst (global st)) start i)) w (withBody r) st)"
proof (induction k arbitrary: i attempts r st)
  case 0
  then show ?case by (simp add: loopEnd_def healthyFrom_def)
next
  case (Suc k)
  let ?lb = "fst (global st)" and ?idx = "roundIdx start n i" and ?r = "withBody r"
  have lt: "i < length (lb_backends ?lb)" using Suc.prems(1,2) by simp
  note from_i = healthyFrom_step [OF lt, of start, unfolded Let_def Suc.prems(1)]
  consider (full) "attempts = maxAttempts" | (skip) "attempts < maxAttempts" "\<not> be_healthy (lb_backends ?lb ! ?idx)"
    | (tried) "attempts < maxAttempts" "be_healthy (lb_backends ?lb ! ?idx)"
    using Suc.prems(3) by linarith
  then show ?case
  proof cases
    case full
    then show ?thesis by (simp add: loopEnd_def maxAttempts_def)
  next
    case skip
    then show ?thesis
      using Suc.IH [of st "Suc i" attempts r] Suc.prems
      by (simp add: serveLoop_Suc [OF skip(1) Suc.prems(1)] from_i del: serveLoop.simps of_nat_Suc)
  next
    case tried
    obtain att st1 where att: "attempt T ?idx w ?r st = (att, st1)" by fastforce
    have take: "take (maxAttempts - attempts) (healthyFrom ?lb start i) =
        ?idx # take (maxAttempts - Suc attempts) (healthyFrom ?lb start (Suc i))"
      using tried by (simp add: from_i Suc_diff_Suc [symmetric])
    have some: "healthyFrom ?lb start i \<noteq> []" using tried(2) by (simp add: from_i)
    note loop = serveLoop_Suc [OF tried(1) Suc.prems(1), of T start k i w r]
    show ?thesis
    proof (cases "(\<not> att_failed att \<or> att_canceled att) \<or> \<not> isIdempotentMethod (r_Method r)")
      case True
      then show ?thesis
        using tried(2) some by (auto simp: loop att loopEnd_def take simp del: serveLoop.simps of_nat_Suc)
    next
      case False
      then have lb1: "fst (global st1) = setHealthy ?idx False ?lb"
        using attempt_failed_quiet [OF assms(1) att] by blast
      have len1: "length (lb_backends (fst (global st1))) = n"
        using Suc.prems(1) by (simp add: lb1 setHealthy_def)
      have same: "healthyFrom (fst (global st1)) start (Suc i) = healthyFrom ?lb start (Suc i)"
        using healthyFrom_setHealthy [of start ?lb i False] assms(2,3) lt Suc.prems(1) by (simp add: lb1)
      have "loopEnd w (serveLoop T start k (int (Suc i)) (Suc attempts) w (closeBody ?r) st1) =
          failover T (take (maxAttempts - Suc attempts) (healthyFrom ?lb start (Suc i))) w ?r st1"
        using Suc.IH [of st1 "Suc i" "Suc attempts" "closeBody ?r"] Suc.prems tried(1)
        by (simp add: same len1 replayable_again withBody_twice del: of_nat_Suc)
      then show ?thesis
        using False tried(2) some by (simp add: loop att take del: serveLoop.simps of_nat_Suc)
    qed
  qed
qed


text \<open>
  C29: While no other request and no health check changes a flag, the balancer behaves as the
  reference: it tries, from the round-robin position on, the first two backends that are
  healthy, answers 502 at once if there is none, and a second one is asked exactly when the
  first fails for another reason than the client's cancellation and the method is idempotent.
\<close>

theorem balancer_failover:
  assumes "quiet T" and "replayable r" and "0 \<le> lb_counter (fst (global st))"
    and "lb_counter (fst (global st)) + int (length (lb_backends (fst (global st)))) < 2 ^ 64"
  shows "balancer_ServeHTTP T w r st =
     (let candidates = healthyFrom (fst (global st)) (lb_counter (fst (global st))) 0
      in if candidates = [] then http_Error w ''no healthy backends'' 502 (bumped st)
         else failover T (take 2 candidates) w (withBody r) (bumped st))"
proof -
  let ?lb = "fst (global st)"
  have bound: "lb_counter ?lb + int (length (lb_backends ?lb)) \<le> 2 ^ 64" "lb_counter ?lb < 2 ^ 64"
    using assms(4) by linarith+
  have same: "healthyFrom (fst (global (bumped st))) start 0 = healthyFrom ?lb start 0" for start
    by (simp add: bumped_def healthyFrom_def)
  have "balancer_ServeHTTP T w r st =
      loopEnd w (serveLoop T (lb_counter ?lb) (length (lb_backends ?lb)) (int 0) 0 w r (bumped st))"
    using balancer_ServeHTTP_loop [OF assms(3) bound(2), of T w r] by (simp add: loopEnd_def)
  also have "\<dots> = (if (0 :: nat) = 0 \<and> healthyFrom ?lb (lb_counter ?lb) 0 = []
      then http_Error w ''no healthy backends'' 502 (bumped st)
      else failover T (take (maxAttempts - 0) (healthyFrom ?lb (lb_counter ?lb) 0)) w (withBody r) (bumped st))"
    unfolding same [symmetric]
    by (rule serveLoop_failover [OF assms(1,3) bound(1) _ _ _ assms(2)]) (simp_all add: bumped_def)
  finally show ?thesis by (simp add: Let_def maxAttempts_def)
qed

theorem balancer_failover_witness:
  "balancer_ServeHTTP (\<lambda>out g. (RTError False, g)) RawWriter demoGet (freshState (demoBalancer, ())) =
     (let candidates = healthyFrom (fst (global (freshState (demoBalancer, ()))))
                         (lb_counter (fst (global (freshState (demoBalancer, ()))))) 0
      in if candidates = [] then http_Error RawWriter ''no healthy backends'' 502 (bumped (freshState (demoBalancer, ())))
         else failover (\<lambda>out g. (RTError False, g)) (take 2 candidates) RawWriter (withBody demoGet)
                (bumped (freshState (demoBalancer, ()))))"
  by (rule balancer_failover)
     (simp_all add: quiet_def freshState_def replayable_def demoGet_def demoBalancer_def)


section \<open>Health\<close>

text \<open>
  A client can take healthy backends out of rotation: a request to upgrade to a protocol whose
  name is not printable is refused by the reverse proxy before any round trip, and the error
  handler takes that for a failure of the backend.  No request reaches the backends, whatever
  they would have answered.
\<close>

lemma upgrade_marks_unhealthy:
  "map be_healthy (lb_backends (fst (global (balancer_ServeHTTP transport RawWriter
       (demoGet\<lparr>r_Header := [(''Connection'', [''Upgrade'']), (''Upgrade'', [[CHR 0x80]])]\<rparr>)
       (freshState (demoBalancer, e)))))) = [True, False, False]"
proof -
  let ?h = "[(''Connection'', [''Upgrade'']), (''Upgrade'', [[CHR 0x80]])] :: header"
  have "\<not> ascii_IsPrint (upgradeType ?h)" by code_simp
  then show ?thesis
    by (simp add: balancer_ServeHTTP_def demoBalancer_def demoBackend_def freshState_def attempt_def roundTrip_def
        withBody_def closeBody_def GetBodyBytes_def demoGet_def Background_def setHealthy_def maxAttempts_def
        isIdempotentMethod_def numeral_3_eq_3 Let_def)
qed

lemma checkOne_healthy:
  "be_healthy (checkOne (Some (Some code)) entry) \<longleftrightarrow> 200 \<le> code \<and> code < 300"
  "\<not> be_healthy (checkOne (Some None) entry)"
  "be_fixed (checkOne outcome entry) = be_fixed entry"
  by (auto simp: checkOne_def be_fixed_def split: option.split)

lemma checkAll_fixed:
  "length outcomes = length (lb_backends lb) \<Longrightarrow>
   map be_fixed (lb_backends (checkAll outcomes lb)) = map be_fixed (lb_backends lb)"
  by (auto simp: checkAll_def checkOne_healthy(3) intro!: nth_equalityI)

text \<open>
  Whatever requests and earlier probes did to the flags, the backends stay the same, and a tick
  whose probes all succeed makes every backend healthy again.
\<close>

fun keepsEntries :: "nat \<Rightarrow> health_event \<Rightarrow> bool" where
  "keepsEntries n (ProbeTick outcomes) \<longleftrightarrow> length outcomes = n"
| "keepsEntries n ProbeDone \<longleftrightarrow> False"
| "keepsEntries n (Served f) \<longleftrightarrow> (\<forall>lb. map be_fixed (lb_backends (f lb)) = map be_fixed (lb_backends lb))"

lemma healthLoop_fixed:
  assumes "list_all (keepsEntries (length (lb_backends lb))) es"
  shows "map be_fixed (lb_backends (healthLoop es lb)) = map be_fixed (lb_backends lb)"
  using assms
proof (induction es lb rule: healthLoop.induct)
  case (2 outcomes es lb)
  then show ?case using checkAll_fixed [of outcomes lb] by (simp add: checkAll_def)
next
  case (4 f es lb)
  then have same: "map be_fixed (lb_backends (f lb)) = map be_fixed (lb_backends lb)" by simp
  then have "length (lb_backends (f lb)) = length (lb_backends lb)" by (rule map_eq_imp_length_eq)
  then show ?case using 4 same by simp
qed simp_all

lemma healthLoop_append:
  "list_all (keepsEntries n) es \<Longrightarrow> healthLoop (es @ fs) lb = healthLoop fs (healthLoop es lb)"
  by (induction es lb rule: healthLoop.induct) auto

lemma healthLoop_recovers:
  assumes es: "list_all (keepsEntries (length (lb_backends lb))) es"
    and ok: "length outcomes = length (lb_backends lb)" "\<forall>out\<in>set outcomes. out = Some (Some 200)"
  shows "list_all be_healthy (lb_backends (healthLoop (es @ [ProbeTick outcomes]) lb))"
proof -
  let ?lb = "healthLoop es lb"
  have "length (lb_backends ?lb) = length (lb_backends lb)"
    using healthLoop_fixed [OF es] by (rule map_eq_imp_length_eq)
  then have "\<forall>i < length (lb_backends ?lb). outcomes ! i = Some (Some 200)"
    using ok by simp
  then show ?thesis
    using healthLoop_append [OF es] by (auto simp: checkAll_def checkOne_def list_all_length)
qed

lemma balancer_New_healthy:
  assumes "balancer_New parseURL backends = Some lb"
  shows "balancer_Healthy lb"
proof -
  have "list_all be_healthy es \<and> length es = length bs" if "newEntries parseURL bs = Some es" for bs es
    using that by (induction parseURL bs arbitrary: es rule: newEntries.induct) (auto split: option.splits)
  from this [of backends "lb_backends lb"] show ?thesis
    using assms by (cases "lb_backends lb") (auto simp: balancer_New_def balancer_Healthy_def split: if_splits)
qed

end
