(* ===== verification/Request_Audit.thy ===== *)
theory Request_Audit
  imports Json Client_IP Middleware
begin

text \<open>
  Auditing of requests: the entry and the publisher interface \<^verbatim>\<open>src/internal/audit/audit.go\<close>, the
  sanitizing of logged bodies \<^verbatim>\<open>body.go\<close>, and the middleware \<^verbatim>\<open>middleware.go\<close>.

  Three tables of the standard library are arguments: the shortest decimal of a float, the
  printable runes outside ASCII, and the lower case of strings that are not ASCII.
\<close>

section \<open>Entries and publishers\<close>

record Entry =
  e_Timestamp :: gotime
  e_RequestID :: string
  e_Principal :: string
  e_KeyID :: string
  e_Method :: string
  e_Path :: string
  e_Query :: string
  e_SourceIP :: string
  e_UserAgent :: string
  e_StatusCode :: int
  e_LatencyMs :: int
  e_AuthzDecision :: string
  e_AuthzPlugin :: string
  e_AuthzReason :: string
  e_RequestBody :: "string option"

text \<open>
  A publisher acts on the gateway state.  \<open>reserver\<close> holds \<^verbatim>\<open>Reserve\<close> and the commit it returns, if
  the publisher implements \<^verbatim>\<open>Reserver\<close>.
\<close>

record 'g Publisher =
  publish :: "Entry \<Rightarrow> 'g \<Rightarrow> bool \<times> 'g"
  reserver :: "(('g \<Rightarrow> bool \<times> 'g) \<times> (Entry \<Rightarrow> 'g \<Rightarrow> 'g)) option"

definition noop_Publish :: "Entry \<Rightarrow> 'g \<Rightarrow> bool \<times> 'g" where
  "noop_Publish e g = (True, g)"

definition noop_Reserve :: "'g \<Rightarrow> bool \<times> 'g" where
  "noop_Reserve g = (True, g)"

definition audit_Noop :: "'g Publisher" where
  "audit_Noop = \<lparr>publish = noop_Publish, reserver = Some (noop_Reserve, \<lambda>e g. g)\<rparr>"


section \<open>Bodies\<close>

record go_tables =
  t_fmt :: "rat \<Rightarrow> string"
  t_isPrint :: "string \<Rightarrow> bool"
  t_lower :: "string \<Rightarrow> string"

definition strings_ToLower :: "go_tables \<Rightarrow> string \<Rightarrow> string" where
  "strings_ToLower T s = (if list_all (byte_in 0 0x7F) s then map ascii_lower s else t_lower T s)"

fun redactValue :: "go_tables \<Rightarrow> string list \<Rightarrow> json \<Rightarrow> json" where
  "redactValue T redact (JObj ms) =
     JObj (map (\<lambda>(k, v). (k, if strings_ToLower T k \<in> set redact then JStr ''[REDACTED]'' else redactValue T redact v)) ms)"
| "redactValue T redact (JArr vs) = JArr (map (redactValue T redact) vs)"
| "redactValue T redact v = v"

definition sanitizeBody :: "go_tables \<Rightarrow> bytes \<Rightarrow> int \<Rightarrow> string list \<Rightarrow> string option" where
  "sanitizeBody T raw maxBytes redact =
     (if raw = [] then None
      else
        (let valid = json_Valid raw;
             out = (if valid \<and> redact \<noteq> [] then
                      (case json_Unmarshal (t_fmt T) raw of
                         None \<Rightarrow> raw
                       | Some v \<Rightarrow> json_encode (redactValue T redact v))
                    else raw)
         in if maxBytes > 0 \<and> int (length out) > maxBytes
            then Some (strconv_Quote (t_isPrint T) (take (nat maxBytes) out @ ''...(truncated)''))
            else if valid then Some out
            else Some (strconv_Quote (t_isPrint T) out)))"


section \<open>Addresses as text\<close>

fun itoaLoop :: "nat \<Rightarrow> nat \<Rightarrow> string" where
  "itoaLoop 0 n = []"
| "itoaLoop (Suc k) n = (if n < 10 then [] else itoaLoop k (n div 10)) @ [char_of (48 + n mod 10)]"

text \<open>Decimal and hexadecimal digits of a byte or a 16-bit group, without leading zeros.\<close>

definition decByte :: "int \<Rightarrow> string" where
  "decByte b = itoaLoop 3 (nat b)"

definition hexGroup :: "int \<Rightarrow> string" where
  "hexGroup g =
     map (\<lambda>i. hextable ! nat (g div 16 ^ i mod 16))
       (rev [0..<(if g < 16 then 1 else if g < 256 then 2 else if g < 4096 then 3 else 4)])"

fun groups16 :: "int list \<Rightarrow> int list" where
  "groups16 (a # b # r) = (a * 256 + b) # groups16 r"
| "groups16 _ = []"

text \<open>The leftmost longest run of at least two zero groups, as start and end.\<close>

definition zeroRun :: "int list \<Rightarrow> (nat \<times> nat) option" where
  "zeroRun gs =
     (let len = (\<lambda>i. length (takeWhile (\<lambda>g. g = 0) (drop i gs)))
      in fold (\<lambda>i best.
           if len i < 2 then best
           else (case best of
                   None \<Rightarrow> Some (i, i + len i)
                 | Some (a, b) \<Rightarrow> if b - a < len i then Some (i, i + len i) else best))
         [0..<length gs] None)"

definition IP_String :: "IP \<Rightarrow> string" where
  "IP_String ip =
     (if ip = [] then ''<nil>''
      else case IP_To4 ip of
        Some v4 \<Rightarrow> strings_Join (map decByte v4) ''.''
      | None \<Rightarrow>
          (if length ip \<noteq> 16 then ''?'' @ concat (map (\<lambda>b. [hextable ! nat (b div 16), hextable ! nat (b mod 16)]) ip)
           else
             (let gs = groups16 ip
              in case zeroRun gs of
                   None \<Rightarrow> strings_Join (map hexGroup gs) '':''
                 | Some (a, b) \<Rightarrow>
                     strings_Join (map hexGroup (take a gs)) '':'' @ ''::'' @
                     strings_Join (map hexGroup (drop b gs)) '':'')))"


section \<open>The middleware\<close>

record Options =
  LogBody :: bool
  FailClosed :: bool
  BodyMaxBytes :: int
  RedactFields :: "string list"

text \<open>
  \<open>ctx\<close> and \<open>r\<close> are the variables of the closure, \<open>st\<close> the state when it is called, \<open>start\<close>, \<open>now\<close>
  and \<open>ended\<close> the three readings of the clock, which is monotonic.
\<close>

definition buildEntry ::
  "go_tables \<Rightarrow> Options \<Rightarrow> Resolver \<Rightarrow> gotime \<Rightarrow> gotime \<Rightarrow> gotime \<Rightarrow> reqctx \<Rightarrow> http_request \<Rightarrow> 'g rstate \<Rightarrow> Entry" where
  "buildEntry T opts resolver start now ended ctx r st =
     (let statusCode = (if c_statusCodePtr (r_ctx r) then cell_statusCode st else 200);
          sourceIP = (case ClientIP resolver r of None \<Rightarrow> [] | Some ip \<Rightarrow> IP_String ip);
          bodyBytes = (case cell_bodyBytes st of None \<Rightarrow> [] | Some b \<Rightarrow> b)
      in \<lparr>e_Timestamp = now, e_RequestID = GetRequestID ctx, e_Principal = GetPrincipal ctx,
          e_KeyID = GetKeyID ctx, e_Method = r_Method r, e_Path = r_Path r, e_Query = r_RawQuery r,
          e_SourceIP = sourceIP, e_UserAgent = header_Get (r_Header r) ''User-Agent'',
          e_StatusCode = statusCode, e_LatencyMs = time_Sub ended start div Millisecond,
          e_AuthzDecision = ar_Decision (cell_authzResult st),
          e_AuthzPlugin = ar_Plugin (cell_authzResult st),
          e_AuthzReason = ar_Reason (cell_authzResult st),
          e_RequestBody =
            (if LogBody opts \<and> bodyBytes \<noteq> [] then sanitizeBody T bodyBytes (BodyMaxBytes opts) (RedactFields opts)
             else None)\<rparr>)"

text \<open>
  A panic of the next handler skips what follows it, except the deferred commit.
\<close>

definition audit_Middleware ::
  "go_tables \<Rightarrow> 'g Publisher \<Rightarrow> Options \<Rightarrow> Resolver \<Rightarrow> gotime \<Rightarrow> gotime \<Rightarrow> gotime \<Rightarrow> 'g middleware" where
  "audit_Middleware T pub opts resolver start now ended next w r st =
     (let ctx = WithAuthzResultPtr (r_ctx r);
          st = st\<lparr>cell_authzResult := \<lparr>ar_Decision = [], ar_Plugin = [], ar_Reason = []\<rparr>, cell_bodyBytes := None\<rparr>;
          ctx = (if LogBody opts then WithBodyBytesPtr ctx else ctx);
          r = r\<lparr>r_ctx := ctx\<rparr>;
          entry = buildEntry T opts resolver start now ended ctx r
      in case (if FailClosed opts then reserver pub else None) of
           Some (reserve, commit) \<Rightarrow>
             (case reserve (global st) of
                (False, g) \<Rightarrow> http_Error w ''audit unavailable'' 503 (st\<lparr>global := g\<rparr>)
              | (True, g) \<Rightarrow>
                  (let st = next w r (st\<lparr>global := g\<rparr>)
                   in st\<lparr>global := commit (entry st) (global st)\<rparr>))
         | None \<Rightarrow>
             (let st = next w r st
              in if panicking st then st
                 else st\<lparr>global := snd (publish pub (entry st) (global st))\<rparr>))"


section \<open>Redaction\<close>

text \<open>
  The specification of redaction, by paths into a value.  Along a path without sensitive member names both
  values have the same shape: the same members, as many elements, equal scalars.  A member with a
  sensitive name at the end of such a path is the marker.
\<close>

datatype access = Member string | Elem nat

fun valueAt :: "json \<Rightarrow> access list \<Rightarrow> json option" where
  "valueAt v [] = Some v"
| "valueAt (JObj ms) (Member k # p) = (case map_of ms k of None \<Rightarrow> None | Some v \<Rightarrow> valueAt v p)"
| "valueAt (JArr vs) (Elem i # p) = (if i < length vs then valueAt (vs ! i) p else None)"
| "valueAt _ (_ # p) = None"

fun same_shape :: "json \<Rightarrow> json \<Rightarrow> bool" where
  "same_shape (JObj ms) w = (\<exists>ms'. w = JObj ms' \<and> map fst ms' = map fst ms)"
| "same_shape (JArr vs) w = (\<exists>vs'. w = JArr vs' \<and> length vs' = length vs)"
| "same_shape v w = (w = v)"

definition redaction :: "(string \<Rightarrow> bool) \<Rightarrow> json \<Rightarrow> json \<Rightarrow> bool" where
  "redaction sensitive v v' \<longleftrightarrow>
     (\<forall>p. (\<forall>k. Member k \<in> set p \<longrightarrow> \<not> sensitive k) \<longrightarrow>
        rel_option same_shape (valueAt v p) (valueAt v' p) \<and>
        (\<forall>k. sensitive k \<and> valueAt v (p @ [Member k]) \<noteq> None \<longrightarrow>
             valueAt v' (p @ [Member k]) = Some (JStr ''[REDACTED]'')))"

lemma valueAt_append: "valueAt v (p @ q) = Option.bind (valueAt v p) (\<lambda>w. valueAt w q)"
  by (induction v p rule: valueAt.induct) (simp_all split: option.split)

lemma map_of_redact:
  "map_of (map (\<lambda>(k, v). (k, if S k then m else g v)) ms) k = map_option (\<lambda>v. if S k then m else g v) (map_of ms k)"
  by (induction ms) auto

lemma valueAt_redactValue:
  assumes "\<forall>k. Member k \<in> set p \<longrightarrow> strings_ToLower T k \<notin> set redact"
  shows "valueAt (redactValue T redact v) p = map_option (redactValue T redact) (valueAt v p)"
  using assms
  by (induction v p rule: valueAt.induct) (auto simp: map_of_redact split: option.split)

lemma same_shape_redactValue: "same_shape v (redactValue T redact v)"
  by (cases v) (auto simp: comp_def case_prod_unfold)

lemma redactValue_redaction: "redaction (\<lambda>k. strings_ToLower T k \<in> set redact) v (redactValue T redact v)"
  unfolding redaction_def
proof (intro allI impI conjI)
  fix p k
  assume clean: "\<forall>k. Member k \<in> set p \<longrightarrow> strings_ToLower T k \<notin> set redact"
  show "rel_option same_shape (valueAt v p) (valueAt (redactValue T redact v) p)"
    unfolding valueAt_redactValue [OF clean] by (cases "valueAt v p") (simp_all add: same_shape_redactValue)
  assume k: "strings_ToLower T k \<in> set redact \<and> valueAt v (p @ [Member k]) \<noteq> None"
  then obtain w where w: "valueAt v p = Some w" "valueAt w [Member k] \<noteq> None"
    by (cases "valueAt v p") (simp_all add: valueAt_append)
  then have "valueAt (redactValue T redact w) [Member k] = Some (JStr ''[REDACTED]'')"
    using k by (cases w) (auto simp: map_of_redact split: option.splits)
  then show "valueAt (redactValue T redact v) (p @ [Member k]) = Some (JStr ''[REDACTED]'')"
    using w(1) by (simp add: valueAt_append valueAt_redactValue [OF clean])
qed

lemma valid_marker: "valid_utf8 ''[REDACTED]''"
  by code_simp

lemma redactValue_wf: "json_wf v \<Longrightarrow> json_wf (redactValue T redact v)"
  by (induction T redact v rule: redactValue.induct) (auto simp: valid_marker)

lemma redactValue_depth: "jdepth v \<le> n \<Longrightarrow> jdepth (redactValue T redact v) \<le> n"
proof (induction T redact v arbitrary: n rule: redactValue.induct)
  case (1 T redact ms)
  then obtain m where n: "n = Suc m" by (cases n) auto
  show ?case
    unfolding n redactValue.simps jdepth_Obj using 1(2) [unfolded n jdepth_Obj] 1(1) by fastforce
next
  case (2 T redact vs)
  then obtain m where n: "n = Suc m" by (cases n) auto
  show ?case
    unfolding n redactValue.simps jdepth_Arr using 2(2) [unfolded n jdepth_Arr] 2(1) by fastforce
qed simp_all

definition demoTables :: go_tables where
  "demoTables = \<lparr>t_fmt = (\<lambda>x. ''0''), t_isPrint = (\<lambda>r. True), t_lower = id\<rparr>"

definition demoBody :: string where
  "demoBody = json_encode (JObj [(''Key'', JStr ''s''), (''n'', JBool True)])"

text \<open>
  C35: What is logged of a body that \<^verbatim>\<open>json.Unmarshal\<close> can decode is its redaction, when there are fields
  to redact.  There is a value that has a marker for every member of a sensitive name, at any depth and
  in any case, and is equal to the client's value everywhere else; the entry holds the JSON text of that
  value, which decodes to it, or, if the text is longer than the cap, its beginning as a quoted string.
\<close>

theorem sanitizeBody_redacts:
  assumes "formats (t_fmt T)" and "redact \<noteq> []" and "json_Unmarshal (t_fmt T) raw = Some v"
  shows "\<exists>v'. redaction (\<lambda>k. strings_ToLower T k \<in> set redact) v v' \<and> json_parse (json_encode v') = Some v' \<and>
     sanitizeBody T raw maxBytes redact =
       Some (if 0 < maxBytes \<and> maxBytes < int (length (json_encode v'))
             then strconv_Quote (t_isPrint T) (take (nat maxBytes) (json_encode v') @ ''...(truncated)'')
             else json_encode v')"
proof (intro exI conjI)
  let ?v = "redactValue T redact v"
  have valid: "json_Valid raw"
    using assms(3) by (auto simp: json_Unmarshal_def json_Valid_def bind_eq_Some_conv)
  have "raw \<noteq> []"
    using assms(3) by (auto simp: json_Unmarshal_def json_parse_def json_first_def parseFuel_def jskip_def numeral_2_eq_2)
  then show "sanitizeBody T raw maxBytes redact =
      Some (if 0 < maxBytes \<and> maxBytes < int (length (json_encode ?v))
            then strconv_Quote (t_isPrint T) (take (nat maxBytes) (json_encode ?v) @ ''...(truncated)'')
            else json_encode ?v)"
    using assms(2,3) valid by (auto simp: sanitizeBody_def Let_def)
  show "json_parse (json_encode ?v) = Some ?v"
    using json_Unmarshal_wf [OF assms(1,3)] by (intro json_parse_encode redactValue_wf redactValue_depth) auto
  show "redaction (\<lambda>k. strings_ToLower T k \<in> set redact) v ?v" by (rule redactValue_redaction)
qed

lemma demoBody_value: "json_Unmarshal (t_fmt demoTables) demoBody = Some (JObj [(''Key'', JStr ''s''), (''n'', JBool True)])"
  by code_simp

theorem sanitizeBody_redacts_witness:
  "\<exists>v'. redaction (\<lambda>k. strings_ToLower demoTables k \<in> set [''key'']) (JObj [(''Key'', JStr ''s''), (''n'', JBool True)]) v' \<and>
     json_parse (json_encode v') = Some v' \<and>
     sanitizeBody demoTables demoBody 0 [''key''] =
       Some (if (0 :: int) < 0 \<and> 0 < int (length (json_encode v'))
             then strconv_Quote (t_isPrint demoTables) (take (nat 0) (json_encode v') @ ''...(truncated)'')
             else json_encode v')"
  by (rule sanitizeBody_redacts [OF _ _ demoBody_value])
     (simp_all add: demoTables_def formats_def, code_simp)


text \<open>
  Redaction is skipped for a body that is valid JSON but contains a number outside the range
  of a float64: \<^verbatim>\<open>json.Unmarshal\<close> fails, and the raw body is logged, secrets included.
\<close>

definition overflowBody :: string where
  "overflowBody = json_encode (JObj [(''key'', JStr ''s''), (''n'', JNum ''1e309'')])"

lemma overflow_unredacted: "sanitizeBody T overflowBody 0 [''key''] = Some overflowBody"
proof -
  have parse: "json_parse overflowBody = Some (JObj [(''key'', JStr ''s''), (''n'', JNum ''1e309'')])"
    by code_simp
  have "numValue ''1e309'' = 10 ^ 309"
    by (simp add: numValue_def spanDigits_def jsonDigit_def byte_in_def digitsVal_def pow10_def)
  then have "floatOverflow (numValue ''1e309'')" by (simp add: floatOverflow_def)
  then have "json_Unmarshal (t_fmt T) overflowBody = None"
    by (simp add: json_Unmarshal_def parse)
  moreover have "overflowBody \<noteq> []" by (simp add: overflowBody_def)
  ultimately show ?thesis
    by (simp add: sanitizeBody_def json_Valid_def parse)
qed

text \<open>
  The Go string literal of a body that is not JSON need not be a JSON string: a control
  character becomes an escape JSON does not have, and encoding the entry fails.
\<close>

lemma quoted_body_not_json: "\<not> json_Valid (strconv_Quote isPrint [CHR 0x01])"
proof -
  have "strconv_Quote isPrint [CHR 0x01] = [CHR 0x22, CHR 0x5C, CHR ''x'', CHR ''0'', CHR ''1'', CHR 0x22]"
    by (simp add: strconv_Quote_def quoteRunes.simps utf8_width_def byte_in_def quoteRune_def hexDigits_def
        hex_EncodeToString_def hextable_def)
  moreover have "\<not> json_Valid [CHR 0x22, CHR 0x5C, CHR ''x'', CHR ''0'', CHR ''1'', CHR 0x22]" by code_simp
  ultimately show ?thesis by simp
qed


section \<open>What is recorded\<close>

text \<open>
  The principal and the key of an entry are those of the context outside the middleware: what
  an inner middleware adds to its own context is not seen.
\<close>

lemma buildEntry_identity:
  "e_Principal (buildEntry T opts resolver start now ended ctx r st) = GetPrincipal ctx"
  "e_KeyID (buildEntry T opts resolver start now ended ctx r st) = GetKeyID ctx"
  by (simp_all add: buildEntry_def Let_def)

text \<open>A publisher that keeps its entries in a list, and refuses reservations by a condition.\<close>

definition listPublisher :: "('e \<Rightarrow> bool) \<Rightarrow> (Entry list \<times> 'e) Publisher" where
  "listPublisher room =
     \<lparr>publish = (\<lambda>e (es, x). if room x then (True, es @ [e], x) else (False, es, x)),
      reserver = Some (\<lambda>(es, x). (room x, es, x), \<lambda>e (es, x). (es @ [e], x))\<rparr>"

definition keepsLog :: "(Entry list \<times> 'e) handler \<Rightarrow> bool" where
  "keepsLog h \<longleftrightarrow> (\<forall>w r st. fst (global (h w r st)) = fst (global st))"

text \<open>
  C34: In fail-closed mode no request passes unaudited: if the audit buffer has no room the
  request is answered 503, the state outside is untouched and the next handler is not called;
  otherwise the log grows by exactly one entry, also if the next handler panics, and that
  entry carries the request's method and path, the status that was sent and the authorization
  result as they are at the end of the request.
\<close>

theorem audit_fail_closed:
  assumes "FailClosed opts" and "c_statusCodePtr (r_ctx r)" and "keepsLog next" and "global st = (es, x)"
  shows "case audit_Middleware T (listPublisher room) opts resolver start now ended next w r st of st' \<Rightarrow>
     if room x
     then \<exists>e. fst (global st') = es @ [e] \<and> e_Method e = r_Method r \<and> e_Path e = r_Path r \<and>
            e_StatusCode e = cell_statusCode st' \<and>
            \<lparr>ar_Decision = e_AuthzDecision e, ar_Plugin = e_AuthzPlugin e, ar_Reason = e_AuthzReason e\<rparr> = cell_authzResult st'
     else global st' = (es, x) \<and> (\<exists>st0. resp_status st0 = resp_status st \<and> st' = http_Error w ''audit unavailable'' 503 st0)"
proof -
  let ?ctx = "if LogBody opts then WithBodyBytesPtr (WithAuthzResultPtr (r_ctx r)) else WithAuthzResultPtr (r_ctx r)"
  let ?r = "r\<lparr>r_ctx := ?ctx\<rparr>"
  let ?st = "st\<lparr>cell_authzResult := \<lparr>ar_Decision = [], ar_Plugin = [], ar_Reason = []\<rparr>, cell_bodyBytes := None\<rparr>"
  have g: "global ?st = (es, x)" by (simp add: assms(4))
  have res: "audit_Middleware T (listPublisher room) opts resolver start now ended next w r st =
      (if room x
       then (let st1 = next w ?r (?st\<lparr>global := (es, x)\<rparr>)
             in st1\<lparr>global := (fst (global st1) @ [buildEntry T opts resolver start now ended ?ctx ?r st1], snd (global st1))\<rparr>)
       else http_Error w ''audit unavailable'' 503 (?st\<lparr>global := (es, x)\<rparr>))"
    unfolding audit_Middleware_def Let_def g using assms(1)
    by (simp add: listPublisher_def case_prod_unfold)
  show ?thesis
  proof (cases "room x")
    case True
    define st1 where "st1 = next w ?r (?st\<lparr>global := (es, x)\<rparr>)"
    have es: "fst (global st1) = es" using assms(3) by (simp add: keepsLog_def st1_def)
    have "c_statusCodePtr ?ctx" using assms(2) by (simp add: WithBodyBytesPtr_def WithAuthzResultPtr_def)
    then show ?thesis
      unfolding res if_P [OF True] st1_def [symmetric] Let_def es
      by (intro exI [of _ "buildEntry T opts resolver start now ended ?ctx ?r st1"]) (simp add: buildEntry_def Let_def)
  next
    case False
    then show ?thesis unfolding res by (auto intro: exI [of _ "?st\<lparr>global := (es, x)\<rparr>"])
  qed
qed


definition demoAuditRequest :: http_request where
  "demoAuditRequest = \<lparr>r_Method = ''GET'', r_Scheme = [], r_Host = ''gw'', r_Path = ''/api'', r_RawQuery = [], r_Header = [],
     r_Body = NoBody, r_ContentLength = 0, r_RemoteAddr = ''192.0.2.1:99'', r_ctx = WithStatusCodePtr Background\<rparr>"

definition demoOptions :: Options where
  "demoOptions = \<lparr>LogBody = False, FailClosed = True, BodyMaxBytes = 0, RedactFields = []\<rparr>"

definition demoPanics :: "(Entry list \<times> unit) handler" where
  "demoPanics w r st = (WriteHeader w 200 st)\<lparr>panicking := True\<rparr>"

theorem audit_fail_closed_witness:
  "\<exists>e. fst (global (audit_Middleware demoTables (listPublisher (\<lambda>_. True)) demoOptions \<lparr>trusted = []\<rparr> 0 1 2
       demoPanics RawWriter demoAuditRequest (freshState ([], ())))) = [e] \<and> e_Path e = ''/api''"
proof -
  have "FailClosed demoOptions" "c_statusCodePtr (r_ctx demoAuditRequest)" "keepsLog demoPanics"
      "global (freshState ([] :: Entry list, ())) = ([], ())"
    by (simp_all add: demoOptions_def demoAuditRequest_def WithStatusCodePtr_def keepsLog_def demoPanics_def freshState_def)
  from audit_fail_closed [OF this, where T = demoTables and room = "\<lambda>_. True" and
      resolver = "\<lparr>trusted = []\<rparr>" and start = 0 and now = 1 and ended = 2 and w = RawWriter]
  show ?thesis by (auto simp: demoAuditRequest_def)
qed

text \<open>In the default mode a panic of the next handler leaves the request unrecorded.\<close>

lemma audit_open_panic:
  assumes "\<not> FailClosed opts" and "keepsLog next" and "\<And>w r st. panicking (next w r st)"
  shows "fst (global (audit_Middleware T (listPublisher room) opts resolver start now ended next w r st)) = fst (global st)"
  using assms by (simp add: audit_Middleware_def Let_def keepsLog_def)

end
