(* ===== verification/Audit_File.thy ===== *)
theory Audit_File
  imports Prelude
begin

text \<open>
  The file audit logger \<^verbatim>\<open>src/internal/audit/file/logger.go\<close>: a buffered channel between the requests
  and one flushing goroutine, with a counting semaphore for reservations.

  The state holds the channels, the flags and the program counter of the flushing goroutine.
  Every atomic action of a goroutine is an operation on it that returns \<^const>\<open>None\<close> where the
  goroutine would block; a run is a list of such actions in the order in which they happen, so
  a statement about all runs is one about all interleavings.  \<^verbatim>\<open>Publish\<close> and \<^verbatim>\<open>Reserve\<close> hold the read
  lock while they wait, so \<^verbatim>\<open>closed\<close> does not change under them and each is one action.

  The choices that the program does not make are arguments: whether a wait ends by its timer
  (or its context), whether opening a file and encoding an entry succeed.  Counters for the
  metrics are kept where a branch sets them.
\<close>

section \<open>The logger\<close>

text \<open>
  The flushing goroutine is at its \<^verbatim>\<open>select\<close>, holds an entry to write, has a permit to release, or
  has returned.  The flag says whether it is in the inner loop that drains the channel.
\<close>

datatype 'a flush_pc = Select bool | Writing 'a bool | Releasing bool | Exited

record 'a Logger =
  l_file :: "nat option"
  l_enc :: "nat option"
  l_nfiles :: nat
  l_ch :: "'a list"
  l_cap :: nat
  l_sem :: nat
  l_reopen :: bool
  l_stop :: bool
  l_enqueueTimeout :: duration
  l_closed :: bool
  l_pc :: "'a flush_pc"
  l_permits :: nat
  l_handled :: "('a \<times> nat option) list"
  l_fileClosed :: bool
  l_dropped :: nat
  l_writeErrors :: nat
  l_reopenFailures :: nat

text \<open>
  \<open>l_nfiles\<close> numbers the files that have been opened, \<open>l_permits\<close> counts the reservations whose
  commit function has not been called, and \<open>l_handled\<close> lists what the goroutine took from the
  channel, with the file it was written to or \<^const>\<open>None\<close> if that failed.
\<close>

definition defaultBufferSize :: int where
  "defaultBufferSize = 4096"

definition setFile :: "nat \<Rightarrow> 'a Logger \<Rightarrow> 'a Logger" where
  "setFile f l = l\<lparr>l_file := Some f, l_enc := Some f\<rparr>"

definition logger_open :: "bool \<Rightarrow> 'a Logger \<Rightarrow> 'a Logger option" where
  "logger_open opens l =
     (if opens then Some (setFile (l_nfiles l) (l\<lparr>l_nfiles := l_nfiles l + 1\<rparr>)) else None)"

definition NewLogger :: "bool \<Rightarrow> int \<Rightarrow> duration \<Rightarrow> 'a Logger option" where
  "NewLogger opens bufSize enqueueTimeout =
     (let bufSize = (if bufSize \<le> 0 then defaultBufferSize else bufSize)
      in logger_open opens
           \<lparr>l_file = None, l_enc = None, l_nfiles = 0, l_ch = [], l_cap = nat bufSize, l_sem = 0,
            l_reopen = False, l_stop = False, l_enqueueTimeout = enqueueTimeout, l_closed = False,
            l_pc = Select False, l_permits = 0, l_handled = [], l_fileClosed = False,
            l_dropped = 0, l_writeErrors = 0, l_reopenFailures = 0\<rparr>)"

text \<open>Sending on the channel blocks while it is full.\<close>

definition chSend :: "'a \<Rightarrow> 'a Logger \<Rightarrow> 'a Logger option" where
  "chSend e l = (if length (l_ch l) < l_cap l then Some (l\<lparr>l_ch := l_ch l @ [e]\<rparr>) else None)"

definition dropFull :: "'a Logger \<Rightarrow> 'a Logger" where
  "dropFull l = l\<lparr>l_dropped := l_dropped l + 1, l_writeErrors := l_writeErrors l + 1\<rparr>"

text \<open>The result says whether the entry was accepted; \<open>gaveUp\<close> says that the timer fired.\<close>

definition Publish :: "bool \<Rightarrow> 'a \<Rightarrow> 'a Logger \<Rightarrow> (bool \<times> 'a Logger) option" where
  "Publish gaveUp e l =
     (if l_closed l
      then Some (False, l\<lparr>l_dropped := l_dropped l + 1, l_writeErrors := l_writeErrors l + 1\<rparr>)
      else if l_enqueueTimeout l \<le> 0
      then (case chSend e l of Some l' \<Rightarrow> Some (True, l') | None \<Rightarrow> Some (False, dropFull l))
      else if gaveUp then Some (False, dropFull l)
      else map_option (Pair True) (chSend e l))"

definition semAcquire :: "'a Logger \<Rightarrow> 'a Logger option" where
  "semAcquire l = (if l_sem l < l_cap l then Some (l\<lparr>l_sem := l_sem l + 1\<rparr>) else None)"

definition Reserve :: "bool \<Rightarrow> 'a Logger \<Rightarrow> (bool \<times> 'a Logger) option" where
  "Reserve gaveUp l =
     (let rejected = l\<lparr>l_dropped := l_dropped l + 1\<rparr>;
          granted = (\<lambda>l'. (True, l'\<lparr>l_permits := l_permits l' + 1\<rparr>))
      in if l_closed l then Some (False, rejected)
         else if l_enqueueTimeout l \<le> 0
         then (case semAcquire l of Some l' \<Rightarrow> Some (granted l') | None \<Rightarrow> Some (False, rejected))
         else if gaveUp then Some (False, rejected)
         else map_option granted (semAcquire l))"

text \<open>The function that \<^verbatim>\<open>Reserve\<close> returns.\<close>

definition commit :: "'a \<Rightarrow> 'a Logger \<Rightarrow> 'a Logger option" where
  "commit e l = map_option (\<lambda>l'. l'\<lparr>l_permits := l_permits l' - 1\<rparr>) (chSend e l)"

text \<open>The actions of \<^verbatim>\<open>flushLoop\<close>.\<close>

definition flushRecv :: "'a Logger \<Rightarrow> 'a Logger option" where
  "flushRecv l =
     (case (l_pc l, l_ch l) of
        (Select draining, e # es) \<Rightarrow> Some (l\<lparr>l_ch := es, l_pc := Writing e draining\<rparr>)
      | _ \<Rightarrow> None)"

definition flushReopen :: "bool \<Rightarrow> 'a Logger \<Rightarrow> 'a Logger option" where
  "flushReopen opens l =
     (if l_pc l = Select False \<and> l_reopen l
      then let l = l\<lparr>l_reopen := False\<rparr>
           in (if opens then Some (setFile (l_nfiles l) (l\<lparr>l_nfiles := l_nfiles l + 1\<rparr>))
               else Some (l\<lparr>l_reopenFailures := l_reopenFailures l + 1\<rparr>))
      else None)"

definition flushStop :: "'a Logger \<Rightarrow> 'a Logger option" where
  "flushStop l = (if l_pc l = Select False \<and> l_stop l then Some (l\<lparr>l_pc := Select True\<rparr>) else None)"

definition flushReturn :: "'a Logger \<Rightarrow> 'a Logger option" where
  "flushReturn l = (if l_pc l = Select True \<and> l_ch l = [] then Some (l\<lparr>l_pc := Exited\<rparr>) else None)"

definition writeEntry :: "bool \<Rightarrow> 'a \<Rightarrow> 'a Logger \<Rightarrow> 'a Logger" where
  "writeEntry encodes e l =
     (case l_enc l of
        None \<Rightarrow> l\<lparr>l_writeErrors := l_writeErrors l + 1, l_handled := l_handled l @ [(e, None)]\<rparr>
      | Some f \<Rightarrow>
          (if encodes then l\<lparr>l_handled := l_handled l @ [(e, Some f)]\<rparr>
           else l\<lparr>l_writeErrors := l_writeErrors l + 1, l_handled := l_handled l @ [(e, None)]\<rparr>))"

definition flushWrite :: "bool \<Rightarrow> 'a Logger \<Rightarrow> 'a Logger option" where
  "flushWrite encodes l =
     (case l_pc l of
        Writing e draining \<Rightarrow> Some ((writeEntry encodes e l)\<lparr>l_pc := Releasing draining\<rparr>)
      | _ \<Rightarrow> None)"

text \<open>The receive from the semaphore does not block.\<close>

definition flushRelease :: "'a Logger \<Rightarrow> 'a Logger option" where
  "flushRelease l =
     (case l_pc l of
        Releasing draining \<Rightarrow> Some (l\<lparr>l_sem := l_sem l - 1, l_pc := Select draining\<rparr>)
      | _ \<Rightarrow> None)"

definition Reopen :: "'a Logger \<Rightarrow> 'a Logger" where
  "Reopen l = l\<lparr>l_reopen := True\<rparr>"

text \<open>\<^verbatim>\<open>Close\<close> in three actions: mark, signal, and close the file after the goroutine returned.\<close>

definition closeMark :: "'a Logger \<Rightarrow> 'a Logger" where
  "closeMark l = l\<lparr>l_closed := True\<rparr>"

definition closeSignal :: "'a Logger \<Rightarrow> 'a Logger option" where
  "closeSignal l = (if l_closed l \<and> \<not> l_stop l then Some (l\<lparr>l_stop := True\<rparr>) else None)"

definition closeFile :: "'a Logger \<Rightarrow> 'a Logger option" where
  "closeFile l =
     (if l_stop l \<and> l_pc l = Exited \<and> \<not> l_fileClosed l then Some (l\<lparr>l_fileClosed := True\<rparr>) else None)"


section \<open>Runs\<close>

datatype 'a action =
  APublish bool 'a
| AReserve bool
| ACommit 'a
| AReopen
| ACloseMark
| ACloseSignal
| ACloseFile
| ARecv
| AWrite bool
| ARelease
| AReopenFile bool
| AStop
| AReturn

text \<open>A commit function is called once, so a commit needs a reservation.\<close>

fun logger_step :: "'a action \<Rightarrow> 'a Logger \<Rightarrow> 'a Logger option" where
  "logger_step (APublish gaveUp e) l = map_option snd (Publish gaveUp e l)"
| "logger_step (AReserve gaveUp) l = map_option snd (Reserve gaveUp l)"
| "logger_step (ACommit e) l = (if 0 < l_permits l then commit e l else None)"
| "logger_step AReopen l = Some (Reopen l)"
| "logger_step ACloseMark l = Some (closeMark l)"
| "logger_step ACloseSignal l = closeSignal l"
| "logger_step ACloseFile l = closeFile l"
| "logger_step ARecv l = flushRecv l"
| "logger_step (AWrite encodes) l = flushWrite encodes l"
| "logger_step ARelease l = flushRelease l"
| "logger_step (AReopenFile opens) l = flushReopen opens l"
| "logger_step AStop l = flushStop l"
| "logger_step AReturn l = flushReturn l"

fun logger_run :: "'a action list \<Rightarrow> 'a Logger \<Rightarrow> 'a Logger option" where
  "logger_run [] l = Some l"
| "logger_run (a # as) l = Option.bind (logger_step a l) (logger_run as)"


section \<open>The contract: a log that only grows\<close>

text \<open>
  What a publisher promises: every action extends the sequence of accepted entries by those it
  accepts, and by nothing else.
\<close>

locale append_log =
  fixes step :: "'act \<Rightarrow> 's \<Rightarrow> 's option"
    and contents :: "'s \<Rightarrow> 'a list"
    and accepts :: "'act \<Rightarrow> 's \<Rightarrow> 'a list"
  assumes step_appends: "step a s = Some s' \<Longrightarrow> contents s' = contents s @ accepts a s"
begin

fun log_run :: "'act list \<Rightarrow> 's \<Rightarrow> 's option" where
  "log_run [] s = Some s"
| "log_run (a # as) s = Option.bind (step a s) (log_run as)"

fun log_accepted :: "'act list \<Rightarrow> 's \<Rightarrow> 'a list" where
  "log_accepted [] s = []"
| "log_accepted (a # as) s =
     accepts a s @ (case step a s of None \<Rightarrow> [] | Some s' \<Rightarrow> log_accepted as s')"

lemma run_appends: "log_run as s = Some s' \<Longrightarrow> contents s' = contents s @ log_accepted as s"
  by (induction as arbitrary: s) (auto simp: step_appends bind_eq_Some_conv split: option.splits)

end

text \<open>
  The logger's contents are what the goroutine has handled, what it is about to write, and
  what is in the channel.
\<close>

fun inflight :: "'a flush_pc \<Rightarrow> 'a list" where
  "inflight (Writing e _) = [e]"
| "inflight _ = []"

definition logger_contents :: "'a Logger \<Rightarrow> 'a list" where
  "logger_contents l = map fst (l_handled l) @ inflight (l_pc l) @ l_ch l"

fun logger_accepts :: "'a action \<Rightarrow> 'a Logger \<Rightarrow> 'a list" where
  "logger_accepts (APublish gaveUp e) l =
     (case Publish gaveUp e l of Some (True, _) \<Rightarrow> [e] | _ \<Rightarrow> [])"
| "logger_accepts (ACommit e) l = [e]"
| "logger_accepts _ l = []"

fun logger_accepted :: "'a action list \<Rightarrow> 'a Logger \<Rightarrow> 'a list" where
  "logger_accepted [] l = []"
| "logger_accepted (a # as) l =
     logger_accepts a l @ (case logger_step a l of None \<Rightarrow> [] | Some l' \<Rightarrow> logger_accepted as l')"

lemmas flush_defs =
  flushRecv_def flushReopen_def flushStop_def flushReturn_def flushWrite_def flushRelease_def writeEntry_def
  setFile_def closeMark_def closeSignal_def closeFile_def Reopen_def

lemmas enqueue_defs =
  Publish_def Reserve_def commit_def chSend_def semAcquire_def dropFull_def

lemma logger_step_appends:
  assumes "logger_step a l = Some l'"
  shows "logger_contents l' = logger_contents l @ logger_accepts a l"
  using assms
  by (cases a)
     (auto simp: logger_contents_def flush_defs enqueue_defs Let_def
           split: if_splits option.splits flush_pc.splits list.splits)

interpretation file_log: append_log logger_step logger_contents logger_accepts
  by unfold_locales (rule logger_step_appends)

lemma file_log_run: "file_log.log_run as l = logger_run as l"
  by (induction as arbitrary: l) (auto simp: bind_eq_Some_conv intro: Option.bind_cong)

lemma file_log_accepted: "file_log.log_accepted as l = logger_accepted as l"
  by (induction as arbitrary: l) (auto split: option.split)

lemma NewLogger_SomeE:
  assumes "NewLogger opens n t = Some l"
  obtains "l_ch l = []" "l_sem l = 0" "l_permits l = 0" "l_handled l = []" "l_pc l = Select False"
    "l_enc l \<noteq> None" "\<not> l_closed l" "\<not> l_stop l" "0 < l_cap l"
proof -
  have "0 < l_cap l"
    using assms by (auto simp: NewLogger_def logger_open_def setFile_def defaultBufferSize_def Let_def split: if_splits)
  then show thesis
    using assms by (intro that) (auto simp: NewLogger_def logger_open_def setFile_def Let_def split: if_splits)
qed

lemma NewLogger_contents: "NewLogger opens n t = Some l \<Longrightarrow> logger_contents l = []"
  by (elim NewLogger_SomeE) (simp add: logger_contents_def)


section \<open>Properties\<close>

lemma logger_run_invariant:
  assumes "\<And>a l l'. P l \<Longrightarrow> Q a \<Longrightarrow> logger_step a l = Some l' \<Longrightarrow> P l'"
  shows "P l \<Longrightarrow> list_all Q as \<Longrightarrow> logger_run as l = Some l' \<Longrightarrow> P l'"
  using assms by (induction as arbitrary: l) (auto simp: bind_eq_Some_conv)

fun busy :: "'a flush_pc \<Rightarrow> nat" where
  "busy (Writing _ _) = 1"
| "busy (Releasing _) = 1"
| "busy _ = 0"

text \<open>
  In fail-closed mode every permit of the semaphore belongs to an open reservation, an entry in
  the channel, or the entry the goroutine is at.
\<close>

definition slots_ok :: "'a Logger \<Rightarrow> bool" where
  "slots_ok l \<longleftrightarrow> l_sem l = length (l_ch l) + l_permits l + busy (l_pc l) \<and> l_sem l \<le> l_cap l"

fun isPublish :: "'a action \<Rightarrow> bool" where
  "isPublish (APublish _ _) = True"
| "isPublish _ = False"

fun isReserve :: "'a action \<Rightarrow> bool" where
  "isReserve (AReserve _) = True"
| "isReserve _ = False"

lemma slots_ok_step: "slots_ok l \<Longrightarrow> \<not> isPublish a \<Longrightarrow> logger_step a l = Some l' \<Longrightarrow> slots_ok l'"
  by (cases a)
     (auto simp: slots_ok_def flush_defs enqueue_defs Let_def
           split: if_splits option.splits flush_pc.splits list.splits)

definition demoLogger :: "nat Logger" where
  "demoLogger = the (NewLogger True 1 0)"

lemma demoLogger_new: "NewLogger True 1 0 = Some demoLogger"
  by (simp add: demoLogger_def NewLogger_def logger_open_def Let_def)

text \<open>
  In fail-closed mode, where entries come through reservations only, the promise of
  \<^verbatim>\<open>Reserve\<close> holds in every interleaving: whoever holds a reservation can commit an entry at once,
  the send on the channel never blocks.
\<close>

theorem commit_never_blocks:
  assumes "NewLogger opens bufSize timeout = Some l0"
    and "list_all (\<lambda>a. \<not> isPublish a) as" and "logger_run as l0 = Some l" and "0 < l_permits l"
  shows "\<exists>l'. logger_step (ACommit e) l = Some l'"
proof -
  have "slots_ok l0" using assms(1) by (elim NewLogger_SomeE) (simp add: slots_ok_def)
  then have "slots_ok l"
    using assms(2,3) by (rule logger_run_invariant [rotated, where Q = "\<lambda>a. \<not> isPublish a"]) (rule slots_ok_step)
  then show ?thesis
    using assms(4) by (simp add: slots_ok_def commit_def chSend_def)
qed

theorem commit_never_blocks_witness:
  "\<exists>l'. logger_step (ACommit 7) (the (logger_run [AReserve False] demoLogger)) = Some l'"
  by (rule commit_never_blocks [OF demoLogger_new, where as = "[AReserve False]"])
     (simp_all add: demoLogger_def NewLogger_def logger_open_def setFile_def enqueue_defs)

text \<open>
  C31: The logger implements an append-only queue: at every moment of every interleaving the
  entries handled by the goroutine, the one in its hands and those in the channel are, in this
  order, exactly the entries accepted so far by \<^verbatim>\<open>Publish\<close> and by commits, in the order of their
  acceptance: none is lost, duplicated or reordered.
\<close>

theorem logger_refines_queue:
  assumes "NewLogger opens bufSize timeout = Some l0" and "logger_run as l0 = Some l"
  shows "map fst (l_handled l) @ inflight (l_pc l) @ l_ch l = logger_accepted as l0"
  using file_log.run_appends [of as l0 l] assms
  by (simp add: file_log_run file_log_accepted NewLogger_contents logger_contents_def [symmetric])

theorem logger_refines_queue_witness:
  "map fst (l_handled (the (logger_run [APublish False 3, ARecv, APublish False 4] demoLogger))) @
   inflight (l_pc (the (logger_run [APublish False 3, ARecv, APublish False 4] demoLogger))) @
   l_ch (the (logger_run [APublish False 3, ARecv, APublish False 4] demoLogger)) = [3, 4]"
  by (subst logger_refines_queue [OF demoLogger_new, where as = "[APublish False 3, ARecv, APublish False 4]"])
     (simp_all add: demoLogger_def NewLogger_def logger_open_def setFile_def flush_defs enqueue_defs)

text \<open>After the drain nothing is left in the channel, unless a reservation was still open.\<close>

fun draining :: "'a flush_pc \<Rightarrow> bool" where
  "draining (Select d) = d"
| "draining (Writing _ d) = d"
| "draining (Releasing d) = d"
| "draining Exited = True"

definition drain_ok :: "'a Logger \<Rightarrow> bool" where
  "drain_ok l \<longleftrightarrow>
     l_permits l = 0 \<and> (l_stop l \<longrightarrow> l_closed l) \<and> (draining (l_pc l) \<longrightarrow> l_stop l) \<and>
     (l_pc l = Exited \<longrightarrow> l_ch l = [])"

lemma drain_ok_step: "drain_ok l \<Longrightarrow> \<not> isReserve a \<Longrightarrow> logger_step a l = Some l' \<Longrightarrow> drain_ok l'"
  by (cases a)
     (auto simp: drain_ok_def flush_defs enqueue_defs Let_def
           split: if_splits option.splits flush_pc.splits list.splits)

text \<open>
  C32: In the default mode \<^verbatim>\<open>Close\<close> loses nothing: when the goroutine has returned, the entries it
  has handled are all that \<^verbatim>\<open>Publish\<close> ever accepted, in order.  An entry is handled when the goroutine
  has written it or has counted the failure to write it.
\<close>

theorem close_drains:
  assumes "NewLogger opens bufSize timeout = Some l0"
    and "list_all (\<lambda>a. \<not> isReserve a) as" and "logger_run as l0 = Some l" and "l_pc l = Exited"
  shows "map fst (l_handled l) = logger_accepted as l0"
proof -
  have "drain_ok l0" using assms(1) by (elim NewLogger_SomeE) (simp add: drain_ok_def)
  then have "drain_ok l"
    using assms(2,3) by (rule logger_run_invariant [rotated, where Q = "\<lambda>a. \<not> isReserve a"]) (rule drain_ok_step)
  then have "l_ch l = []" using assms(4) by (simp add: drain_ok_def)
  then show ?thesis
    using file_log.run_appends [of as l0 l] assms
    by (simp add: file_log_run file_log_accepted NewLogger_contents logger_contents_def [of l])
qed

theorem close_drains_witness:
  "map fst (l_handled (the (logger_run [APublish False 3, ACloseMark, ACloseSignal, AStop, ARecv, AWrite True, ARelease, AReturn]
      demoLogger))) = [3]"
  by (subst close_drains [OF demoLogger_new, where
        as = "[APublish False 3, ACloseMark, ACloseSignal, AStop, ARecv, AWrite True, ARelease, AReturn]"])
     (simp_all add: demoLogger_def NewLogger_def logger_open_def setFile_def flush_defs enqueue_defs)


text \<open>The actions of the flushing goroutine, and how many of them may still come.\<close>

fun isFlush :: "'a action \<Rightarrow> bool" where
  "isFlush ARecv = True"
| "isFlush (AWrite _) = True"
| "isFlush ARelease = True"
| "isFlush (AReopenFile _) = True"
| "isFlush AStop = True"
| "isFlush AReturn = True"
| "isFlush _ = False"

fun pc_measure :: "'a flush_pc \<Rightarrow> nat" where
  "pc_measure (Select d) = (if d then 1 else 2)"
| "pc_measure (Writing _ d) = (if d then 3 else 4)"
| "pc_measure (Releasing d) = (if d then 2 else 3)"
| "pc_measure Exited = 0"

definition flush_measure :: "'a Logger \<Rightarrow> nat" where
  "flush_measure l = 3 * length (l_ch l) + pc_measure (l_pc l) + (if l_reopen l then 1 else 0)"

lemma flush_measure_step:
  "isFlush a \<Longrightarrow> logger_step a l = Some l' \<Longrightarrow> flush_measure l' < flush_measure l \<and> l_stop l' = l_stop l"
  by (cases a)
     (auto simp: flush_measure_def flush_defs Let_def split: if_splits option.splits flush_pc.splits list.splits)

lemma flush_progress:
  assumes "l_stop l" and "l_pc l \<noteq> Exited"
  shows "\<exists>a l'. isFlush a \<and> logger_step a l = Some l'"
proof (cases "l_pc l")
  case (Select d)
  show ?thesis
  proof (cases d)
    case True
    then show ?thesis using Select
      by (cases "l_ch l") (auto simp: flush_defs intro: exI [of _ AReturn] exI [of _ ARecv])
  next
    case False
    then show ?thesis using Select assms(1) by (auto simp: flush_defs intro: exI [of _ AStop])
  qed
next
  case (Writing e d)
  then show ?thesis by (auto simp: flush_defs intro: exI [of _ "AWrite True"])
next
  case (Releasing d)
  then show ?thesis by (auto simp: flush_defs intro: exI [of _ ARelease])
next
  case Exited
  then show ?thesis using assms(2) by simp
qed

text \<open>
  C33: Once \<^verbatim>\<open>Close\<close> has signalled, the flushing goroutine returns: it is never stuck before its end,
  and it has at most \<^const>\<open>flush_measure\<close> actions left, three for every buffered entry.  So
  the wait in \<^verbatim>\<open>Close\<close> ends.
\<close>

theorem close_returns:
  assumes "l_stop l" and "list_all isFlush as" and "logger_run as l = Some l'"
  shows "length as + flush_measure l' \<le> flush_measure l \<and>
     (l_pc l' = Exited \<or> (\<exists>a l''. isFlush a \<and> logger_step a l' = Some l''))"
proof -
  have "length as + flush_measure l' \<le> flush_measure l \<and> l_stop l'"
    using assms
  proof (induction as arbitrary: l)
    case (Cons a as)
    obtain l1 where l1: "logger_step a l = Some l1" "logger_run as l1 = Some l'"
      using Cons.prems(3) by (auto simp: bind_eq_Some_conv)
    then show ?case
      using Cons.IH [of l1] Cons.prems flush_measure_step [of a l l1] by auto
  qed simp
  then show ?thesis using flush_progress [of l'] by blast
qed

theorem close_returns_witness:
  "length [AStop, AReturn :: nat action] + flush_measure (demoLogger\<lparr>l_stop := True, l_pc := Exited\<rparr>)
     \<le> flush_measure (demoLogger\<lparr>l_stop := True\<rparr>) \<and>
   (l_pc (demoLogger\<lparr>l_stop := True, l_pc := Exited\<rparr>) = Exited \<or>
    (\<exists>a l''. isFlush a \<and> logger_step a (demoLogger\<lparr>l_stop := True, l_pc := Exited\<rparr>) = Some l''))"
  by (rule close_returns)
     (simp_all add: demoLogger_def NewLogger_def logger_open_def setFile_def flush_defs)

text \<open>
  A reservation that is committed after the drain is lost: the commit succeeds, but the entry
  stays in the channel, and no later action can take it out.
\<close>

lemma late_commit_lost:
  assumes "logger_run [AReserve False, ACloseMark, ACloseSignal, AStop, AReturn, ACloseFile, ACommit e]
      (the (NewLogger True 1 0)) = Some l"
  shows "l_ch l = [e] \<and> l_handled l = [] \<and> (\<forall>as l'. logger_run as l = Some l' \<longrightarrow> l_handled l' = [])"
proof -
  have l: "l_ch l = [e]" "l_handled l = []" "l_pc l = Exited"
    using assms by (auto simp: NewLogger_def logger_open_def setFile_def flush_defs enqueue_defs)
  have stays: "l_pc l'' = Exited \<and> l_handled l'' = []"
    if "l_pc l' = Exited \<and> l_handled l' = []" "logger_step a l' = Some l''" for a and l' l'' :: "'a Logger"
    using that by (cases a) (auto simp: flush_defs enqueue_defs Let_def split: if_splits option.splits)
  have "l_pc l' = Exited \<and> l_handled l' = []" if "logger_run as l = Some l'" for as l'
    using l that by (intro logger_run_invariant [where Q = "\<lambda>_. True", OF stays]) (simp_all add: list_all_iff)
  then show ?thesis using l by blast
qed

text \<open>A rotation that fails keeps the previous file.\<close>

lemma failed_reopen_keeps_file:
  "flushReopen False l = Some l' \<Longrightarrow> l_file l' = l_file l \<and> l_enc l' = l_enc l"
  by (auto simp: flushReopen_def Let_def split: if_splits)

end
