(* ===== verification/Config.thy ===== *)
theory Config
  imports Client_IP Complex_Main
begin

text \<open>
  The configuration \<^verbatim>\<open>src/internal/config/config.go\<close>: its data, the resolution of secret files,
  validation, and the lookups that the start-up code uses.

  The viper library is an argument of \<open>Load\<close>, and so is the file system: \<open>stat\<close> and \<open>readFile\<close>,
  where \<^const>\<open>None\<close> is an error.  A float64 setting is a rational number: NaN, which as a rate
  passes the comparisons of \<^verbatim>\<open>validate\<close>, and the infinities are not values of the model.  The
  plugins, a Go map, are an association list in the order in which a range visits them.
\<close>

section \<open>Data\<close>

record UpstreamBackend =
  ub_URL :: string
  ub_APIKey :: string
  ub_APIKeyFile :: string

record HealthCheckConfig =
  hc_Interval :: duration
  hc_Timeout :: duration
  hc_Path :: string

record Upstreams =
  Backends :: "UpstreamBackend list"
  HealthCheck :: HealthCheckConfig

record DB =
  db_Driver :: string
  db_DSN :: string

record HmacSecret =
  hs_ID :: string
  hs_Secret :: string
  hs_SecretFile :: string

record CircuitBreakerConfig =
  FailureThreshold :: int
  SuccessThreshold :: int
  Cooldown :: duration

record PluginSettings =
  ps_Path :: string
  ps_SHA256 :: string
  ps_Timeout :: duration
  ps_CircuitBreaker :: CircuitBreakerConfig

record PluginDefaultSettings =
  pd_Timeout :: duration
  pd_CircuitBreaker :: CircuitBreakerConfig

record RateLimitConfig =
  rl_Enabled :: bool
  rl_Rate :: rat
  rl_Burst :: int

record TracingConfig =
  tr_Enabled :: bool
  tr_Endpoint :: string
  tr_Insecure :: bool
  tr_SampleRate :: rat

record Config =
  cfg_Listen :: string
  MaxBodySize :: int
  AuditLog :: string
  AuditBufferSize :: int
  AuditLogBody :: bool
  AuditFailClosed :: bool
  AuditEnqueueTimeout :: duration
  AuditBodyMaxBytes :: int
  AuditRedactFields :: "string list"
  AdminToken :: string
  AdminTokenFile :: string
  ShutdownWait :: duration
  KeyCleanupInterval :: duration
  TrustedProxies :: "string list"
  cfg_Upstreams :: Upstreams
  cfg_DB :: DB
  MetricsListen :: string
  AdminListen :: string
  HmacSecrets :: "HmacSecret list"
  cfg_RateLimit :: RateLimitConfig
  cfg_Tracing :: TracingConfig
  PluginDefaults :: PluginDefaultSettings
  cfg_Plugins :: "(string \<times> PluginSettings) list"

text \<open>An error is its format and the strings and numbers put into it.\<close>

datatype err_arg = EStr string | EInt int

type_synonym config_error = "string \<times> err_arg list"


section \<open>Secret files\<close>

definition trimSecret :: "bytes \<Rightarrow> string" where
  "trimSecret data = strings_TrimRight data [CHR 0x0D, CHR 0x0A]"

definition resolve :: "(string \<Rightarrow> bytes option) \<Rightarrow> string \<Rightarrow> string \<Rightarrow> string \<Rightarrow> err_arg list \<Rightarrow> config_error + string" where
  "resolve readFile value filePath name args =
     (if filePath = [] then Inr value
      else if value \<noteq> [] then Inl (name @ '' is set but the inline value is also set; specify only one'', args)
      else (case readFile filePath of
              None \<Rightarrow> Inl (name, args)
            | Some data \<Rightarrow> Inr (trimSecret data)))"

fun resolveBackends ::
  "(string \<Rightarrow> bytes option) \<Rightarrow> int \<Rightarrow> UpstreamBackend list \<Rightarrow> config_error + UpstreamBackend list" where
  "resolveBackends readFile i [] = Inr []"
| "resolveBackends readFile i (b # bs) =
     (case resolve readFile (ub_APIKey b) (ub_APIKeyFile b) ''upstreams.backends[%d].api_key_file'' [EInt i] of
        Inl e \<Rightarrow> Inl e
      | Inr key \<Rightarrow>
          (case resolveBackends readFile (i + 1) bs of
             Inl e \<Rightarrow> Inl e
           | Inr bs' \<Rightarrow> Inr (b\<lparr>ub_APIKey := key\<rparr> # bs')))"

fun resolveSecrets :: "(string \<Rightarrow> bytes option) \<Rightarrow> int \<Rightarrow> HmacSecret list \<Rightarrow> config_error + HmacSecret list" where
  "resolveSecrets readFile i [] = Inr []"
| "resolveSecrets readFile i (s # ss) =
     (case resolve readFile (hs_Secret s) (hs_SecretFile s) ''hmac_secrets[%d].secret_file'' [EInt i] of
        Inl e \<Rightarrow> Inl e
      | Inr secret \<Rightarrow>
          (case resolveSecrets readFile (i + 1) ss of
             Inl e \<Rightarrow> Inl e
           | Inr ss' \<Rightarrow> Inr (s\<lparr>hs_Secret := secret\<rparr> # ss')))"

definition resolveSecretFiles :: "(string \<Rightarrow> bytes option) \<Rightarrow> Config \<Rightarrow> config_error + Config" where
  "resolveSecretFiles readFile c =
     (case resolve readFile (AdminToken c) (AdminTokenFile c) ''admin_token_file'' [] of
        Inl e \<Rightarrow> Inl e
      | Inr token \<Rightarrow>
          (case resolveBackends readFile 0 (Backends (cfg_Upstreams c)) of
             Inl e \<Rightarrow> Inl e
           | Inr bs \<Rightarrow>
               (case resolveSecrets readFile 0 (HmacSecrets c) of
                  Inl e \<Rightarrow> Inl e
                | Inr ss \<Rightarrow>
                    Inr (c\<lparr>AdminToken := token, cfg_Upstreams := (cfg_Upstreams c)\<lparr>Backends := bs\<rparr>,
                           HmacSecrets := ss\<rparr>))))"


section \<open>Validation\<close>

text \<open>A check yields an error or nothing; the checks run in order until one fails.\<close>

type_synonym check = "config_error option"

fun firstError :: "check list \<Rightarrow> check" where
  "firstError [] = None"
| "firstError (None # cs) = firstError cs"
| "firstError (Some e # cs) = Some e"

definition ensure :: "bool \<Rightarrow> string \<Rightarrow> err_arg list \<Rightarrow> check" where
  "ensure ok msg args = (if ok then None else Some (msg, args))"

definition normalizeListenAddr :: "string \<Rightarrow> string" where
  "normalizeListenAddr addr =
     (case net_SplitHostPort addr of
        None \<Rightarrow> addr
      | Some (host, port) \<Rightarrow>
          (if host \<in> {[], ''0.0.0.0'', ''::''} then ''*'' else host) @ '':'' @ port)"

definition validateCircuitBreaker :: "CircuitBreakerConfig \<Rightarrow> string \<Rightarrow> check" where
  "validateCircuitBreaker cb pre =
     firstError
       [ensure (0 \<le> FailureThreshold cb) (pre @ ''.circuit_breaker.failure_threshold must be >= 0, got %d'') [EInt (FailureThreshold cb)],
        ensure (0 \<le> SuccessThreshold cb) (pre @ ''.circuit_breaker.success_threshold must be >= 0, got %d'') [EInt (SuccessThreshold cb)],
        ensure (0 \<le> Cooldown cb) (pre @ ''.circuit_breaker.cooldown must be >= 0, got %v'') [EInt (Cooldown cb)]]"

definition listenAddrs :: "Config \<Rightarrow> (string \<times> string) list" where
  "listenAddrs c =
     [(''listen'', cfg_Listen c), (''metrics.listen'', MetricsListen c), (''admin.listen'', AdminListen c)]"

fun portConflicts :: "(string \<times> string) list \<Rightarrow> (string \<times> string) list \<Rightarrow> check" where
  "portConflicts seen [] = None"
| "portConflicts seen ((name, addr) # rest) =
     (let norm = normalizeListenAddr addr
      in case map_of seen norm of
           Some other \<Rightarrow> Some (''%s and %s share the same listen address %q'', [EStr other, EStr name, EStr addr])
         | None \<Rightarrow> portConflicts ((norm, name) # seen) rest)"

record file_info =
  fi_IsDir :: bool
  fi_Executable :: bool

definition validatePlugin :: "(string \<Rightarrow> file_info option) \<Rightarrow> string \<times> PluginSettings \<Rightarrow> check" where
  "validatePlugin stat p =
     (let (name, pc) = p
      in case stat (ps_Path pc) of
           None \<Rightarrow> Some (''plugin %q: path %q'', [EStr name, EStr (ps_Path pc)])
         | Some info \<Rightarrow>
             firstError
               [ensure (\<not> fi_IsDir info) ''plugin %q: path %q is a directory'' [EStr name, EStr (ps_Path pc)],
                ensure (fi_Executable info) ''plugin %q: path %q is not executable'' [EStr name, EStr (ps_Path pc)],
                validateCircuitBreaker (ps_CircuitBreaker pc) (''plugins.'' @ name),
                ensure (0 \<le> ps_Timeout pc) ''plugins.%s.timeout must be >= 0, got %v'' [EStr name, EInt (ps_Timeout pc)],
                (if ps_SHA256 pc \<noteq> []
                 then firstError
                   [ensure (length (ps_SHA256 pc) = 64) ''plugins.%s.sha256 must be 64 hex characters, got %d''
                      [EStr name, EInt (int (length (ps_SHA256 pc)))],
                    ensure (hex_DecodeString (ps_SHA256 pc) \<noteq> None) ''plugins.%s.sha256 is not valid hex'' [EStr name]]
                 else None)])"

definition validateBackend :: "int \<times> UpstreamBackend \<Rightarrow> check" where
  "validateBackend ib =
     (let (i, b) = ib
      in firstError
           [ensure (ub_URL b \<noteq> []) ''upstreams.backends[%d].url is required'' [EInt i],
            ensure (ub_APIKey b \<noteq> []) ''upstreams.backends[%d].api_key is required'' [EInt i]])"

definition validateSecret :: "int \<times> HmacSecret \<Rightarrow> check" where
  "validateSecret is =
     (let (i, s) = is
      in firstError
           [ensure (hs_ID s \<noteq> [] \<and> hs_Secret s \<noteq> []) ''hmac_secrets[%d]: id and secret are required'' [EInt i],
            ensure (16 \<le> length (hs_Secret s)) ''hmac_secrets[%d]: secret must be at least 16 bytes, got %d''
              [EInt i, EInt (int (length (hs_Secret s)))]])"

text \<open>The loops that pass over a list with its indices.\<close>

definition indexed :: "'a list \<Rightarrow> (int \<times> 'a) list" where
  "indexed xs = map (\<lambda>i. (int i, xs ! i)) [0..<length xs]"

definition validate :: "(string \<Rightarrow> file_info option) \<Rightarrow> Config \<Rightarrow> check" where
  "validate stat c =
     (let ups = cfg_Upstreams c; rl = cfg_RateLimit c; tr = cfg_Tracing c; hc = HealthCheck ups
      in firstError
        ([ensure (Backends ups \<noteq> []) ''upstreams.backends is required'' []] @
         map validateBackend (indexed (Backends ups)) @
         map (\<lambda>(name, value). ensure (net_SplitHostPort value \<noteq> None) ''%s: invalid address %q'' [EStr name, EStr value])
           (listenAddrs c) @
         [portConflicts [] (listenAddrs c),
          ensure (0 < MaxBodySize c) ''max_body_size must be > 0, got %d'' [EInt (MaxBodySize c)],
          ensure (0 \<le> KeyCleanupInterval c) ''key_cleanup_interval must be >= 0, got %v'' [EInt (KeyCleanupInterval c)],
          ensure (0 < ShutdownWait c) ''shutdown_wait must be > 0, got %v'' [EInt (ShutdownWait c)],
          ensure (0 < AuditBufferSize c) ''audit_buffer_size must be > 0, got %d'' [EInt (AuditBufferSize c)],
          ensure (0 \<le> AuditEnqueueTimeout c) ''audit_enqueue_timeout must be >= 0, got %v'' [EInt (AuditEnqueueTimeout c)],
          ensure (0 \<le> AuditBodyMaxBytes c) ''audit_body_max_bytes must be >= 0, got %d'' [EInt (AuditBodyMaxBytes c)]] @
         map (\<lambda>(i, p). ensure (net_ParseCIDR (strings_TrimSpace p) \<noteq> None) ''trusted_proxies[%d]: invalid CIDR %q'' [EInt i, EStr p])
           (indexed (TrustedProxies c)) @
         map (validatePlugin stat) (cfg_Plugins c) @
         [ensure (0 < pd_Timeout (PluginDefaults c)) ''plugin_defaults.timeout must be > 0, got %v''
            [EInt (pd_Timeout (PluginDefaults c))],
          validateCircuitBreaker (pd_CircuitBreaker (PluginDefaults c)) ''plugin_defaults'',
          ensure (HmacSecrets c \<noteq> []) ''hmac_secrets is required: at least one HMAC secret must be configured'' []] @
         map validateSecret (indexed (HmacSecrets c)) @
         (if rl_Enabled rl
          then [ensure (0 < rl_Rate rl) ''rate_limit.rate must be > 0 when enabled'' [],
                ensure (0 < rl_Burst rl) ''rate_limit.burst must be > 0 when enabled, got %d'' [EInt (rl_Burst rl)]]
          else []) @
         (if 1 < length (Backends ups)
          then [ensure (0 < hc_Interval hc) ''upstreams.health_check.interval must be > 0, got %v'' [EInt (hc_Interval hc)],
                ensure (0 < hc_Timeout hc) ''upstreams.health_check.timeout must be > 0, got %v'' [EInt (hc_Timeout hc)],
                ensure (hc_Timeout hc < hc_Interval hc) ''upstreams.health_check.timeout (%v) must be less than interval (%v)''
                  [EInt (hc_Timeout hc), EInt (hc_Interval hc)]]
          else []) @
         (if tr_Enabled tr
          then [ensure (tr_Endpoint tr \<noteq> []) ''tracing.endpoint is required when tracing is enabled'' [],
                ensure (0 \<le> tr_SampleRate tr \<and> tr_SampleRate tr \<le> 1) ''tracing.sample_rate must be between 0.0 and 1.0'' []]
          else []) @
         [ensure (\<not> (db_Driver (cfg_DB c) = ''postgres'' \<and> db_DSN (cfg_DB c) = []))
            ''db.dsn is required when db.driver is postgres'' []]))"


section \<open>Loading and lookups\<close>

datatype default_value = DStr string | DInt int | DBool bool | DRat rat | DList "string list"

definition defaults :: "(string \<times> default_value) list" where
  "defaults =
     [(''listen'', DStr '':8080''), (''max_body_size'', DInt (2 ^ 20)), (''shutdown_wait'', DInt (30 * Second)),
      (''metrics.listen'', DStr '':9090''), (''admin.listen'', DStr '':9091''), (''db.driver'', DStr ''postgres''),
      (''rate_limit.enabled'', DBool False), (''rate_limit.rate'', DRat 100), (''rate_limit.burst'', DInt 200),
      (''plugin_defaults.timeout'', DInt (500 * Millisecond)),
      (''plugin_defaults.circuit_breaker.failure_threshold'', DInt 5),
      (''plugin_defaults.circuit_breaker.success_threshold'', DInt 2),
      (''plugin_defaults.circuit_breaker.cooldown'', DInt (30 * Second)),
      (''tracing.enabled'', DBool False), (''tracing.endpoint'', DStr ''localhost:4317''),
      (''tracing.insecure'', DBool False), (''tracing.sample_rate'', DRat 1),
      (''upstreams.health_check.interval'', DInt (10 * Second)), (''upstreams.health_check.timeout'', DInt (2 * Second)),
      (''upstreams.health_check.path'', DStr ''/api/v1/servers''),
      (''audit_buffer_size'', DInt 4096), (''key_cleanup_interval'', DInt 0), (''audit_log_body'', DBool False),
      (''audit_fail_closed'', DBool False), (''audit_enqueue_timeout'', DInt (250 * Millisecond)),
      (''audit_body_max_bytes'', DInt 8192),
      (''audit_redact_fields'', DList [''privatekey'', ''key'', ''secret'', ''tsig'']),
      (''audit_log'', DStr []), (''admin_token'', DStr []), (''db.dsn'', DStr [])]"

text \<open>
  What viper does with the defaults, the environment and the file: the read fails (with a file
  that is missing or otherwise), and the settings do or do not fit the structure.
\<close>

datatype read_result = ReadOk | ConfigFileNotFound | ReadError

definition Load ::
  "((string \<times> default_value) list \<Rightarrow> string \<Rightarrow> read_result \<times> Config option) \<Rightarrow> (string \<Rightarrow> bytes option) \<Rightarrow>
   (string \<Rightarrow> file_info option) \<Rightarrow> string \<Rightarrow> config_error + Config" where
  "Load viper readFile stat configPath =
     (let (read, settings) = viper defaults configPath
      in if read = ReadError then Inl (''read config'', [])
         else (case settings of
           None \<Rightarrow> Inl (''unmarshal config'', [])
         | Some cfg \<Rightarrow>
             (case resolveSecretFiles readFile cfg of
                Inl e \<Rightarrow> Inl e
              | Inr cfg \<Rightarrow> (case validate stat cfg of Some e \<Rightarrow> Inl e | None \<Rightarrow> Inr cfg))))"

definition CurrentHmacSecret :: "Config \<Rightarrow> HmacSecret option" where
  "CurrentHmacSecret c = (case HmacSecrets c of [] \<Rightarrow> None | s # _ \<Rightarrow> Some s)"

definition HmacSecretByID :: "Config \<Rightarrow> string \<Rightarrow> HmacSecret option" where
  "HmacSecretByID c sid = List.find (\<lambda>s. hs_ID s = sid) (HmacSecrets c)"

definition PluginConfigResolved :: "Config \<Rightarrow> string \<Rightarrow> PluginSettings option" where
  "PluginConfigResolved c name =
     (case map_of (cfg_Plugins c) name of
        None \<Rightarrow> None
      | Some pc \<Rightarrow>
          (let d = PluginDefaults c;
               pc = (if ps_Timeout pc = 0 then pc\<lparr>ps_Timeout := pd_Timeout d\<rparr> else pc);
               cb = ps_CircuitBreaker pc;
               cb = (if FailureThreshold cb = 0 then cb\<lparr>FailureThreshold := FailureThreshold (pd_CircuitBreaker d)\<rparr> else cb);
               cb = (if SuccessThreshold cb = 0 then cb\<lparr>SuccessThreshold := SuccessThreshold (pd_CircuitBreaker d)\<rparr> else cb);
               cb = (if Cooldown cb = 0 then cb\<lparr>Cooldown := Cooldown (pd_CircuitBreaker d)\<rparr> else cb)
           in Some (pc\<lparr>ps_CircuitBreaker := cb\<rparr>)))"


section \<open>What validation means\<close>

definition cb_valid :: "CircuitBreakerConfig \<Rightarrow> bool" where
  "cb_valid cb \<longleftrightarrow> 0 \<le> FailureThreshold cb \<and> 0 \<le> SuccessThreshold cb \<and> 0 \<le> Cooldown cb"

definition plugin_valid :: "(string \<Rightarrow> file_info option) \<Rightarrow> PluginSettings \<Rightarrow> bool" where
  "plugin_valid stat pc \<longleftrightarrow>
     (\<exists>info. stat (ps_Path pc) = Some info \<and> \<not> fi_IsDir info \<and> fi_Executable info) \<and>
     cb_valid (ps_CircuitBreaker pc) \<and> 0 \<le> ps_Timeout pc \<and>
     (ps_SHA256 pc = [] \<or> length (ps_SHA256 pc) = 64 \<and> (\<exists>bs. hex_DecodeString (ps_SHA256 pc) = Some bs))"

definition config_valid :: "(string \<Rightarrow> file_info option) \<Rightarrow> Config \<Rightarrow> bool" where
  "config_valid stat c \<longleftrightarrow>
     (let ups = cfg_Upstreams c; hc = HealthCheck ups; rl = cfg_RateLimit c; tr = cfg_Tracing c
      in Backends ups \<noteq> [] \<and> (\<forall>b \<in> set (Backends ups). ub_URL b \<noteq> [] \<and> ub_APIKey b \<noteq> []) \<and>
         (\<forall>a \<in> {cfg_Listen c, MetricsListen c, AdminListen c}. net_SplitHostPort a \<noteq> None) \<and>
         distinct (map normalizeListenAddr [cfg_Listen c, MetricsListen c, AdminListen c]) \<and>
         0 < MaxBodySize c \<and> 0 \<le> KeyCleanupInterval c \<and> 0 < ShutdownWait c \<and> 0 < AuditBufferSize c \<and>
         0 \<le> AuditEnqueueTimeout c \<and> 0 \<le> AuditBodyMaxBytes c \<and>
         (\<forall>p \<in> set (TrustedProxies c). net_ParseCIDR (strings_TrimSpace p) \<noteq> None) \<and>
         (\<forall>(name, pc) \<in> set (cfg_Plugins c). plugin_valid stat pc) \<and>
         0 < pd_Timeout (PluginDefaults c) \<and> cb_valid (pd_CircuitBreaker (PluginDefaults c)) \<and>
         HmacSecrets c \<noteq> [] \<and> (\<forall>s \<in> set (HmacSecrets c). hs_ID s \<noteq> [] \<and> 16 \<le> length (hs_Secret s)) \<and>
         (rl_Enabled rl \<longrightarrow> 0 < rl_Rate rl \<and> 0 < rl_Burst rl) \<and>
         (1 < length (Backends ups) \<longrightarrow> 0 < hc_Timeout hc \<and> hc_Timeout hc < hc_Interval hc) \<and>
         (tr_Enabled tr \<longrightarrow> tr_Endpoint tr \<noteq> [] \<and> 0 \<le> tr_SampleRate tr \<and> tr_SampleRate tr \<le> 1) \<and>
         (db_Driver (cfg_DB c) = ''postgres'' \<longrightarrow> db_DSN (cfg_DB c) \<noteq> []))"

lemma firstError_None: "firstError cs = None \<longleftrightarrow> (\<forall>c \<in> set cs. c = None)"
  by (induction cs rule: firstError.induct) auto

lemma ensure_None [simp]: "ensure ok msg args = None \<longleftrightarrow> ok"
  by (simp add: ensure_def)

lemma set_indexed: "(\<forall>ix \<in> set (indexed xs). P (snd ix)) \<longleftrightarrow> (\<forall>x \<in> set xs. P x)"
  by (auto simp: indexed_def all_set_conv_all_nth)

lemma validateCircuitBreaker_None: "validateCircuitBreaker cb pre = None \<longleftrightarrow> cb_valid cb"
  by (simp add: validateCircuitBreaker_def firstError_None cb_valid_def)

lemma validatePlugin_None: "validatePlugin stat (name, pc) = None \<longleftrightarrow> plugin_valid stat pc"
  by (auto simp: validatePlugin_def firstError_None validateCircuitBreaker_None plugin_valid_def split: option.split)

lemma validateBackend_None: "validateBackend ib = None \<longleftrightarrow> ub_URL (snd ib) \<noteq> [] \<and> ub_APIKey (snd ib) \<noteq> []"
  by (cases ib) (simp add: validateBackend_def firstError_None)

lemma validateSecret_None: "validateSecret is = None \<longleftrightarrow> hs_ID (snd is) \<noteq> [] \<and> 16 \<le> length (hs_Secret (snd is))"
  by (cases "is") (auto simp: validateSecret_def firstError_None)

lemma portConflicts_None:
  "portConflicts seen addrs = None \<longleftrightarrow>
     distinct (map (normalizeListenAddr \<circ> snd) addrs) \<and>
     (\<forall>a \<in> set addrs. normalizeListenAddr (snd a) \<notin> fst ` set seen)"
proof (induction seen addrs rule: portConflicts.induct)
  case (2 seen name addr rest)
  show ?case
  proof (cases "map_of seen (normalizeListenAddr addr)")
    case None
    then have "normalizeListenAddr addr \<notin> fst ` set seen" by (simp add: map_of_eq_None_iff)
    moreover have "portConflicts seen ((name, addr) # rest) = portConflicts ((normalizeListenAddr addr, name) # seen) rest"
      using None by (simp add: Let_def)
    moreover have "(\<forall>a \<in> set rest. normalizeListenAddr (snd a) \<notin> fst ` set ((normalizeListenAddr addr, name) # seen)) \<longleftrightarrow>
        normalizeListenAddr addr \<notin> (normalizeListenAddr \<circ> snd) ` set rest \<and>
        (\<forall>a \<in> set rest. normalizeListenAddr (snd a) \<notin> fst ` set seen)"
      by (auto simp: image_iff)
    ultimately show ?thesis using 2 [OF refl None] by (simp del: portConflicts.simps) blast
  next
    case (Some other)
    then have "normalizeListenAddr addr \<in> fst ` set seen" by (metis map_of_eq_None_iff option.discI)
    then show ?thesis using Some by (auto simp: Let_def)
  qed
qed simp

lemma firstError_append: "firstError (xs @ ys) = None \<longleftrightarrow> firstError xs = None \<and> firstError ys = None"
  by (auto simp: firstError_None)

lemma firstError_map: "firstError (map f xs) = None \<longleftrightarrow> (\<forall>x \<in> set xs. f x = None)"
  by (simp add: firstError_None)

lemma firstError_Cons: "firstError (c # cs) = None \<longleftrightarrow> c = None \<and> firstError cs = None"
  by (simp add: firstError_None)

lemma validate_indexed:
  "firstError (map validateBackend (indexed bs)) = None \<longleftrightarrow> (\<forall>b \<in> set bs. ub_URL b \<noteq> [] \<and> ub_APIKey b \<noteq> [])"
  "firstError (map validateSecret (indexed ss)) = None \<longleftrightarrow> (\<forall>s \<in> set ss. hs_ID s \<noteq> [] \<and> 16 \<le> length (hs_Secret s))"
  "firstError (map (\<lambda>(i, p). ensure (P p) msg (args i p)) (indexed ps)) = None \<longleftrightarrow> (\<forall>p \<in> set ps. P p)"
  using set_indexed [of bs "\<lambda>b. ub_URL b \<noteq> [] \<and> ub_APIKey b \<noteq> []"]
    set_indexed [of ss "\<lambda>s. hs_ID s \<noteq> [] \<and> 16 \<le> length (hs_Secret s)"] set_indexed [of ps P]
  by (simp_all add: firstError_map validateBackend_None validateSecret_None case_prod_unfold)

lemma validate_valid: "validate stat c = None \<longleftrightarrow> config_valid stat c"
proof -
  have addrs: "portConflicts [] (listenAddrs c) = None \<longleftrightarrow>
      distinct (map normalizeListenAddr [cfg_Listen c, MetricsListen c, AdminListen c])"
    unfolding portConflicts_None by (simp add: listenAddrs_def)
  have split: "firstError (map (\<lambda>(name, value). ensure (net_SplitHostPort value \<noteq> None) ''%s: invalid address %q'' [EStr name, EStr value])
      (listenAddrs c)) = None \<longleftrightarrow> (\<forall>a \<in> {cfg_Listen c, MetricsListen c, AdminListen c}. net_SplitHostPort a \<noteq> None)"
    by (simp add: firstError_Cons listenAddrs_def)
  have plugins: "firstError (map (validatePlugin stat) (cfg_Plugins c)) = None \<longleftrightarrow>
      (\<forall>(name, pc) \<in> set (cfg_Plugins c). plugin_valid stat pc)"
    by (auto simp: firstError_map validatePlugin_None)
  have opt: "firstError (if b then xs else []) = None \<longleftrightarrow> (b \<longrightarrow> firstError xs = None)" for b xs
    by simp
  have hc: "0 < hc_Interval h \<and> 0 < hc_Timeout h \<and> hc_Timeout h < hc_Interval h \<longleftrightarrow>
      0 < hc_Timeout h \<and> hc_Timeout h < hc_Interval h" for h :: HealthCheckConfig
    by auto
  have db: "\<not> (db_Driver d = ''postgres'' \<and> db_DSN d = []) \<longleftrightarrow> (db_Driver d = ''postgres'' \<longrightarrow> db_DSN d \<noteq> [])" for d :: DB
    by blast
  show ?thesis
    unfolding validate_def config_valid_def Let_def firstError_append firstError_Cons firstError.simps(1) opt
      ensure_None addrs split plugins validate_indexed validateCircuitBreaker_None
    by (simp only: simp_thms conj_assoc hc db)
qed

lemma newLoop_total: "\<forall>p \<in> set ps. net_ParseCIDR (strings_TrimSpace p) \<noteq> None \<Longrightarrow> \<exists>ns. newLoop ps acc = Some ns"
  by (induction ps arbitrary: acc) auto

lemma hex_Decode_length: "hex_DecodeString s = Some bs \<Longrightarrow> length s = 2 * length bs"
  by (induction s arbitrary: bs rule: hex_DecodeString.induct) (auto split: option.splits)

lemma Load_valid: "Load viper readFile stat path = Inr c \<Longrightarrow> config_valid stat c"
  by (auto simp: Load_def validate_valid split: prod.splits if_splits option.splits sum.splits)

lemma PluginConfigResolved_valid:
  assumes "config_valid stat c" and "name \<in> fst ` set (cfg_Plugins c)"
  shows "\<exists>pc info. PluginConfigResolved c name = Some pc \<and>
     stat (ps_Path pc) = Some info \<and> \<not> fi_IsDir info \<and> fi_Executable info \<and>
     0 < ps_Timeout pc \<and> cb_valid (ps_CircuitBreaker pc) \<and>
     (ps_SHA256 pc = [] \<or> (\<exists>bs. hex_DecodeString (ps_SHA256 pc) = Some bs \<and> length bs = 32))"
proof -
  obtain p where p: "map_of (cfg_Plugins c) name = Some p"
    using assms(2) by (metis map_of_eq_None_iff not_None_eq)
  have "\<forall>(name, pc) \<in> set (cfg_Plugins c). plugin_valid stat pc" and d: "0 < pd_Timeout (PluginDefaults c)" "cb_valid (pd_CircuitBreaker (PluginDefaults c))"
    using assms(1) unfolding config_valid_def Let_def by blast+
  then have valid: "plugin_valid stat p" using map_of_SomeD [OF p] by blast
  obtain pc where pc: "PluginConfigResolved c name = Some pc" "ps_Path pc = ps_Path p" "ps_SHA256 pc = ps_SHA256 p"
      "0 < ps_Timeout pc" "cb_valid (ps_CircuitBreaker pc)"
    using valid d p by (simp add: PluginConfigResolved_def plugin_valid_def cb_valid_def Let_def)
  have "ps_SHA256 p = [] \<or> (\<exists>bs. hex_DecodeString (ps_SHA256 p) = Some bs \<and> length bs = 32)"
    using valid hex_Decode_length [of "ps_SHA256 p"] by (auto simp: plugin_valid_def)
  then show ?thesis using pc valid by (auto simp: plugin_valid_def)
qed

definition demoConfig :: Config where
  "demoConfig =
     \<lparr>cfg_Listen = '':8080'', MaxBodySize = 1048576, AuditLog = [], AuditBufferSize = 4096, AuditLogBody = False,
      AuditFailClosed = False, AuditEnqueueTimeout = 0, AuditBodyMaxBytes = 0, AuditRedactFields = [],
      AdminToken = [], AdminTokenFile = [], ShutdownWait = Second, KeyCleanupInterval = 0,
      TrustedProxies = [''10.0.0.0/8''],
      cfg_Upstreams = \<lparr>Backends = [\<lparr>ub_URL = ''http://pdns:8081'', ub_APIKey = ''k'', ub_APIKeyFile = []\<rparr>],
        HealthCheck = \<lparr>hc_Interval = 0, hc_Timeout = 0, hc_Path = []\<rparr>\<rparr>,
      cfg_DB = \<lparr>db_Driver = ''memory'', db_DSN = []\<rparr>, MetricsListen = '':9090'', AdminListen = '':9091'',
      HmacSecrets = [\<lparr>hs_ID = ''v1'', hs_Secret = ''0123456789abcdef'', hs_SecretFile = []\<rparr>],
      cfg_RateLimit = \<lparr>rl_Enabled = False, rl_Rate = 0, rl_Burst = 0\<rparr>,
      cfg_Tracing = \<lparr>tr_Enabled = False, tr_Endpoint = [], tr_Insecure = False, tr_SampleRate = 0\<rparr>,
      PluginDefaults = \<lparr>pd_Timeout = Second, pd_CircuitBreaker = \<lparr>FailureThreshold = 5, SuccessThreshold = 2, Cooldown = Second\<rparr>\<rparr>,
      cfg_Plugins = [(''admin'', \<lparr>ps_Path = ''/p/admin'', ps_SHA256 = [], ps_Timeout = 0,
        ps_CircuitBreaker = \<lparr>FailureThreshold = 0, SuccessThreshold = 0, Cooldown = 0\<rparr>\<rparr>)]\<rparr>"

definition demoStat :: "string \<Rightarrow> file_info option" where
  "demoStat path = Some \<lparr>fi_IsDir = False, fi_Executable = True\<rparr>"

lemma demoConfig_loads: "Load (\<lambda>d p. (ReadOk, Some demoConfig)) (\<lambda>p. None) demoStat [] = Inr demoConfig"
proof -
  have "validate demoStat demoConfig = None" by code_simp
  then show ?thesis by (simp add: Load_def resolveSecretFiles_def resolve_def demoConfig_def)
qed



end
