(* ===== verification/Postgres.thy ===== *)
theory Postgres
  imports Key_Store Pg_Array
begin

text \<open>
  The PostgreSQL key store \<^verbatim>\<open>src/internal/store/postgres/postgres.go\<close>.  Each method of the store
  is a definition over a database handle: the statement it sends, what it makes of the result, and
  every error path.

  The server and the driver are not part of the repository.  A handle \<open>Database\<close> is a pair of
  functions, to execute and to query; the statements are the ones the store sends, with their
  arguments.  What the store relies on is the locale \<open>postgres_db\<close>: a statement that succeeds has
  the effect that SQL documents for it (\<open>run_exec\<close>, \<open>selects\<close>) under the constraints of the
  schema in \<^verbatim>\<open>src/migrations\<close> (primary key, NOT NULL), arrays are read and written in the documented
  text format, instants are kept in microseconds.  A statement may fail for any reason; after a
  failed execution nothing is known but that it was applied as a whole or not at all.  Under these
  laws the store meets the contract \<open>key_manager\<close> that the in-memory store meets.
\<close>

section \<open>The database handle\<close>

datatype sql_arg = ArgText string | ArgInt int

text \<open>The assignment of an UPDATE; an array argument is its text form, \<^const>\<open>None\<close> for NULL.\<close>

datatype sql_set =
    SetEnabledTo bool
  | SetRolesTo "string option"
  | SetCIDRsTo "string option"
  | SetHashTo string string
  | SetExpiresTo "gotime option"

datatype sql_exec =
    InsertKey string string string string "string option" "string option" bool "gotime option"
  | UpdateKey sql_set string
  | DeleteKey string
  | DeleteExpiredKeys gotime
  | InsertAudit string string string string string

text \<open>The conditions of a WHERE clause name their argument by its number, from 1.\<close>

datatype sql_cond = PrincipalIs nat | RoleIn nat

datatype sql_query =
    SelectById string
  | SelectKeys "sql_cond list" "(nat \<times> nat) option" "sql_arg list"

text \<open>A row as the driver hands it to \<^verbatim>\<open>Scan\<close>.\<close>

record sql_row =
  w_id :: string
  w_key_hash :: string
  w_hmac_key_id :: string
  w_principal :: string
  w_roles :: sql_src
  w_cidrs :: sql_src
  w_enabled :: bool
  w_expires :: "gotime option"
  w_created :: gotime
  w_updated :: gotime

text \<open>
  \<^verbatim>\<open>ExecContext\<close> returns an error or a result, whose \<^verbatim>\<open>RowsAffected\<close> may itself fail;
  \<^verbatim>\<open>QueryContext\<close> returns an error or the rows that \<^verbatim>\<open>Next\<close> yields and what \<^verbatim>\<open>Err\<close> says after them.
\<close>

record 'db Database =
  db_exec :: "sql_exec \<Rightarrow> 'db \<Rightarrow> (string + (string + int)) \<times> 'db"
  db_query :: "sql_query \<Rightarrow> 'db \<Rightarrow> string + sql_row list \<times> string option"


section \<open>The store\<close>

text \<open>\<^verbatim>\<open>row.Scan\<close> into a record; a NULL array is a nil slice.\<close>

definition scanRow :: "sql_row \<Rightarrow> string + KeyRecord" where
  "scanRow w =
     (case Scan (w_roles w) of
        Inl e \<Rightarrow> Inl e
      | Inr roles \<Rightarrow>
          (case Scan (w_cidrs w) of
             Inl e \<Rightarrow> Inl e
           | Inr allowedCIDRs \<Rightarrow>
               Inr \<lparr>KID = w_id w, KeyHash = w_key_hash w, HmacKeyID = w_hmac_key_id w,
                    KPrincipal = w_principal w, KRoles = nilSlice roles,
                    AllowedCIDRs = nilSlice allowedCIDRs, Enabled = w_enabled w,
                    ExpiresAt = w_expires w, CreatedAt = w_created w, UpdatedAt = w_updated w\<rparr>))"

text \<open>\<^verbatim>\<open>QueryRowContext\<close> and \<^verbatim>\<open>Scan\<close>: the first row, \<^const>\<open>None\<close> for \<^verbatim>\<open>sql.ErrNoRows\<close>.\<close>

definition pg_GetByID :: "'db Database \<Rightarrow> string \<Rightarrow> 'db \<Rightarrow> KeyRecord option sres" where
  "pg_GetByID db kid s =
     (let fail = (\<lambda>e. Inl (StoreError (''get key '' @ kid @ '': '' @ e)))
      in case db_query db (SelectById kid) s of
           Inl e \<Rightarrow> fail e
         | Inr ([], None) \<Rightarrow> Inr None
         | Inr ([], Some e) \<Rightarrow> fail e
         | Inr (w # _, err) \<Rightarrow>
             (case scanRow w of
                Inl e \<Rightarrow> fail e
              | Inr rec \<Rightarrow> (case err of Some e \<Rightarrow> fail e | None \<Rightarrow> Inr (Some rec))))"

text \<open>A Go slice field of the record may be nil; in the model both are the empty list, and
  \<^verbatim>\<open>coalesceStrings\<close> makes it so for the statement.\<close>

definition coalesceStrings :: "'a list option \<Rightarrow> 'a list option" where
  "coalesceStrings s = (case s of None \<Rightarrow> Some [] | Some xs \<Rightarrow> Some xs)"

definition pg_Create :: "'db Database \<Rightarrow> clock \<Rightarrow> KeyRecord \<Rightarrow> 'db \<Rightarrow> unit sres \<times> 'db" where
  "pg_Create db clk rec s =
     (case db_exec db (InsertKey (KID rec) (KeyHash rec) (HmacKeyID rec) (KPrincipal rec)
             (Value (coalesceStrings (Some (KRoles rec))))
             (Value (coalesceStrings (Some (AllowedCIDRs rec)))) (Enabled rec) (ExpiresAt rec)) s of
        (Inl e, s') \<Rightarrow> (Inl (StoreError (''create key '' @ KID rec @ '': '' @ e)), s')
      | (Inr _, s') \<Rightarrow> (Inr (), s'))"

text \<open>The loop over the rows that the three listings share.\<close>

fun scanRows :: "sql_row list \<Rightarrow> KeyRecord list \<Rightarrow> string + KeyRecord list" where
  "scanRows [] result = Inr result"
| "scanRows (w # ws) result =
     (case scanRow w of
        Inl e \<Rightarrow> Inl (''scan key: '' @ e)
      | Inr rec \<Rightarrow> scanRows ws (result @ [rec]))"

definition collectRows :: "string \<Rightarrow> (string + sql_row list \<times> string option) \<Rightarrow> KeyRecord list sres" where
  "collectRows op res =
     (case res of
        Inl e \<Rightarrow> Inl (StoreError (op @ '': '' @ e))
      | Inr (ws, err) \<Rightarrow>
          (case scanRows ws [] of
             Inl e \<Rightarrow> Inl (StoreError e)
           | Inr result \<Rightarrow> (case err of Some e \<Rightarrow> Inl (StoreError e) | None \<Rightarrow> Inr result)))"

definition pg_List :: "'db Database \<Rightarrow> 'db \<Rightarrow> KeyRecord list sres" where
  "pg_List db s = collectRows ''list keys'' (db_query db (SelectKeys [] None []) s)"

definition pg_ListPaged :: "'db Database \<Rightarrow> int \<Rightarrow> int \<Rightarrow> 'db \<Rightarrow> KeyRecord list sres" where
  "pg_ListPaged db limit offset s =
     collectRows ''list keys paged''
       (db_query db (SelectKeys [] (Some (1, 2)) [ArgInt limit, ArgInt offset]) s)"

text \<open>The query that \<^verbatim>\<open>ListFiltered\<close> puts together, with \<^verbatim>\<open>args\<close> and the running number \<^verbatim>\<open>argN\<close>.\<close>

definition filteredQuery :: "int \<Rightarrow> int \<Rightarrow> string \<Rightarrow> string \<Rightarrow> sql_query" where
  "filteredQuery limit offset prin role =
     (let conds = []; args = []; argN = 1;
          (conds, args, argN) =
            (if prin \<noteq> '''' then (conds @ [PrincipalIs argN], args @ [ArgText prin], argN + 1)
             else (conds, args, argN));
          (conds, args, argN) =
            (if role \<noteq> '''' then (conds @ [RoleIn argN], args @ [ArgText role], argN + 1)
             else (conds, args, argN))
      in SelectKeys conds (Some (argN, argN + 1)) (args @ [ArgInt limit, ArgInt offset]))"

definition pg_ListFiltered ::
  "'db Database \<Rightarrow> int \<Rightarrow> int \<Rightarrow> string \<Rightarrow> string \<Rightarrow> 'db \<Rightarrow> KeyRecord list sres" where
  "pg_ListFiltered db limit offset prin role s =
     collectRows ''list keys filtered'' (db_query db (filteredQuery limit offset prin role) s)"

definition checkRowsAffected :: "string + int \<Rightarrow> string \<Rightarrow> unit sres" where
  "checkRowsAffected res kid =
     (case res of
        Inl e \<Rightarrow> Inl (StoreError e)
      | Inr n \<Rightarrow> if n = 0 then Inl (ErrKeyNotFound kid) else Inr ())"

definition pg_SetEnabled :: "'db Database \<Rightarrow> clock \<Rightarrow> string \<Rightarrow> bool \<Rightarrow> 'db \<Rightarrow> unit sres \<times> 'db" where
  "pg_SetEnabled db clk kid enabled s =
     (case db_exec db (UpdateKey (SetEnabledTo enabled) kid) s of
        (Inl e, s') \<Rightarrow> (Inl (StoreError (''set enabled '' @ kid @ '': '' @ e)), s')
      | (Inr res, s') \<Rightarrow> (checkRowsAffected res kid, s'))"

definition pg_SetRoles :: "'db Database \<Rightarrow> clock \<Rightarrow> string \<Rightarrow> string list option \<Rightarrow> 'db \<Rightarrow> unit sres \<times> 'db" where
  "pg_SetRoles db clk kid roles s =
     (case db_exec db (UpdateKey (SetRolesTo (Value roles)) kid) s of
        (Inl e, s') \<Rightarrow> (Inl (StoreError (''set roles '' @ kid @ '': '' @ e)), s')
      | (Inr res, s') \<Rightarrow> (checkRowsAffected res kid, s'))"

definition pg_SetAllowedCIDRs ::
  "'db Database \<Rightarrow> clock \<Rightarrow> string \<Rightarrow> string list option \<Rightarrow> 'db \<Rightarrow> unit sres \<times> 'db" where
  "pg_SetAllowedCIDRs db clk kid cidrs s =
     (case db_exec db (UpdateKey (SetCIDRsTo (Value cidrs)) kid) s of
        (Inl e, s') \<Rightarrow> (Inl (StoreError (''set allowed_cidrs '' @ kid @ '': '' @ e)), s')
      | (Inr res, s') \<Rightarrow> (checkRowsAffected res kid, s'))"

definition pg_UpdateHash ::
  "'db Database \<Rightarrow> clock \<Rightarrow> string \<Rightarrow> string \<Rightarrow> string \<Rightarrow> 'db \<Rightarrow> unit sres \<times> 'db" where
  "pg_UpdateHash db clk kid newHash newHmacKeyID s =
     (case db_exec db (UpdateKey (SetHashTo newHash newHmacKeyID) kid) s of
        (Inl e, s') \<Rightarrow> (Inl (StoreError (''update hash '' @ kid @ '': '' @ e)), s')
      | (Inr res, s') \<Rightarrow> (checkRowsAffected res kid, s'))"

definition pg_Delete :: "'db Database \<Rightarrow> string \<Rightarrow> 'db \<Rightarrow> unit sres \<times> 'db" where
  "pg_Delete db kid s =
     (case db_exec db (DeleteKey kid) s of
        (Inl e, s') \<Rightarrow> (Inl (StoreError (''delete key '' @ kid @ '': '' @ e)), s')
      | (Inr res, s') \<Rightarrow> (checkRowsAffected res kid, s'))"

definition pg_SetExpiresAt ::
  "'db Database \<Rightarrow> clock \<Rightarrow> string \<Rightarrow> gotime option \<Rightarrow> 'db \<Rightarrow> unit sres \<times> 'db" where
  "pg_SetExpiresAt db clk kid expiresAt s =
     (case db_exec db (UpdateKey (SetExpiresTo expiresAt) kid) s of
        (Inl e, s') \<Rightarrow> (Inl (StoreError (''set expires_at '' @ kid @ '': '' @ e)), s')
      | (Inr res, s') \<Rightarrow> (checkRowsAffected res kid, s'))"

definition pg_DeleteExpired :: "'db Database \<Rightarrow> gotime \<Rightarrow> 'db \<Rightarrow> int sres \<times> 'db" where
  "pg_DeleteExpired db before s =
     (case db_exec db (DeleteExpiredKeys before) s of
        (Inl e, s') \<Rightarrow> (Inl (StoreError (''delete expired keys: '' @ e)), s')
      | (Inr (Inl e), s') \<Rightarrow> (Inl (StoreError (''delete expired rows affected: '' @ e)), s')
      | (Inr (Inr n), s') \<Rightarrow> (Inr n, s'))"

text \<open>The two \<^verbatim>\<open>json.Marshal\<close> calls cannot fail on values that have a JSON encoding.\<close>

definition pg_AuditKeyEvent ::
  "'db Database \<Rightarrow> string \<Rightarrow> string \<Rightarrow> string \<Rightarrow> json \<Rightarrow> json \<Rightarrow> 'db \<Rightarrow> unit sres \<times> 'db" where
  "pg_AuditKeyEvent db keyID action changedBy oldValues newValues s =
     (let oldJSON = json_encode oldValues; newJSON = json_encode newValues
      in case db_exec db (InsertAudit keyID action changedBy oldJSON newJSON) s of
           (Inl e, s') \<Rightarrow> (Inl (StoreError (''audit key event: '' @ e)), s')
         | (Inr _, s') \<Rightarrow> (Inr (), s'))"

text \<open>The method table of \<^verbatim>\<open>*postgres.Store\<close>; the server's clock is used, not the process's.\<close>

definition postgres_KeyManager :: "'db Database \<Rightarrow> 'db KeyManager" where
  "postgres_KeyManager db =
     \<lparr>m_GetByID = pg_GetByID db, m_Create = pg_Create db, m_List = pg_List db,
      m_ListPaged = pg_ListPaged db, m_ListFiltered = pg_ListFiltered db,
      m_SetEnabled = pg_SetEnabled db, m_SetRoles = pg_SetRoles db,
      m_SetAllowedCIDRs = pg_SetAllowedCIDRs db, m_UpdateHash = pg_UpdateHash db,
      m_Delete = pg_Delete db, m_DeleteExpired = pg_DeleteExpired db,
      m_SetExpiresAt = pg_SetExpiresAt db, m_AuditKeyEvent = pg_AuditKeyEvent db\<rparr>"

text \<open>
  Opening the store: what the driver and the migration library answer, and, if it fails, whether the
  handle was closed again.
\<close>

datatype migrate_up = MigrateOk | MigrateNoChange | MigrateError string

record pg_server =
  ps_open :: "string \<Rightarrow> string option"
  ps_ping :: "string option"
  ps_driver :: "string option"
  ps_source :: "string \<Rightarrow> string option"
  ps_up :: migrate_up

definition runMigrations :: "pg_server \<Rightarrow> string \<Rightarrow> string option" where
  "runMigrations srv path =
     (case ps_driver srv of
        Some e \<Rightarrow> Some e
      | None \<Rightarrow>
          (case ps_source srv (''file://'' @ path) of
             Some e \<Rightarrow> Some e
           | None \<Rightarrow> (case ps_up srv of MigrateError e \<Rightarrow> Some e | _ \<Rightarrow> None)))"

definition pg_NewStore :: "pg_server \<Rightarrow> string \<Rightarrow> string \<Rightarrow> (string \<times> bool) option" where
  "pg_NewStore srv dsn migrationsPath =
     (case ps_open srv dsn of
        Some e \<Rightarrow> Some (''open db: '' @ e, False)
      | None \<Rightarrow>
          (case ps_ping srv of
             Some e \<Rightarrow> Some (''ping: '' @ e, True)
           | None \<Rightarrow>
               (if migrationsPath \<noteq> '''' then
                  (case runMigrations srv migrationsPath of
                     Some e \<Rightarrow> Some (''migrations: '' @ e, True)
                   | None \<Rightarrow> None)
                else None)))"

text \<open>A store that does not open leaves no handle behind.\<close>

lemma pg_NewStore_closes: "pg_NewStore srv dsn path = Some (e, released) \<Longrightarrow> released \<longleftrightarrow> ps_open srv dsn = None"
  by (auto simp: pg_NewStore_def split: option.splits if_splits)

section \<open>What the store relies on\<close>

text \<open>A row of the table \<^verbatim>\<open>api_keys\<close>; an element of a \<^verbatim>\<open>TEXT[]\<close> may be NULL.\<close>

record key_row =
  row_id :: string
  row_key_hash :: string
  row_hmac_key_id :: string
  row_principal :: string
  row_roles :: "string option list"
  row_cidrs :: "string option list"
  row_enabled :: bool
  row_expires :: "gotime option"
  row_created :: gotime
  row_updated :: gotime

text \<open>An array argument of a \<^verbatim>\<open>NOT NULL\<close> column; \<open>array_in\<close> is the server's input routine for arrays.\<close>

definition sql_array :: "(string \<Rightarrow> string option list option) \<Rightarrow> string option \<Rightarrow> string + string option list" where
  "sql_array array_in v =
     (case v of
        None \<Rightarrow> Inl ''null value violates not-null constraint''
      | Some lit \<Rightarrow> (case array_in lit of None \<Rightarrow> Inl ''malformed array literal'' | Some xs \<Rightarrow> Inr xs))"

fun sql_assign ::
  "(string \<Rightarrow> string option list option) \<Rightarrow> (gotime \<Rightarrow> gotime) \<Rightarrow> sql_set \<Rightarrow> key_row \<Rightarrow> string + key_row" where
  "sql_assign array_in tstz (SetEnabledTo b) r = Inr (r\<lparr>row_enabled := b\<rparr>)"
| "sql_assign array_in tstz (SetRolesTo v) r = map_sum id (\<lambda>xs. r\<lparr>row_roles := xs\<rparr>) (sql_array array_in v)"
| "sql_assign array_in tstz (SetCIDRsTo v) r = map_sum id (\<lambda>xs. r\<lparr>row_cidrs := xs\<rparr>) (sql_array array_in v)"
| "sql_assign array_in tstz (SetHashTo h i) r = Inr (r\<lparr>row_key_hash := h, row_hmac_key_id := i\<rparr>)"
| "sql_assign array_in tstz (SetExpiresTo e) r = Inr (r\<lparr>row_expires := map_option tstz e\<rparr>)"

text \<open>
  The effect of a statement on the table and the number of rows it affects: the primary key and
  the constraints are enforced, \<^verbatim>\<open>NOW()\<close> is \<open>t\<close>, an instant is stored as \<open>tstz\<close> of it.
\<close>

fun run_exec ::
  "(string \<Rightarrow> string option list option) \<Rightarrow> (gotime \<Rightarrow> gotime) \<Rightarrow> gotime \<Rightarrow> sql_exec \<Rightarrow> key_row list \<Rightarrow>
   string + nat \<times> key_row list" where
  "run_exec array_in tstz t (InsertKey k h i p roles cidrs b e) rows =
     (case sql_array array_in roles of
        Inl err \<Rightarrow> Inl err
      | Inr rs \<Rightarrow>
          (case sql_array array_in cidrs of
             Inl err \<Rightarrow> Inl err
           | Inr cs \<Rightarrow>
               if k \<in> row_id ` set rows then Inl ''duplicate key value violates unique constraint''
               else Inr (1, rows @ [\<lparr>row_id = k, row_key_hash = h, row_hmac_key_id = i, row_principal = p,
                      row_roles = rs, row_cidrs = cs, row_enabled = b, row_expires = map_option tstz e,
                      row_created = t, row_updated = t\<rparr>])))"
| "run_exec array_in tstz t (UpdateKey u k) rows =
     (case find (\<lambda>r. row_id r = k) rows of
        None \<Rightarrow> Inr (0, rows)
      | Some r \<Rightarrow>
          (case sql_assign array_in tstz u r of
             Inl err \<Rightarrow> Inl err
           | Inr r' \<Rightarrow> Inr (1, map (\<lambda>x. if row_id x = k then r'\<lparr>row_updated := t\<rparr> else x) rows)))"
| "run_exec array_in tstz t (DeleteKey k) rows =
     Inr (length (filter (\<lambda>r. row_id r = k) rows), filter (\<lambda>r. row_id r \<noteq> k) rows)"
| "run_exec array_in tstz t (DeleteExpiredKeys before) rows =
     (let expired = (\<lambda>r. case row_expires r of None \<Rightarrow> False | Some e \<Rightarrow> e < tstz before)
      in Inr (length (filter expired rows), filter (\<lambda>r. \<not> expired r) rows))"
| "run_exec array_in tstz t (InsertAudit k a c old new) rows = Inr (1, rows)"

text \<open>
  The text form in which the server returns an array: an element is quoted if it is empty, has
  braces, delimiters, quotes, backslashes or white space, or is the word NULL.
\<close>

definition out_quotes :: "string \<Rightarrow> bool" where
  "out_quotes x \<longleftrightarrow> x = [] \<or> strings_ContainsAny x [CHR ''{'', CHR ''}'', CHR '','', CHR 0x22, CHR 0x5C] \<or>
     strings_ContainsAny x [CHR '' '', CHR 0x09, CHR 0x0A, CHR 0x0B, CHR 0x0C, CHR 0x0D] \<or>
     strings_EqualFold x ''NULL''"

fun out_element :: "string option \<Rightarrow> string" where
  "out_element None = ''NULL''"
| "out_element (Some x) = (if out_quotes x then [CHR 0x22] @ escapeBytes x @ [CHR 0x22] else x)"

definition array_out :: "string option list \<Rightarrow> string" where
  "array_out xs = array_literal (map out_element xs)"

definition wire :: "key_row \<Rightarrow> sql_row" where
  "wire r = \<lparr>w_id = row_id r, w_key_hash = row_key_hash r, w_hmac_key_id = row_hmac_key_id r,
     w_principal = row_principal r, w_roles = SrcString (array_out (row_roles r)),
     w_cidrs = SrcString (array_out (row_cidrs r)), w_enabled = row_enabled r,
     w_expires = row_expires r, w_created = row_created r, w_updated = row_updated r\<rparr>"

definition sql_param :: "sql_arg list \<Rightarrow> nat \<Rightarrow> sql_arg option" where
  "sql_param args n = (if 1 \<le> n \<and> n \<le> length args then Some (args ! (n - 1)) else None)"

fun sql_holds :: "sql_arg list \<Rightarrow> key_row \<Rightarrow> sql_cond \<Rightarrow> bool" where
  "sql_holds args r (PrincipalIs n) = (sql_param args n = Some (ArgText (row_principal r)))"
| "sql_holds args r (RoleIn n) =
     list_ex (\<lambda>x. case x of None \<Rightarrow> False | Some role \<Rightarrow> sql_param args n = Some (ArgText role)) (row_roles r)"

text \<open>The rows that a query may return: \<^verbatim>\<open>ORDER BY created_at\<close> leaves the order of equal instants open.\<close>

fun selects :: "sql_query \<Rightarrow> key_row list \<Rightarrow> key_row list \<Rightarrow> bool" where
  "selects (SelectById k) rows rs = (rs = filter (\<lambda>r. row_id r = k) rows)"
| "selects (SelectKeys conds page args) rows rs =
     (\<exists>all. mset all = mset (filter (\<lambda>r. list_all (sql_holds args r) conds) rows) \<and>
            sorted (map row_created all) \<and>
            (case page of
               None \<Rightarrow> rs = all
             | Some (l, o') \<Rightarrow> \<exists>limit offset. sql_param args l = Some (ArgInt limit) \<and>
                 sql_param args o' = Some (ArgInt offset) \<and> 0 \<le> limit \<and> 0 \<le> offset \<and>
                 rs = take (nat limit) (drop (nat offset) all)))"

locale postgres_db =
  fixes db :: "'db Database"
    and rows :: "'db \<Rightarrow> key_row list"
    and array_in :: "string \<Rightarrow> string option list option"
    and tstz :: "gotime \<Rightarrow> gotime"
    and clock :: "'db \<Rightarrow> gotime"
  assumes array_in_elements: "list_all2 array_element xs ws \<Longrightarrow> array_in (array_literal ws) = Some (map Some xs)"
    and tstz_micros: "1000 dvd t \<Longrightarrow> tstz t = t"
    and exec_ok: "db_exec db q s = (Inr res, s') \<Longrightarrow>
        \<exists>n. run_exec array_in tstz (clock s) q (rows s) = Inr (n, rows s') \<and> (\<forall>m. res = Inr m \<longrightarrow> m = int n)"
    and exec_fail: "db_exec db q s = (Inl e, s') \<Longrightarrow>
        rows s' = rows s \<or> (\<exists>n. run_exec array_in tstz (clock s) q (rows s) = Inr (n, rows s'))"
    and query_ok: "db_query db sel s = Inr (wires, None) \<Longrightarrow> \<exists>rs. wires = map wire rs \<and> selects sel (rows s) rs"


section \<open>Reading back\<close>

lemma out_element_element: "pg_safe x \<Longrightarrow> array_element x (out_element (Some x))"
  by (auto simp: array_element_def out_quotes_def pg_safe_def needsQuotes_def strings_ContainsAny_def list_ex_iff)

lemma scan_array_out:
  assumes "list_all pg_safe xs"
  shows "Scan (SrcString (array_out (map Some xs))) = Inr (Some xs)"
proof -
  have "list_all2 array_element xs (map out_element (map Some xs))"
    using assms out_element_element by (auto simp: list_all2_map2 list.rel_refl_strong list_all_iff)
  then show ?thesis
    by (simp add: array_out_def scan_elements)
qed

text \<open>The record that a row stands for: an array that cannot be read counts as empty.\<close>

definition read_array :: "string option list \<Rightarrow> string list" where
  "read_array xs = (case Scan (SrcString (array_out xs)) of Inl _ \<Rightarrow> [] | Inr r \<Rightarrow> nilSlice r)"

definition row_record :: "key_row \<Rightarrow> KeyRecord" where
  "row_record r = \<lparr>KID = row_id r, KeyHash = row_key_hash r, HmacKeyID = row_hmac_key_id r,
     KPrincipal = row_principal r, KRoles = read_array (row_roles r),
     AllowedCIDRs = read_array (row_cidrs r), Enabled = row_enabled r, ExpiresAt = row_expires r,
     CreatedAt = row_created r, UpdatedAt = row_updated r\<rparr>"

definition pg_view :: "key_row list \<Rightarrow> string \<rightharpoonup> KeyRecord" where
  "pg_view rows k = map_option row_record (find (\<lambda>r. row_id r = k) rows)"

definition pg_invar :: "key_row list \<Rightarrow> bool" where
  "pg_invar rows \<longleftrightarrow> distinct (map row_id rows)"

definition micros :: "gotime \<Rightarrow> bool" where
  "micros t \<longleftrightarrow> 1000 dvd t"

lemma read_array_safe: "list_all pg_safe xs \<Longrightarrow> read_array (map Some xs) = xs"
  using scan_array_out [of xs] by (simp add: read_array_def)

lemma scanRow_wire: "scanRow (wire r) = Inr rec \<Longrightarrow> rec = row_record r"
  by (auto simp: scanRow_def wire_def row_record_def read_array_def split: sum.splits)

lemma scanRows_wire: "scanRows (map wire rs) acc = Inr recs \<Longrightarrow> recs = acc @ map row_record rs"
  by (induction rs arbitrary: acc) (fastforce split: sum.splits dest: scanRow_wire)+

section \<open>The table as a map\<close>

lemma find_row: "find (\<lambda>r. row_id r = k) rows = Some r \<Longrightarrow> row_id r = k \<and> r \<in> set rows"
  by (auto simp: find_Some_iff)

lemma find_update_other:
  "row_id r' = k \<Longrightarrow> j \<noteq> k \<Longrightarrow>
   find (\<lambda>r. row_id r = j) (map (\<lambda>x. if row_id x = k then r' else x) rows) = find (\<lambda>r. row_id r = j) rows"
  by (induction rows) auto

lemma find_update:
  "find (\<lambda>r. row_id r = k) rows \<noteq> None \<Longrightarrow> row_id r' = k \<Longrightarrow>
   find (\<lambda>r. row_id r = j) (map (\<lambda>x. if row_id x = k then r' else x) rows) =
     (if j = k then Some r' else find (\<lambda>r. row_id r = j) rows)"
  by (induction rows) (auto simp: find_update_other)

lemma find_append: "find P (xs @ ys) = (case find P xs of None \<Rightarrow> find P ys | Some x \<Rightarrow> Some x)"
  by (induction xs) auto

lemma find_filter:
  "distinct (map row_id rows) \<Longrightarrow>
   find (\<lambda>r. row_id r = k) (filter P rows) =
     (case find (\<lambda>r. row_id r = k) rows of None \<Rightarrow> None | Some r \<Rightarrow> if P r then Some r else None)"
proof (induction rows)
  case (Cons r rows)
  show ?case
  proof (cases "row_id r = k")
    case True
    then have "find (\<lambda>r. row_id r = k) rows = None" "find (\<lambda>r. row_id r = k) (filter P rows) = None"
      using Cons.prems by (auto simp: find_None_iff intro: rev_image_eqI)
    with True show ?thesis by simp
  next
    case False
    with Cons show ?thesis by simp
  qed
qed simp

lemma find_head: "find P xs = (case filter P xs of [] \<Rightarrow> None | x # _ \<Rightarrow> Some x)"
  by (induction xs) auto

lemma find_absent: "k \<notin> row_id ` set rows \<Longrightarrow> find (\<lambda>r. row_id r = k) rows = None"
  by (auto simp: find_None_iff)

lemma pg_view_insert:
  "row_id r \<notin> row_id ` set rows \<Longrightarrow> pg_view (rows @ [r]) = (pg_view rows)(row_id r \<mapsto> row_record r)"
  using find_absent [of "row_id r" rows]
  by (intro ext) (auto simp: pg_view_def find_append split: option.split)

lemma pg_view_None: "pg_view rows k = None \<longleftrightarrow> k \<notin> row_id ` set rows"
  by (auto simp: pg_view_def find_None_iff)

lemma sql_assign_id: "sql_assign array_in tstz u r = Inr r' \<Longrightarrow> row_id r' = row_id r"
  by (cases u) (auto simp: sql_array_def split: option.splits)

lemma run_exec_update:
  assumes "run_exec array_in tstz t (UpdateKey u k) rows = Inr (n, rows')" and "n \<noteq> 0"
  shows "\<exists>r r'. find (\<lambda>r. row_id r = k) rows = Some r \<and> sql_assign array_in tstz u r = Inr r' \<and>
    pg_view rows k = Some (row_record r) \<and>
    pg_view rows' = (pg_view rows)(k \<mapsto> row_record (r'\<lparr>row_updated := t\<rparr>))"
proof -
  obtain r r' where r: "find (\<lambda>r. row_id r = k) rows = Some r" "sql_assign array_in tstz u r = Inr r'"
      "rows' = map (\<lambda>x. if row_id x = k then r'\<lparr>row_updated := t\<rparr> else x) rows"
    using assms by (auto split: option.splits sum.splits)
  have "row_id (r'\<lparr>row_updated := t\<rparr>) = k"
    using sql_assign_id [OF r(2)] find_row [OF r(1)] by simp
  then have "find (\<lambda>r. row_id r = j) rows' =
      (if j = k then Some (r'\<lparr>row_updated := t\<rparr>) else find (\<lambda>r. row_id r = j) rows)" for j
    unfolding r(3) using r(1) by (intro find_update) simp_all
  then have "pg_view rows' = (pg_view rows)(k \<mapsto> row_record (r'\<lparr>row_updated := t\<rparr>))"
    by (intro ext) (simp add: pg_view_def)
  moreover have "pg_view rows k = Some (row_record r)"
    using r(1) by (simp add: pg_view_def)
  ultimately show ?thesis
    using r(1,2) by blast
qed

lemma run_exec_invar:
  assumes "run_exec array_in tstz t q rows = Inr (n, rows')" and "pg_invar rows"
  shows "pg_invar rows'"
proof (cases q)
  case (UpdateKey u k)
  then show ?thesis
  proof (cases "find (\<lambda>r. row_id r = k) rows")
    case (Some r)
    then obtain r' where r': "sql_assign array_in tstz u r = Inr r'"
        "rows' = map (\<lambda>x. if row_id x = k then r'\<lparr>row_updated := t\<rparr> else x) rows"
      using assms(1) UpdateKey by (auto split: sum.splits)
    have "row_id r' = k"
      using sql_assign_id [OF r'(1)] find_row [OF Some] by simp
    then have "map row_id rows' = map row_id rows"
      by (auto simp: r'(2))
    then show ?thesis
      using assms(2) by (simp add: pg_invar_def)
  qed (use assms UpdateKey in auto)
next
  case (DeleteKey k)
  then show ?thesis
    using assms by (auto simp: pg_invar_def distinct_map_filter)
next
  case (DeleteExpiredKeys t)
  then show ?thesis
    using assms by (auto simp: pg_invar_def Let_def distinct_map_filter)
qed (use assms in \<open>auto simp: pg_invar_def split: sum.splits if_splits\<close>)

lemma pg_view_filter:
  assumes "pg_invar rows"
  shows "pg_view (filter P rows) k =
    (case find (\<lambda>r. row_id r = k) rows of None \<Rightarrow> None | Some r \<Rightarrow> if P r then Some (row_record r) else None)"
  using assms find_filter [of rows k P] by (simp add: pg_view_def pg_invar_def split: option.split)

lemma pg_view_delete:
  assumes "pg_invar rows"
  shows "pg_view (filter (\<lambda>r. row_id r \<noteq> k) rows) = (pg_view rows)(k := None)"
proof (rule ext)
  fix j
  show "pg_view (filter (\<lambda>r. row_id r \<noteq> k) rows) j = ((pg_view rows)(k := None)) j"
    using pg_view_filter [OF assms, of "\<lambda>r. row_id r \<noteq> k" j]
    by (cases "find (\<lambda>r. row_id r = j) rows") (auto simp: pg_view_def dest: find_row)
qed

lemma find_row_iff:
  "pg_invar rows \<Longrightarrow> find (\<lambda>r. row_id r = k) rows = Some r \<longleftrightarrow> r \<in> set rows \<and> row_id r = k"
proof (induction rows)
  case (Cons x rows)
  have *: "r \<in> set rows \<Longrightarrow> row_id r \<noteq> row_id x" and "pg_invar rows"
    using Cons.prems by (auto simp: pg_invar_def intro: rev_image_eqI)
  with Cons.IH show ?case
    by (cases "row_id x = k") auto
qed simp

lemma card_view:
  assumes "pg_invar rows"
  shows "card {k. \<exists>r. pg_view rows k = Some r \<and> P r} = length (filter (\<lambda>r. P (row_record r)) rows)"
proof -
  let ?f = "filter (\<lambda>r. P (row_record r)) rows"
  have "{k. \<exists>r. pg_view rows k = Some r \<and> P r} = set (map row_id ?f)"
  proof (intro set_eqI)
    fix k
    have "(\<exists>r. pg_view rows k = Some r \<and> P r) \<longleftrightarrow> (\<exists>r. r \<in> set rows \<and> row_id r = k \<and> P (row_record r))"
      using find_row_iff [OF assms, of k] by (simp add: pg_view_def ex_simps conj_assoc del: ex_simps(1)) blast
    then show "k \<in> {k. \<exists>r. pg_view rows k = Some r \<and> P r} \<longleftrightarrow> k \<in> set (map row_id ?f)"
      by auto
  qed
  moreover have "card (set (map row_id ?f)) = length (map row_id ?f)"
    using assms by (intro distinct_card) (simp add: pg_invar_def distinct_map_filter)
  ultimately show ?thesis
    by (simp only: length_map)
qed

section \<open>The contract\<close>

lemma postgres_table [simp]:
  "m_GetByID (postgres_KeyManager db) = pg_GetByID db"
  "m_Create (postgres_KeyManager db) = pg_Create db"
  "m_ListFiltered (postgres_KeyManager db) = pg_ListFiltered db"
  "m_SetEnabled (postgres_KeyManager db) = pg_SetEnabled db"
  "m_SetRoles (postgres_KeyManager db) = pg_SetRoles db"
  "m_SetAllowedCIDRs (postgres_KeyManager db) = pg_SetAllowedCIDRs db"
  "m_UpdateHash (postgres_KeyManager db) = pg_UpdateHash db"
  "m_Delete (postgres_KeyManager db) = pg_Delete db"
  "m_DeleteExpired (postgres_KeyManager db) = pg_DeleteExpired db"
  "m_SetExpiresAt (postgres_KeyManager db) = pg_SetExpiresAt db"
  "m_AuditKeyEvent (postgres_KeyManager db) = pg_AuditKeyEvent db"
  by (simp_all add: postgres_KeyManager_def)

text \<open>Every call of the interface is one statement.\<close>

fun call_statement :: "store_call \<Rightarrow> sql_exec" where
  "call_statement (CallCreate r) = InsertKey (KID r) (KeyHash r) (HmacKeyID r) (KPrincipal r)
     (Value (Some (KRoles r))) (Value (Some (AllowedCIDRs r))) (Enabled r) (ExpiresAt r)"
| "call_statement (CallSetEnabled k b) = UpdateKey (SetEnabledTo b) k"
| "call_statement (CallSetRoles k rs) = UpdateKey (SetRolesTo (Value rs)) k"
| "call_statement (CallSetAllowedCIDRs k cs) = UpdateKey (SetCIDRsTo (Value cs)) k"
| "call_statement (CallUpdateHash k h i) = UpdateKey (SetHashTo h i) k"
| "call_statement (CallDelete k) = DeleteKey k"
| "call_statement (CallDeleteExpired t) = DeleteExpiredKeys t"
| "call_statement (CallSetExpiresAt k e) = UpdateKey (SetExpiresTo e) k"
| "call_statement (CallAuditKeyEvent k a c old new) = InsertAudit k a c (json_encode old) (json_encode new)"

lemmas pg_call_defs = pg_Create_def pg_SetEnabled_def pg_SetRoles_def pg_SetAllowedCIDRs_def
  pg_UpdateHash_def pg_Delete_def pg_DeleteExpired_def pg_SetExpiresAt_def pg_AuditKeyEvent_def

lemma call_step_statement:
  "call_step (postgres_KeyManager db) clk c s = snd (db_exec db (call_statement c) s)"
  by (cases c; cases "db_exec db (call_statement c) s")
     (auto simp: pg_call_defs coalesceStrings_def Let_def split: sum.split)

context postgres_db
begin

lemma sql_array_Value: "list_all pg_safe xs \<Longrightarrow> sql_array array_in (Value (Some xs)) = Inr (map Some xs)"
  using Value_elements [of xs] array_in_elements by (auto simp: sql_array_def list_all_iff)

lemma sql_array_nil: "sql_array array_in (Value None) = Inl ''null value violates not-null constraint''"
  by (simp add: sql_array_def Value_def)

lemma exec_state:
  "rows (snd (db_exec db q s)) = rows s \<or>
   (\<exists>n. run_exec array_in tstz (clock s) q (rows s) = Inr (n, rows (snd (db_exec db q s))))"
proof (cases "db_exec db q s")
  case (Pair r s')
  then show ?thesis
    using exec_ok [of q s _ s'] exec_fail [of q s _ s'] by (cases r) fastforce+
qed

lemma update_ok:
  assumes "db_exec db (UpdateKey u k) s = (Inr res, s')" and "checkRowsAffected res k = Inr ()"
  shows "\<exists>r r'. sql_assign array_in tstz u r = Inr r' \<and> pg_view (rows s) k = Some (row_record r) \<and>
    pg_view (rows s') = (pg_view (rows s))(k \<mapsto> row_record (r'\<lparr>row_updated := clock s\<rparr>))"
proof -
  obtain n where n: "run_exec array_in tstz (clock s) (UpdateKey u k) (rows s) = Inr (n, rows s')"
      "\<forall>m. res = Inr m \<longrightarrow> m = int n"
    using exec_ok [OF assms(1)] by blast
  obtain m where "res = Inr m" "m \<noteq> 0"
    using assms(2) by (cases res) (auto simp: checkRowsAffected_def split: if_splits)
  with n(2) have "n \<noteq> 0" by simp
  from run_exec_update [OF n(1) this] show ?thesis by blast
qed

text \<open>A statement of the form that six methods share.\<close>

lemma update_call:
  assumes "(case db_exec db (UpdateKey u k) s of
      (Inl e, s') \<Rightarrow> (Inl (f e), s') | (Inr res, s') \<Rightarrow> (checkRowsAffected res k, s')) = (Inr (), s')"
  shows "\<exists>r r'. sql_assign array_in tstz u r = Inr r' \<and> pg_view (rows s) k = Some (row_record r) \<and>
    pg_view (rows s') = (pg_view (rows s))(k \<mapsto> row_record (r'\<lparr>row_updated := clock s\<rparr>))"
proof -
  from assms obtain res where "db_exec db (UpdateKey u k) s = (Inr res, s')" "checkRowsAffected res k = Inr ()"
    by (auto split: prod.splits sum.splits)
  then show ?thesis by (rule update_ok)
qed

lemma GetByID_ok:
  assumes "pg_GetByID db k s = Inr r"
  shows "r = pg_view (rows s) k"
proof -
  from assms obtain ws where q: "db_query db (SelectById k) s = Inr (ws, None)"
      and r: "ws = [] \<and> r = None \<or> (\<exists>w v rec. ws = w # v \<and> scanRow w = Inr rec \<and> r = Some rec)"
    by (auto simp: pg_GetByID_def Let_def split: sum.splits prod.splits list.splits option.splits)
  from query_ok [OF q] have ws: "ws = map wire (filter (\<lambda>r. row_id r = k) (rows s))"
    by simp
  then show ?thesis
    using r scanRow_wire by (auto simp: pg_view_def find_head split: list.splits)
qed

lemma Create_row:
  assumes "pg_Create db clk rec s = (Inr (), s')"
  shows "\<exists>rs cs row. KID rec \<notin> row_id ` set (rows s) \<and> rows s' = rows s @ [row] \<and>
    sql_array array_in (Value (Some (KRoles rec))) = Inr rs \<and>
    sql_array array_in (Value (Some (AllowedCIDRs rec))) = Inr cs \<and>
    row = \<lparr>row_id = KID rec, row_key_hash = KeyHash rec, row_hmac_key_id = HmacKeyID rec,
      row_principal = KPrincipal rec, row_roles = rs, row_cidrs = cs, row_enabled = Enabled rec,
      row_expires = map_option tstz (ExpiresAt rec), row_created = clock s, row_updated = clock s\<rparr>"
proof -
  let ?q = "call_statement (CallCreate rec)"
  obtain res where "db_exec db ?q s = (Inr res, s')"
    using assms by (auto simp: pg_Create_def coalesceStrings_def split: prod.splits sum.splits)
  from exec_ok [OF this] obtain n where
    "run_exec array_in tstz (clock s) ?q (rows s) = Inr (n, rows s')" by blast
  then show ?thesis
    by (auto split: sum.splits if_splits)
qed

lemma Create_ok_frame:
  assumes "pg_Create db clk rec s = (Inr (), s')"
  shows "pg_view (rows s) (KID rec) = None \<and> (\<exists>r. pg_view (rows s') = (pg_view (rows s))(KID rec \<mapsto> r))"
proof -
  obtain row where "KID rec \<notin> row_id ` set (rows s)" "rows s' = rows s @ [row]" "row_id row = KID rec"
    using Create_row [OF assms] by auto
  then show ?thesis
    using pg_view_insert [of row "rows s"] by (auto simp: pg_view_None)
qed

lemma Create_ok_view:
  assumes "pg_Create db clk rec s = (Inr (), s')" and "list_all pg_safe (KRoles rec @ AllowedCIDRs rec)"
    and "pred_option micros (ExpiresAt rec)"
  shows "\<exists>c u. pg_view (rows s') = (pg_view (rows s))(KID rec \<mapsto> rec\<lparr>CreatedAt := c, UpdatedAt := u\<rparr>)"
proof -
  have exp: "map_option tstz (ExpiresAt rec) = ExpiresAt rec"
    using assms(3) tstz_micros by (cases "ExpiresAt rec") (auto simp: micros_def)
  let ?row = "\<lparr>row_id = KID rec, row_key_hash = KeyHash rec, row_hmac_key_id = HmacKeyID rec,
      row_principal = KPrincipal rec, row_roles = map Some (KRoles rec), row_cidrs = map Some (AllowedCIDRs rec),
      row_enabled = Enabled rec, row_expires = ExpiresAt rec, row_created = clock s, row_updated = clock s\<rparr>"
  have new: "KID rec \<notin> row_id ` set (rows s)" "rows s' = rows s @ [?row]"
    using Create_row [OF assms(1)] assms(2) sql_array_Value [of "KRoles rec"] sql_array_Value [of "AllowedCIDRs rec"] exp
    by auto
  have "row_record ?row = rec\<lparr>CreatedAt := clock s, UpdatedAt := clock s\<rparr>"
    using assms(2) by (simp add: row_record_def read_array_safe)
  then show ?thesis
    using pg_view_insert [of ?row "rows s"] new by auto
qed

end

lemma row_record_sets:
  "row_record (r\<lparr>row_enabled := b, row_updated := t\<rparr>) = (row_record r)\<lparr>Enabled := b, UpdatedAt := t\<rparr>"
  "row_record (r\<lparr>row_key_hash := h, row_hmac_key_id := i, row_updated := t\<rparr>) =
     (row_record r)\<lparr>KeyHash := h, HmacKeyID := i, UpdatedAt := t\<rparr>"
  "row_record (r\<lparr>row_expires := e, row_updated := t\<rparr>) = (row_record r)\<lparr>ExpiresAt := e, UpdatedAt := t\<rparr>"
  "row_record (r\<lparr>row_roles := xs, row_updated := t\<rparr>) = (row_record r)\<lparr>KRoles := read_array xs, UpdatedAt := t\<rparr>"
  "row_record (r\<lparr>row_cidrs := xs, row_updated := t\<rparr>) = (row_record r)\<lparr>AllowedCIDRs := read_array xs, UpdatedAt := t\<rparr>"
  by (simp_all add: row_record_def)

context postgres_db
begin

lemma SetEnabled_ok_view:
  assumes "pg_SetEnabled db clk k b s = (Inr (), s')"
  shows "\<exists>r u. pg_view (rows s) k = Some r \<and> pg_view (rows s') = (pg_view (rows s))(k \<mapsto> r\<lparr>Enabled := b, UpdatedAt := u\<rparr>)"
  using update_call [OF assms [unfolded pg_SetEnabled_def]] by (auto simp: row_record_sets)

lemma SetRoles_ok_view:
  assumes "pg_SetRoles db clk k rs s = (Inr (), s')" and "list_all pg_safe (nilSlice rs)"
  shows "\<exists>r u. pg_view (rows s) k = Some r \<and>
    pg_view (rows s') = (pg_view (rows s))(k \<mapsto> r\<lparr>KRoles := nilSlice rs, UpdatedAt := u\<rparr>)"
  using update_call [OF assms(1) [unfolded pg_SetRoles_def]] assms(2)
  by (cases rs) (auto simp: row_record_sets sql_array_nil sql_array_Value read_array_safe)

lemma SetAllowedCIDRs_ok_view:
  assumes "pg_SetAllowedCIDRs db clk k cs s = (Inr (), s')" and "list_all pg_safe (nilSlice cs)"
  shows "\<exists>r u. pg_view (rows s) k = Some r \<and>
    pg_view (rows s') = (pg_view (rows s))(k \<mapsto> r\<lparr>AllowedCIDRs := nilSlice cs, UpdatedAt := u\<rparr>)"
  using update_call [OF assms(1) [unfolded pg_SetAllowedCIDRs_def]] assms(2)
  by (cases cs) (auto simp: row_record_sets sql_array_nil sql_array_Value read_array_safe)

lemma UpdateHash_ok_view:
  assumes "pg_UpdateHash db clk k h i s = (Inr (), s')"
  shows "\<exists>r u. pg_view (rows s) k = Some r \<and>
    pg_view (rows s') = (pg_view (rows s))(k \<mapsto> r\<lparr>KeyHash := h, HmacKeyID := i, UpdatedAt := u\<rparr>)"
  using update_call [OF assms [unfolded pg_UpdateHash_def]] by (auto simp: row_record_sets)

lemma SetExpiresAt_ok_view:
  assumes "pg_SetExpiresAt db clk k e s = (Inr (), s')" and "pred_option micros e"
  shows "\<exists>r u. pg_view (rows s) k = Some r \<and>
    pg_view (rows s') = (pg_view (rows s))(k \<mapsto> r\<lparr>ExpiresAt := e, UpdatedAt := u\<rparr>)"
proof -
  have "map_option tstz e = e"
    using assms(2) tstz_micros by (cases e) (auto simp: micros_def)
  then show ?thesis
    using update_call [OF assms(1) [unfolded pg_SetExpiresAt_def]] by (auto simp: row_record_sets)
qed

lemma Delete_ok_view:
  assumes "pg_Delete db k s = (Inr (), s')" and "pg_invar (rows s)"
  shows "pg_view (rows s) k \<noteq> None \<and> pg_view (rows s') = (pg_view (rows s))(k := None)"
proof -
  obtain res where res: "db_exec db (DeleteKey k) s = (Inr res, s')" "checkRowsAffected res k = Inr ()"
    using assms(1) by (auto simp: pg_Delete_def split: prod.splits sum.splits)
  have "rows s' = filter (\<lambda>r. row_id r \<noteq> k) (rows s)" "filter (\<lambda>r. row_id r = k) (rows s) \<noteq> []"
    using exec_ok [OF res(1)] res(2) by (auto simp: checkRowsAffected_def split: sum.splits)
  then show ?thesis
    using pg_view_delete [OF assms(2), of k] by (auto simp: pg_view_None filter_empty_conv)
qed

lemma DeleteExpired_ok_view:
  assumes "pg_DeleteExpired db t s = (Inr n, s')" and "pg_invar (rows s)" and "micros t"
  shows "n = int (card {k. expiredKey t (pg_view (rows s)) k}) \<and>
    pg_view (rows s') = (\<lambda>k. if expiredKey t (pg_view (rows s)) k then None else pg_view (rows s) k)"
proof -
  have res: "db_exec db (DeleteExpiredKeys t) s = (Inr (Inr n), s')"
    using assms(1) by (auto simp: pg_DeleteExpired_def split: prod.splits sum.splits)
  have t: "tstz t = t"
    using assms(3) tstz_micros by (simp add: micros_def)
  let ?x = "\<lambda>r. expiredBefore t (row_record r)"
  have x: "(\<lambda>r. case row_expires r of None \<Rightarrow> False | Some e \<Rightarrow> e < tstz t) = ?x"
    by (simp add: fun_eq_iff expiredBefore_def row_record_def t split: option.split)
  have rows': "n = int (length (filter ?x (rows s)))" "rows s' = filter (\<lambda>r. \<not> ?x r) (rows s)"
    using exec_ok [OF res] by (simp_all add: x [unfolded fun_eq_iff, rule_format])
  have key: "expiredKey t (pg_view (rows s)) k \<longleftrightarrow> (\<exists>r. pg_view (rows s) k = Some r \<and> expiredBefore t r)" for k
    by (simp add: expiredKey_def split: option.split)
  have "n = int (card {k. expiredKey t (pg_view (rows s)) k})"
    using card_view [OF assms(2), of "expiredBefore t"] by (simp add: rows'(1) key)
  moreover have "pg_view (rows s') k = (if expiredKey t (pg_view (rows s)) k then None else pg_view (rows s) k)" for k
    using pg_view_filter [OF assms(2), of "\<lambda>r. \<not> ?x r" k]
    by (cases "find (\<lambda>r. row_id r = k) (rows s)") (simp_all add: rows'(2) expiredKey_def pg_view_def)
  ultimately show ?thesis by auto
qed

lemma AuditKeyEvent_view_same: "rows (snd (pg_AuditKeyEvent db k a chg old new s)) = rows s"
  using exec_state [of "InsertAudit k a chg (json_encode old) (json_encode new)" s]
    call_step_statement [of db undefined "CallAuditKeyEvent k a chg old new" s] by auto

end

text \<open>The PostgreSQL store provides the contract of the in-memory store, over every such database.\<close>

sublocale postgres_db \<subseteq> key_manager "postgres_KeyManager db" "\<lambda>s. pg_view (rows s)"
  "\<lambda>s. pg_invar (rows s)" pg_safe micros
proof (unfold_locales, goal_cases)
  case (1 s k r)
  then show ?case using GetByID_ok by simp
next
  case (2 s clk c)
  then show ?case
    using exec_state [of "call_statement c" s] run_exec_invar by (auto simp: call_step_statement)
next
  case (3 s clk rec s')
  then show ?case using Create_ok_frame by simp
next
  case (4 s rec clk s')
  then show ?case using Create_ok_view by simp
next
  case (5 s clk k b s')
  then show ?case using SetEnabled_ok_view by simp
next
  case (6 s rs clk k s')
  then show ?case using SetRoles_ok_view by simp
next
  case (7 s cs clk k s')
  then show ?case using SetAllowedCIDRs_ok_view by simp
next
  case (8 s clk k h i s')
  then show ?case using UpdateHash_ok_view by simp
next
  case (9 s e clk k s')
  then show ?case using SetExpiresAt_ok_view by simp
next
  case (10 s k s')
  then show ?case using Delete_ok_view by simp
next
  case (11 s t n s')
  then show ?case using DeleteExpired_ok_view by simp
next
  case (12 s k a chg old new)
  then show ?case using AuditKeyEvent_view_same by simp
qed


text \<open>The arguments of the filtered query end up at the numbers its conditions name.\<close>

lemma sql_param_simps [simp]:
  "sql_param (a # args) (Suc 0) = Some a"
  "sql_param (a # args) (Suc (Suc n)) = sql_param args (Suc n)"
  by (simp_all add: sql_param_def)

lemma filteredQuery_selects:
  assumes "\<forall>r \<in> set rows. \<exists>xs. row_roles r = map Some xs \<and> list_all pg_safe xs"
    and "selects (filteredQuery limit offset prin role) rows rs"
  shows "\<exists>all. mset all = mset (filter (\<lambda>r. matchesFilter prin role (row_record r)) rows) \<and>
    sorted (map row_created all) \<and> rs = take (nat limit) (drop (nat offset) all)"
proof -
  have roles: "list_ex (\<lambda>x. case x of None \<Rightarrow> False | Some y \<Rightarrow> role = y) (row_roles r) \<longleftrightarrow> role \<in> set (KRoles (row_record r))"
    if "r \<in> set rows" for r
    using assms(1) that by (fastforce simp: row_record_def read_array_safe list_ex_iff)
  have "\<exists>conds page args. filteredQuery limit offset prin role = SelectKeys conds (Some page) args \<and>
      sql_param args (fst page) = Some (ArgInt limit) \<and> sql_param args (snd page) = Some (ArgInt offset) \<and>
      (\<forall>r \<in> set rows. list_all (sql_holds args r) conds \<longleftrightarrow> matchesFilter prin role (row_record r))"
    by (cases "prin = []"; cases "role = []")
       (auto simp: filteredQuery_def matchesFilter_def roles row_record_def [THEN arg_cong, of KPrincipal])
  then obtain conds l o' args where q: "filteredQuery limit offset prin role = SelectKeys conds (Some (l, o')) args"
      "sql_param args l = Some (ArgInt limit)" "sql_param args o' = Some (ArgInt offset)"
      "\<forall>r \<in> set rows. list_all (sql_holds args r) conds \<longleftrightarrow> matchesFilter prin role (row_record r)"
    by auto
  have "filter (\<lambda>r. list_all (sql_holds args r) conds) rows = filter (\<lambda>r. matchesFilter prin role (row_record r)) rows"
    using q(4) by (intro filter_cong) auto
  then show ?thesis
    using assms(2) q(1-3) by auto
qed

lemma mset_map_filter: "mset xs = mset ys \<Longrightarrow> mset (List.map_filter f xs) = mset (List.map_filter f ys)"
  by (simp add: List.map_filter_def)

lemma map_filter_view:
  assumes "pg_invar rows" and "enumerates iter \<lparr>keys = pg_view rows\<rparr>"
  shows "mset (List.map_filter (pg_view rows) iter) = mset (map row_record rows)"
proof -
  have view: "pg_view rows (row_id r) = Some (row_record r)" if "r \<in> set rows" for r
    using find_row_iff [OF assms(1), of "row_id r" r] that by (simp add: pg_view_def)
  have "set iter = set (map row_id rows)"
    using assms(2) by (auto simp: enumerates_def pg_view_None [of rows] dom_def)
  then have "mset iter = mset (map row_id rows)"
    using assms by (simp only: set_eq_iff_mset_eq_distinct [symmetric] pg_invar_def enumerates_def)
  then have "mset (List.map_filter (pg_view rows) iter) = mset (List.map_filter (pg_view rows) (map row_id rows))"
    by (rule mset_map_filter)
  moreover have "List.map_filter (pg_view rows) (map row_id rows) = map row_record rows"
    using view unfolding List.map_filter_def by simp
  ultimately show ?thesis by simp
qed

lemma distinct_map_sub:
  assumes "distinct (map f xs)" and "mset ys = mset (filter P xs)"
  shows "distinct (map f ys)"
proof -
  have "mset (map f ys) = mset (map f (filter P xs))"
    using assms(2) by simp
  moreover have "distinct (map f (filter P xs))"
    using assms(1) by (rule distinct_map_filter)
  ultimately show ?thesis
    using mset_eq_imp_distinct_iff by blast
qed

lemma mset_short: "mset ys = mset xs \<Longrightarrow> length ys \<le> 1 \<Longrightarrow> ys = xs"
  by (cases ys; cases "tl ys") auto

lemma sort_key_unique:
  assumes "mset xs = mset ys" and "sorted (map f ys)" and "distinct (map f ys)"
  shows "sort_key f xs = ys"
proof (rule properties_for_sort_key)
  show "mset ys = mset xs" using assms(1) by simp
  show "sorted (map f ys)" by (rule assms(2))
  fix k
  assume "k \<in> set ys"
  have "mset (filter (\<lambda>x. f k = f x) ys) = mset (filter (\<lambda>x. f k = f x) xs)"
    using assms(1) by simp
  moreover have "length (filter (\<lambda>x. f k = f x) ys) \<le> 1"
    using assms(3) distinct_map_filter [of f ys "\<lambda>x. f k = f x"]
    by (cases "filter (\<lambda>x. f k = f x) ys"; cases "tl (filter (\<lambda>x. f k = f x) ys)")
       (auto simp: filter_eq_Cons_iff)
  ultimately show "filter (\<lambda>x. f k = f x) ys = filter (\<lambda>x. f k = f x) xs"
    by (rule mset_short)
qed

context postgres_db
begin

lemma provides: "key_manager (postgres_KeyManager db) (\<lambda>s. pg_view (rows s)) (\<lambda>s. pg_invar (rows s)) pg_safe micros"
  by unfold_locales

lemma ListFiltered_rows:
  assumes "\<forall>r \<in> set (rows s). \<exists>xs. row_roles r = map Some xs \<and> list_all pg_safe xs"
    and "pg_ListFiltered db limit offset prin role s = Inr recs"
  shows "\<exists>all. mset all = mset (filter (\<lambda>r. matchesFilter prin role (row_record r)) (rows s)) \<and>
    sorted (map row_created all) \<and> recs = map row_record (take (nat limit) (drop (nat offset) all))"
proof -
  obtain wires where q: "db_query db (filteredQuery limit offset prin role) s = Inr (wires, None)"
      and recs: "scanRows wires [] = Inr recs"
    using assms(2) by (auto simp: pg_ListFiltered_def collectRows_def split: sum.splits option.splits)
  obtain rs where rs: "wires = map wire rs" "selects (filteredQuery limit offset prin role) (rows s) rs"
    using query_ok [OF q] by blast
  have "recs = map row_record rs"
    using scanRows_wire recs rs(1) by fastforce
  then show ?thesis
    using filteredQuery_selects [OF assms(1) rs(2)] by auto
qed

end


section \<open>A reference database\<close>

text \<open>
  The documented behaviour, executed: the table, and a clock that advances with every statement.
  The laws hold of it, so they can hold together; the concrete examples run on it.
\<close>

definition ref_array_in :: "string \<Rightarrow> string option list option" where
  "ref_array_in lit = (case scanLiteral lit of Inr (Some xs) \<Rightarrow> Some (map Some xs) | _ \<Rightarrow> None)"

definition ref_tstz :: "gotime \<Rightarrow> gotime" where
  "ref_tstz t = t - t mod 1000"

definition ref_exec :: "sql_exec \<Rightarrow> key_row list \<times> gotime \<Rightarrow> (string + (string + int)) \<times> (key_row list \<times> gotime)" where
  "ref_exec q s =
     (case run_exec ref_array_in ref_tstz (snd s) q (fst s) of
        Inl e \<Rightarrow> (Inl e, s)
      | Inr (n, rows) \<Rightarrow> (Inr (Inr (int n)), (rows, snd s + 1000)))"

fun ref_query :: "sql_query \<Rightarrow> key_row list \<times> gotime \<Rightarrow> string + sql_row list \<times> string option" where
  "ref_query (SelectById k) s = Inr (map wire (filter (\<lambda>r. row_id r = k) (fst s)), None)"
| "ref_query (SelectKeys conds page args) s =
     (let all = sort_key row_created (filter (\<lambda>r. list_all (sql_holds args r) conds) (fst s))
      in case page of
           None \<Rightarrow> Inr (map wire all, None)
         | Some (l, o') \<Rightarrow>
             (case (sql_param args l, sql_param args o') of
                (Some (ArgInt limit), Some (ArgInt offset)) \<Rightarrow>
                  (if limit < 0 then Inl ''LIMIT must not be negative''
                   else if offset < 0 then Inl ''OFFSET must not be negative''
                   else Inr (map wire (take (nat limit) (drop (nat offset) all)), None))
              | _ \<Rightarrow> Inl ''invalid parameter''))"

definition ref_db :: "(key_row list \<times> gotime) Database" where
  "ref_db = \<lparr>db_exec = ref_exec, db_query = ref_query\<rparr>"

lemma ref_query_page:
  assumes "ref_query (SelectKeys conds (Some (l, o')) args) s = Inr (ws, None)"
  shows "\<exists>limit offset. sql_param args l = Some (ArgInt limit) \<and> sql_param args o' = Some (ArgInt offset) \<and>
    0 \<le> limit \<and> 0 \<le> offset \<and> ws = map wire (take (nat limit) (drop (nat offset)
      (sort_key row_created (filter (\<lambda>r. list_all (sql_holds args r) conds) (fst s)))))"
  using assms unfolding ref_query.simps Let_def
  by (simp split: option.splits sql_arg.splits if_splits)

lemma ref_query_selects:
  assumes "ref_query q s = Inr (ws, None)"
  shows "\<exists>rs. ws = map wire rs \<and> selects q (fst s) rs"
proof (cases q)
  case (SelectById k)
  then show ?thesis
    using assms by (intro exI [of _ "filter (\<lambda>r. row_id r = k) (fst s)"]) simp
next
  case (SelectKeys conds page args)
  let ?all = "sort_key row_created (filter (\<lambda>r. list_all (sql_holds args r) conds) (fst s))"
  show ?thesis
  proof (cases page)
    case None
    then show ?thesis
      using assms SelectKeys by (intro exI [of _ ?all]) (simp add: Let_def)
  next
    case (Some p)
    obtain l o' where p: "p = (l, o')" by (cases p)
    obtain limit offset where lo: "sql_param args l = Some (ArgInt limit)" "sql_param args o' = Some (ArgInt offset)"
        "0 \<le> limit" "0 \<le> offset" "ws = map wire (take (nat limit) (drop (nat offset) ?all))"
      using ref_query_page [of conds l o' args s ws] assms unfolding SelectKeys Some p by blast
    then show ?thesis
      unfolding SelectKeys Some p
      by (intro exI [of _ "take (nat limit) (drop (nat offset) ?all)"] conjI) (simp, auto intro: exI [of _ ?all])
  qed
qed

interpretation ref: postgres_db ref_db fst ref_array_in ref_tstz snd
proof (unfold_locales, goal_cases)
  case (1 xs ws)
  then show ?case by (simp add: ref_array_in_def scan_elements)
next
  case (2 t)
  then show ?case by (simp add: ref_tstz_def)
next
  case (3 q s res s')
  then show ?case by (auto simp: ref_db_def ref_exec_def split: sum.splits)
next
  case (4 q s e s')
  then show ?case by (auto simp: ref_db_def ref_exec_def split: sum.splits)
next
  case (5 sel s wires)
  then show ?case using ref_query_selects by (simp add: ref_db_def)
qed


section \<open>Properties\<close>

text \<open>
  C12: The PostgreSQL store implements the contract of a key manager over every database that
  behaves as documented: on the map from key IDs to records that the table stands for, a
  successful lookup returns the entry, creation fails on an existing ID and otherwise adds exactly
  the record, each setter changes exactly the named fields of exactly the named key, deletion
  removes exactly it, the expiry sweep removes exactly the expired keys and counts them, and audit
  events leave the table alone; roles and networks survive the array text format (for names it can
  represent), and one row per key ID is an invariant, even across failed statements.
\<close>

theorem postgres_is_key_manager:
  assumes "postgres_db db rows array_in tstz clock"
  shows "key_manager (postgres_KeyManager db) (\<lambda>s. pg_view (rows s)) (\<lambda>s. pg_invar (rows s)) pg_safe micros"
  using assms by (rule postgres_db.provides)

theorem postgres_is_key_manager_witness:
  "key_manager (postgres_KeyManager ref_db) (\<lambda>s. pg_view (fst s)) (\<lambda>s. pg_invar (fst s)) pg_safe micros"
  using ref.postgres_db_axioms by (rule postgres_is_key_manager)

text \<open>
  C13: Listing is the same in both stores: if no two keys were created at the same instant, a
  successful \<^verbatim>\<open>ListFiltered\<close> of the PostgreSQL store (whose numbered arguments depend on which filters
  are given) returns exactly the page that the in-memory store returns for the same keys, whatever
  order that one's map is iterated in.
\<close>

theorem postgres_ListFiltered_memory:
  assumes "postgres_db db rows array_in tstz clock"
    and "pg_invar (rows s)" and "distinct (map row_created (rows s))"
    and "\<forall>r \<in> set (rows s). \<exists>xs. row_roles r = map Some xs \<and> list_all pg_safe xs"
    and "enumerates iter \<lparr>keys = pg_view (rows s)\<rparr>"
    and "pg_ListFiltered db limit offset prin role s = Inr recs"
  shows "ListFiltered iter limit offset prin role \<lparr>keys = pg_view (rows s)\<rparr> = Inr recs"
proof -
  obtain all where all: "mset all = mset (filter (\<lambda>r. matchesFilter prin role (row_record r)) (rows s))"
      "sorted (map row_created all)"
      "recs = map row_record (take (nat limit) (drop (nat offset) all))"
    using postgres_db.ListFiltered_rows [OF assms(1,4,6)] by blast
  let ?recs = "filter (matchesFilter prin role) (List.map_filter (pg_view (rows s)) iter)"
  have "mset (List.map_filter (pg_view (rows s)) iter) = mset (map row_record (rows s))"
    using assms(2,5) by (rule map_filter_view)
  then have "mset ?recs = mset (filter (matchesFilter prin role) (map row_record (rows s)))"
    by (simp only: mset_filter)
  also have "\<dots> = mset (map row_record all)"
    using all(1) by (simp only: filter_map mset_map comp_def)
  finally have eq: "mset ?recs = mset (map row_record all)" .
  have "distinct (map row_created all)"
    using assms(3) all(1) by (rule distinct_map_sub)
  then have "sort_key CreatedAt ?recs = map row_record all"
    using all(2) eq by (intro sort_key_unique) (simp_all add: comp_def row_record_def)
  then show ?thesis
    by (simp add: ListFiltered_take_drop all(3) take_map drop_map)
qed

abbreviation sampleRow :: "string \<Rightarrow> string \<Rightarrow> gotime \<Rightarrow> key_row" where
  "sampleRow k prin t \<equiv>
     \<lparr>row_id = k, row_key_hash = ''00'', row_hmac_key_id = ''h1'', row_principal = prin,
      row_roles = [Some ''a,b''], row_cidrs = [], row_enabled = True, row_expires = None,
      row_created = t, row_updated = t\<rparr>"

theorem postgres_ListFiltered_memory_witness:
  "ListFiltered [''k'', ''l''] 1 1 ''bob'' ''a,b''
     \<lparr>keys = pg_view (fst ([sampleRow ''k'' ''bob'' 2000, sampleRow ''l'' ''bob'' 1000], 5000 :: gotime))\<rparr> =
   Inr [row_record (sampleRow ''k'' ''bob'' 2000)]"
proof (rule postgres_ListFiltered_memory [OF ref.postgres_db_axioms])
  let ?rows = "[sampleRow ''k'' ''bob'' 2000, sampleRow ''l'' ''bob'' 1000]"
  have "pg_safe ''a,b''" by code_simp
  then show "\<forall>r \<in> set (fst (?rows, 5000 :: gotime)). \<exists>xs. row_roles r = map Some xs \<and> list_all pg_safe xs"
    by (auto intro: exI [of _ "[''a,b'']"])
  show "pg_invar (fst (?rows, 5000 :: gotime))" "distinct (map row_created (fst (?rows, 5000 :: gotime)))"
    by (simp_all add: pg_invar_def)
  show "enumerates [''k'', ''l''] \<lparr>keys = pg_view (fst (?rows, 5000 :: gotime))\<rparr>"
    by (auto simp: enumerates_def pg_view_def dom_def split: if_splits)
  show "pg_ListFiltered ref_db 1 1 ''bob'' ''a,b'' (?rows, 5000) = Inr [row_record (sampleRow ''k'' ''bob'' 2000)]"
    by code_simp
qed

text \<open>
  Finding: \<^verbatim>\<open>SetRoles\<close> and \<^verbatim>\<open>SetAllowedCIDRs\<close> do not apply \<^verbatim>\<open>coalesceStrings\<close>, so a nil slice is sent
  as NULL, which the \<^verbatim>\<open>NOT NULL\<close> column refuses: the call fails for every key that exists, where the
  in-memory store clears the list.
\<close>

lemma nil_slice_refused:
  assumes "postgres_db db rows array_in tstz clock"
  shows "pg_SetRoles db clk k None s \<noteq> (Inr (), s')" and "pg_SetAllowedCIDRs db clk k None s \<noteq> (Inr (), s')"
proof -
  show "pg_SetRoles db clk k None s \<noteq> (Inr (), s')"
  proof
    assume a: "pg_SetRoles db clk k None s = (Inr (), s')"
    show False
      using postgres_db.update_call [OF assms a [unfolded pg_SetRoles_def]] postgres_db.sql_array_nil [OF assms] by auto
  qed
  show "pg_SetAllowedCIDRs db clk k None s \<noteq> (Inr (), s')"
  proof
    assume a: "pg_SetAllowedCIDRs db clk k None s = (Inr (), s')"
    show False
      using postgres_db.update_call [OF assms a [unfolded pg_SetAllowedCIDRs_def]] postgres_db.sql_array_nil [OF assms] by auto
  qed
qed

lemma nil_slice_example:
  "fst (pg_SetAllowedCIDRs ref_db (\<lambda>_. 0) ''k'' None ([sampleRow ''k'' ''bob'' 2000], 5000)) \<noteq> Inr () \<and>
   fst (SetAllowedCIDRs (\<lambda>_. 0) ''k'' None \<lparr>keys = [''k'' \<mapsto> sampleKey ''k'' ''bob'' None]\<rparr>) = Inr ()"
  by code_simp

text \<open>
  Finding: a role called \<^verbatim>\<open>null\<close> is written as \<^verbatim>\<open>{null}\<close>, which the server reads as an array with a
  NULL element.  From then on the key cannot be read, and neither can the list of all keys.
\<close>

lemma Scan_null_element: "Scan (SrcString (array_out [None])) = Inl NullError"
  by code_simp

lemma scanRows_error:
  assumes "w \<in> set ws" and "scanRow w = Inl e"
  shows "scanRows ws acc \<noteq> Inr recs"
  using assms by (induction ws arbitrary: acc) (auto split: sum.split)

lemma null_role_unreadable:
  assumes "postgres_db db rows array_in tstz clock" and "array_in ''{null}'' = Some [None]"
    and "pg_Create db clk rec s = (Inr (), s')" and "KRoles rec = [''null'']"
  shows "pg_GetByID db (KID rec) s' \<noteq> Inr r" and "pg_List db s' \<noteq> Inr recs"
proof -
  have "sql_array array_in (Value (Some (KRoles rec))) = Inr [None]"
  proof -
    have "Value (Some [''null'']) = Some ''{null}''" by code_simp
    then show ?thesis using assms(2,4) by (simp add: sql_array_def)
  qed
  then obtain row where row: "KID rec \<notin> row_id ` set (rows s)" "rows s' = rows s @ [row]"
      "row_id row = KID rec" "row_roles row = [None]"
    using postgres_db.Create_row [OF assms(1,3)] by auto
  have bad: "scanRow (wire row) = Inl NullError"
    using Scan_null_element by (simp add: scanRow_def wire_def row(4))
  show "pg_GetByID db (KID rec) s' \<noteq> Inr r"
  proof
    assume "pg_GetByID db (KID rec) s' = Inr r"
    then obtain wires where q: "db_query db (SelectById (KID rec)) s' = Inr (wires, None)"
        and w: "wires = [] \<or> (\<exists>w v rec. wires = w # v \<and> scanRow w = Inr rec)"
      by (auto simp: pg_GetByID_def Let_def split: sum.splits prod.splits list.splits option.splits)
    have "filter (\<lambda>r. row_id r = KID rec) (rows s) = []"
      using row(1) by (auto simp: filter_empty_conv intro: rev_image_eqI)
    then have "wires = [wire row]"
      using postgres_db.query_ok [OF assms(1) q] row by simp
    then show False using w bad by simp
  qed
  show "pg_List db s' \<noteq> Inr recs"
  proof
    assume "pg_List db s' = Inr recs"
    then obtain wires where q: "db_query db (SelectKeys [] None []) s' = Inr (wires, None)"
        and w: "scanRows wires [] = Inr recs"
      by (auto simp: pg_List_def collectRows_def split: sum.splits option.splits)
    obtain rs where "wires = map wire rs" "mset rs = mset (rows s')"
      using postgres_db.query_ok [OF assms(1) q] by auto
    then have "wire row \<in> set wires"
      using row(2) mset_eq_setD [of rs "rows s'"] by simp
    then show False using scanRows_error bad w by blast
  qed
qed

end
