(* ===== verification/Go_Time.thy ===== *)
theory Go_Time
  imports Go_Net "HOL-Library.Monad_Syntax"
begin

text \<open>
  \<^verbatim>\<open>time.Parse(time.RFC3339, s)\<close>, as the admin API uses it for expiry times.

  An instant is a number of nanoseconds since the zero time, the first of January of year 1 in UTC.
  Go first tries a strict parser and falls back to the general one, which accepts a superset with
  the same values: an hour of one digit, a decimal comma, an offset of 24 hours or 60 minutes.
\<close>

section \<open>The calendar\<close>

definition isLeap :: "int \<Rightarrow> bool" where
  "isLeap y \<longleftrightarrow> y mod 4 = 0 \<and> (y mod 100 \<noteq> 0 \<or> y mod 400 = 0)"

definition monthDays :: "int list" where
  "monthDays = [31, 28, 31, 30, 31, 30, 31, 31, 30, 31, 30, 31]"

definition daysIn :: "int \<Rightarrow> int \<Rightarrow> int" where
  "daysIn m y = (if m = 2 \<and> isLeap y then 29 else monthDays ! nat (m - 1))"

text \<open>The days before a date, counted from the first of January of year 1.\<close>

definition daysBeforeYear :: "int \<Rightarrow> int" where
  "daysBeforeYear y = 365 * (y - 1) + (y - 1) div 4 - (y - 1) div 100 + (y - 1) div 400"

definition daysBeforeMonth :: "int \<Rightarrow> int \<Rightarrow> int" where
  "daysBeforeMonth m y = sum_list (map (\<lambda>i. daysIn (int i + 1) y) [0..<nat (m - 1)])"

definition daysBefore :: "int \<Rightarrow> int \<Rightarrow> int \<Rightarrow> int" where
  "daysBefore y m d = daysBeforeYear y + daysBeforeMonth m y + (d - 1)"

definition time_Date :: "int \<Rightarrow> int \<Rightarrow> int \<Rightarrow> int \<Rightarrow> int \<Rightarrow> int \<Rightarrow> int \<Rightarrow> gotime" where
  "time_Date y m d hh mm ss ns = (((daysBefore y m d * 24 + hh) * 60 + mm) * 60 + ss) * 1000000000 + ns"


section \<open>Parsing\<close>

definition getnum :: "bool \<Rightarrow> string \<Rightarrow> (int \<times> string) option" where
  "getnum fixed s =
     (case s of
        [] \<Rightarrow> None
      | c # r \<Rightarrow>
          (if \<not> isDigit c then None
           else (case r of
                   d # r' \<Rightarrow>
                     (if isDigit d then Some (digitVal c * 10 + digitVal d, r')
                      else if fixed then None else Some (digitVal c, r))
                 | [] \<Rightarrow> if fixed then None else Some (digitVal c, r))))"

definition getYear :: "string \<Rightarrow> (int \<times> string) option" where
  "getYear s =
     (if length s < 4 \<or> \<not> list_all isDigit (take 4 s) then None
      else Some (foldl (\<lambda>n c. n * 10 + digitVal c) 0 (take 4 s), drop 4 s))"

definition expectByte :: "char \<Rightarrow> string \<Rightarrow> string option" where
  "expectByte c s = (case s of x # r \<Rightarrow> if x = c then Some r else None | [] \<Rightarrow> None)"

definition ensureOpt :: "bool \<Rightarrow> unit option" where
  "ensureOpt b = (if b then Some () else None)"

text \<open>A fraction of a second: nine digits count, more are read and dropped.\<close>

definition getFraction :: "string \<Rightarrow> int \<times> string" where
  "getFraction s =
     (case s of
        p # c # r \<Rightarrow>
          (if (p = CHR ''.'' \<or> p = CHR '','') \<and> isDigit c then
             (let ds = takeWhile isDigit (c # r); used = take 9 ds
              in (foldl (\<lambda>n c. n * 10 + digitVal c) 0 used * 10 ^ (9 - length used), dropWhile isDigit (c # r)))
           else (0, s))
      | _ \<Rightarrow> (0, s))"

text \<open>The offset from UTC in seconds; nothing may follow.\<close>

definition getZone :: "string \<Rightarrow> int option" where
  "getZone s =
     (if s = ''Z'' then Some 0
      else (case s of
              [sg, h1, h2, c, m1, m2] \<Rightarrow>
                do {
                  ensureOpt (c = CHR '':'' \<and> (sg = CHR ''+'' \<or> sg = CHR ''-''));
                  (hr, _) \<leftarrow> getnum True [h1, h2];
                  (mm, _) \<leftarrow> getnum True [m1, m2];
                  ensureOpt (hr \<le> 24 \<and> mm \<le> 60);
                  Some ((if sg = CHR ''-'' then -1 else 1) * ((hr * 60 + mm) * 60))
                }
            | _ \<Rightarrow> None))"

definition time_Parse_RFC3339 :: "string \<Rightarrow> gotime option" where
  "time_Parse_RFC3339 s =
     do {
       (year, s) \<leftarrow> getYear s;
       s \<leftarrow> expectByte CHR ''-'' s;
       (month, s) \<leftarrow> getnum True s;
       ensureOpt (1 \<le> month \<and> month \<le> 12);
       s \<leftarrow> expectByte CHR ''-'' s;
       (day, s) \<leftarrow> getnum True s;
       s \<leftarrow> expectByte CHR ''T'' s;
       (hour, s) \<leftarrow> getnum False s;
       ensureOpt (hour < 24);
       s \<leftarrow> expectByte CHR '':'' s;
       (minute, s) \<leftarrow> getnum True s;
       ensureOpt (minute < 60);
       s \<leftarrow> expectByte CHR '':'' s;
       (sec, s) \<leftarrow> getnum True s;
       ensureOpt (sec < 60);
       (let (nsec, s) = getFraction s
        in do {
             offset \<leftarrow> getZone s;
             ensureOpt (1 \<le> day \<and> day \<le> daysIn month year);
             Some (time_Date year month day hour minute sec nsec - offset * 1000000000)
           })
     }"

text \<open>The calendar has no gap: a year begins where the one before it ends.\<close>

lemma div_pred:
  fixes n :: int
  assumes "0 < n"
  shows "y div n = (y - 1) div n + (if y mod n = 0 then 1 else 0)"
proof (cases "y mod n = 0")
  case True
  then have "y - 1 = n * (y div n - 1) + (n - 1)"
    using mult_div_mod_eq [of n y] by (simp add: algebra_simps)
  moreover have "0 \<le> n - 1" "n - 1 < n"
    using assms by simp_all
  ultimately have "(y - 1) div n = y div n - 1"
    by (rule int_div_pos_eq)
  with True show ?thesis by simp
next
  case False
  have "y - 1 = n * (y div n) + (y mod n - 1)"
    using mult_div_mod_eq [of n y] by (simp add: algebra_simps)
  moreover have "0 \<le> y mod n - 1" "y mod n - 1 < n"
    using assms False pos_mod_sign [of n y] pos_mod_bound [of n y] by linarith+
  ultimately have "(y - 1) div n = y div n"
    by (rule int_div_pos_eq)
  with False show ?thesis by simp
qed

lemma daysBeforeYear_Suc: "daysBeforeYear (y + 1) = daysBeforeYear y + (if isLeap y then 366 else 365)"
proof -
  have 4: "y mod 4 = 0" if "y mod 100 = 0"
  proof -
    have "(100 :: int) dvd y" using that by (simp only: mod_eq_0_iff_dvd)
    then have "(4 :: int) dvd y" by (rule dvd_trans [rotated]) simp
    then show ?thesis by (simp only: mod_eq_0_iff_dvd)
  qed
  have 100: "y mod 100 = 0" if "y mod 400 = 0"
  proof -
    have "(400 :: int) dvd y" using that by (simp only: mod_eq_0_iff_dvd)
    then have "(100 :: int) dvd y" by (rule dvd_trans [rotated]) simp
    then show ?thesis by (simp only: mod_eq_0_iff_dvd)
  qed
  have "daysBeforeYear (y + 1) = 365 * y + y div 4 - y div 100 + y div 400"
    by (simp only: daysBeforeYear_def add_diff_cancel_right')
  also have "\<dots> = daysBeforeYear y + (365 + (if y mod 4 = 0 then 1 else 0) - (if y mod 100 = 0 then 1 else 0) +
      (if y mod 400 = 0 then 1 else 0))"
    by (simp only: daysBeforeYear_def div_pred [of 4 y, simplified] div_pred [of 100 y, simplified]
        div_pred [of 400 y, simplified] algebra_simps)
  also have "365 + (if y mod 4 = 0 then 1 else 0) - (if y mod 100 = 0 then 1 else 0) +
      (if y mod 400 = 0 then 1 else 0) = (if isLeap y then 366 else 365 :: int)"
    using 4 100 by (cases "y mod 4 = 0"; cases "y mod 100 = 0"; cases "y mod 400 = 0") (simp_all add: isLeap_def)
  finally show ?thesis .
qed

end
