(* ===== verification/Json_Decode.thy ===== *)
theory Json_Decode
  imports Json
begin

text \<open>
  How \<^verbatim>\<open>encoding/json\<close> fills Go values from a parsed document: strings, pointers to strings, slices
  and structs.  A decoder is a function of the JSON value and the Go value that is already there; it
  fails with \<^const>\<open>None\<close> on a value of the wrong type.
\<close>

section \<open>Strings and slices\<close>

fun decodeString :: "json \<Rightarrow> string \<Rightarrow> string option" where
  "decodeString JNull old = Some old"
| "decodeString (JStr s) old = Some s"
| "decodeString _ old = None"

fun decodeStringPtr :: "json \<Rightarrow> string option option" where
  "decodeStringPtr JNull = Some None"
| "decodeStringPtr (JStr s) = Some (Some s)"
| "decodeStringPtr _ = None"

text \<open>
  A slice while it is decoded: the array behind it and the length, \<^const>\<open>None\<close> if nil.  A later member
  of the same name decodes into the array that is already there, where a null element leaves the
  old one; an array that is too short is extended by the element type's zero value.
\<close>

type_synonym 'a go_array = "('a list \<times> nat) option"

type_synonym go_strings = "string go_array"

definition go_slice :: "'a go_array \<Rightarrow> 'a list option" where
  "go_slice v = map_option (\<lambda>(arr, n). take n arr) v"

fun decodeElems :: "(json \<Rightarrow> 'a \<Rightarrow> 'a option) \<Rightarrow> 'a \<Rightarrow> 'a list \<Rightarrow> json list \<Rightarrow> 'a list option" where
  "decodeElems dec zero arr [] = Some arr"
| "decodeElems dec zero arr (v # vs) =
     (let (old, rest) = (case arr of [] \<Rightarrow> (zero, []) | x # xs \<Rightarrow> (x, xs))
      in case dec v old of
           None \<Rightarrow> None
         | Some x \<Rightarrow> map_option ((#) x) (decodeElems dec zero rest vs))"

fun decodeSlice :: "(json \<Rightarrow> 'a \<Rightarrow> 'a option) \<Rightarrow> 'a \<Rightarrow> json \<Rightarrow> 'a go_array \<Rightarrow> 'a go_array option" where
  "decodeSlice dec zero JNull old = Some None"
| "decodeSlice dec zero (JArr vs) old =
     (if vs = [] then Some (Some ([], 0))
      else map_option (\<lambda>arr. Some (arr, length vs))
             (decodeElems dec zero (case old of None \<Rightarrow> [] | Some (arr, _) \<Rightarrow> arr) vs))"
| "decodeSlice dec zero _ old = None"

abbreviation decodeStrings :: "json \<Rightarrow> go_strings \<Rightarrow> go_strings option" where
  "decodeStrings \<equiv> decodeSlice decodeString []"


section \<open>Structs\<close>

text \<open>
  A key selects a field if it equals the field's name up to case; two runes outside ASCII fold to
  an ASCII letter.
\<close>

definition foldName :: "string \<Rightarrow> string" where
  "foldName key =
     concat (map (\<lambda>r. if r = [CHR 0xC5, CHR 0xBF] then ''s''
                      else if r = [CHR 0xE2, CHR 0x84, CHR 0xAA] then ''k'' else map ascii_lower r)
        (range_runes key))"

text \<open>
  A struct is decoded member by member, each by the function of its field.  A key that selects no
  field is an error if \<open>strict\<close> (\<^verbatim>\<open>DisallowUnknownFields\<close>) and skipped otherwise.
\<close>

type_synonym 'a fields = "(string \<times> (json \<Rightarrow> 'a \<Rightarrow> 'a option)) list"

fun decodeMembers :: "bool \<Rightarrow> 'a fields \<Rightarrow> (string \<times> json) list \<Rightarrow> 'a \<Rightarrow> 'a option" where
  "decodeMembers strict fs [] dst = Some dst"
| "decodeMembers strict fs ((key, v) # ms) dst =
     (case map_of fs (foldName key) of
        None \<Rightarrow> if strict then None else decodeMembers strict fs ms dst
      | Some f \<Rightarrow> (case f v dst of None \<Rightarrow> None | Some dst \<Rightarrow> decodeMembers strict fs ms dst))"

fun decodeStruct :: "bool \<Rightarrow> 'a fields \<Rightarrow> json \<Rightarrow> 'a \<Rightarrow> 'a option" where
  "decodeStruct strict fs JNull dst = Some dst"
| "decodeStruct strict fs (JObj ms) dst = decodeMembers strict fs ms dst"
| "decodeStruct strict fs _ dst = None"

text \<open>\<^verbatim>\<open>json.Unmarshal\<close> into a struct: the whole text is one document.\<close>

definition json_UnmarshalStruct :: "'a fields \<Rightarrow> bytes \<Rightarrow> 'a \<Rightarrow> 'a option" where
  "json_UnmarshalStruct fs text dst =
     (case json_parse text of None \<Rightarrow> None | Some v \<Rightarrow> decodeStruct False fs v dst)"


section \<open>Members and fields\<close>

text \<open>
  A projection \<open>get\<close> that only the decoder of the field \<open>fname\<close> changes: without a member of that
  name it keeps its value, and with exactly one it is what that member decodes to.
\<close>

definition only_field :: "'a fields \<Rightarrow> string \<Rightarrow> ('a \<Rightarrow> 'b) \<Rightarrow> bool" where
  "only_field fs fname get \<longleftrightarrow>
     (\<forall>g f v d d'. map_of fs g = Some f \<longrightarrow> g \<noteq> fname \<longrightarrow> f v d = Some d' \<longrightarrow> get d' = get d)"

abbreviation folded_keys :: "(string \<times> json) list \<Rightarrow> string list" where
  "folded_keys ms \<equiv> map (\<lambda>(k, _). foldName k) ms"

lemma decodeMembers_absent:
  assumes "only_field fs fname get" and "fname \<notin> set (folded_keys ms)"
    and "decodeMembers strict fs ms dst = Some dst'"
  shows "get dst' = get dst"
  using assms(2,3)
proof (induction ms arbitrary: dst)
  case (Cons m ms)
  obtain key v where m: "m = (key, v)" by (cases m)
  show ?case
  proof (cases "map_of fs (foldName key)")
    case None
    then show ?thesis using Cons by (auto simp: m split: if_splits)
  next
    case (Some f)
    then obtain d where d: "f v dst = Some d" "decodeMembers strict fs ms d = Some dst'"
      using Cons.prems(2) by (auto simp: m split: option.splits)
    moreover have "get d = get dst"
      using assms(1) Some d(1) Cons.prems(1) by (auto simp: only_field_def m)
    ultimately show ?thesis using Cons by (simp add: m)
  qed
qed simp

lemma decodeMembers_unique:
  assumes "only_field fs fname get" and "map_of fs fname = Some f"
    and "distinct (folded_keys ms)" and "(key, v) \<in> set ms" and "foldName key = fname"
    and "decodeMembers strict fs ms dst = Some dst'"
  obtains d d' where "f v d = Some d'" and "get d = get dst" and "get d' = get dst'"
proof -
  obtain ms1 ms2 where ms: "ms = ms1 @ (key, v) # ms2"
    using assms(4) by (auto simp: in_set_conv_decomp)
  have split: "decodeMembers strict fs (xs @ ys) d = Some d'' \<longleftrightarrow>
      (\<exists>e. decodeMembers strict fs xs d = Some e \<and> decodeMembers strict fs ys e = Some d'')" for xs ys d d''
    by (induction xs arbitrary: d) (auto split: option.splits)
  obtain d where d: "decodeMembers strict fs ms1 dst = Some d"
      "decodeMembers strict fs ((key, v) # ms2) d = Some dst'"
    using assms(6) by (auto simp: ms split)
  then obtain d' where d': "f v d = Some d'" "decodeMembers strict fs ms2 d' = Some dst'"
    using assms(2,5) by (auto split: option.splits)
  have "fname \<notin> set (folded_keys ms1)" "fname \<notin> set (folded_keys ms2)"
    using assms(3,5) by (auto simp: ms)
  then show thesis
    using that d'(1) decodeMembers_absent [OF assms(1) _ d(1)] decodeMembers_absent [OF assms(1) _ d'(2)]
    by metis
qed

lemma decodeElems_fresh:
  "decodeElems dec zero [] vs = Some xs \<Longrightarrow> list_all2 (\<lambda>v x. dec v zero = Some x) vs xs"
  by (induction vs arbitrary: xs) (auto split: option.splits)

end
