(* ===== verification/Admin.thy ===== *)
theory Admin
  imports Authn Ratelimit Proxy Request_Audit Go_Time Json_Decode
begin

text \<open>
  The admin API \<^verbatim>\<open>src/internal/admin/server.go\<close>: the routes, the rate limit, the bearer token, the
  decoding of request bodies, and one handler per operation, over the method table of a key manager.

  The state behind the handlers is the state of the key manager, the limiter of the server and the
  counter \<^verbatim>\<open>metrics.AuditInconsistencyTotal\<close>.  \<open>clk n\<close> is what the \<open>n\<close>-th reading of the clock during
  the request gives, counting the readings of the key manager it calls; the results of the random
  source are part of the key generator; \<open>fmtTime\<close> is the text of an instant (which depends on the
  time zone it was read in).  Log lines are not modelled.  Paths have no encoded slash.
\<close>

section \<open>Decoding a request body\<close>

definition adminMaxBodyBytes :: int where
  "adminMaxBodyBytes = 64 * 1024"

definition maxPrincipalLen :: int where
  "maxPrincipalLen = 256"

definition maxRoles :: int where
  "maxRoles = 64"

definition maxRoleLen :: int where
  "maxRoleLen = 128"

definition maxAllowedCIDRs :: int where
  "maxAllowedCIDRs = 256"

text \<open>
  \<^verbatim>\<open>Decoder.Decode\<close> takes the first value of the body.  Only the end of an object or an array is
  recognised without the byte after it, so any other value fails if the body ends in an error there.
  \<^verbatim>\<open>Decoder.More\<close> looks at the next byte that is no white space.
\<close>

definition decoderFirst :: "body \<Rightarrow> (json \<times> string) option" where
  "decoderFirst b =
     (case b of
        NoBody \<Rightarrow> None
      | Body bs fails \<Rightarrow>
          (case json_first bs of
             None \<Rightarrow> None
           | Some (v, rest) \<Rightarrow>
               (if rest = [] \<and> fails \<and> \<not> (case v of JObj _ \<Rightarrow> True | JArr _ \<Rightarrow> True | _ \<Rightarrow> False) then None
                else Some (v, rest))))"

definition decoderMore :: "string \<Rightarrow> bool" where
  "decoderMore rest =
     (case jskip rest of [] \<Rightarrow> False | c # _ \<Rightarrow> c \<noteq> CHR '']'' \<and> c \<noteq> CHR ''}'')"

definition strictDecode :: "'a fields \<Rightarrow> http_request \<Rightarrow> 'a \<Rightarrow> 'a option" where
  "strictDecode fs r dst =
     (case decoderFirst (r_Body r) of
        None \<Rightarrow> None
      | Some (v, rest) \<Rightarrow>
          (case decodeStruct True fs v dst of
             None \<Rightarrow> None
           | Some dst \<Rightarrow> if decoderMore rest then None else Some dst))"

record createKeyRequest =
  cr_Principal :: string
  cr_Roles :: go_strings
  cr_ExpiresAt :: "string option"

definition createKeyFields :: "(string \<times> (json \<Rightarrow> createKeyRequest \<Rightarrow> createKeyRequest option)) list" where
  "createKeyFields =
     [(''principal'', \<lambda>v q. map_option (\<lambda>s. q\<lparr>cr_Principal := s\<rparr>) (decodeString v (cr_Principal q))),
      (''roles'', \<lambda>v q. map_option (\<lambda>s. q\<lparr>cr_Roles := s\<rparr>) (decodeStrings v (cr_Roles q))),
      (''expires_at'', \<lambda>v q. map_option (\<lambda>s. q\<lparr>cr_ExpiresAt := s\<rparr>) (decodeStringPtr v))]"

definition setExpiryFields :: "(string \<times> (json \<Rightarrow> string option \<Rightarrow> string option option)) list" where
  "setExpiryFields = [(''expires_at'', \<lambda>v q. decodeStringPtr v)]"

definition updateRolesFields :: "(string \<times> (json \<Rightarrow> go_strings \<Rightarrow> go_strings option)) list" where
  "updateRolesFields = [(''roles'', decodeStrings)]"

definition updateAllowedCIDRsFields :: "(string \<times> (json \<Rightarrow> go_strings \<Rightarrow> go_strings option)) list" where
  "updateAllowedCIDRsFields = [(''allowed_cidrs'', decodeStrings)]"


section \<open>Validation\<close>

definition strconv_Itoa :: "int \<Rightarrow> string" where
  "strconv_Itoa n = (if n < 0 then CHR ''-'' # itoaLoop 20 (nat (- n)) else itoaLoop 20 (nat n))"

definition strconv_Atoi :: "string \<Rightarrow> int option" where
  "strconv_Atoi s =
     (let (neg, ds) = (case s of
            c # r \<Rightarrow> if c = CHR ''-'' then (True, r) else if c = CHR ''+'' then (False, r) else (False, s)
          | [] \<Rightarrow> (False, s));
          n = foldl (\<lambda>n c. n * 10 + digitVal c) 0 ds;
          n = (if neg then - n else n)
      in if ds = [] \<or> \<not> list_all isDigit ds \<or> n < - 9223372036854775808 \<or> 9223372036854775807 < n then None else Some n)"

fun cleanRoles :: "string list \<Rightarrow> string list \<Rightarrow> string + string list" where
  "cleanRoles [] cleaned = Inr cleaned"
| "cleanRoles (role # roles) cleaned =
     (let role = strings_TrimSpace role
      in if role = '''' then Inl ''roles must not be empty or blank''
         else if maxRoleLen < int (length role) then Inl (''role exceeds maximum length of '' @ strconv_Itoa maxRoleLen)
         else cleanRoles roles (cleaned @ [role]))"

definition validateRoles :: "string list option \<Rightarrow> string + string list" where
  "validateRoles roles =
     (if nilSlice roles = [] then Inl ''at least one role is required''
      else if maxRoles < int (length (nilSlice roles)) then Inl (''too many roles (max '' @ strconv_Itoa maxRoles @ '')'')
      else cleanRoles (nilSlice roles) [])"


section \<open>The state and the middlewares of the server\<close>

record 's Admin =
  a_store :: 's
  a_limiter :: Limiter
  a_inconsistency :: int

text \<open>A call of the key manager from a handler.\<close>

definition callStore :: "('s \<Rightarrow> 'r \<times> 's) \<Rightarrow> 's Admin rstate \<Rightarrow> 'r \<times> 's Admin rstate" where
  "callStore f st =
     (let (r, s) = f (a_store (global st)) in (r, st\<lparr>global := (global st)\<lparr>a_store := s\<rparr>\<rparr>))"

definition incInconsistency :: "'s Admin rstate \<Rightarrow> 's Admin rstate" where
  "incInconsistency st = st\<lparr>global := (global st)\<lparr>a_inconsistency := a_inconsistency (global st) + 1\<rparr>\<rparr>"

text \<open>
  \<^verbatim>\<open>auditMutation\<close>, with what the caller does after it returned true as \<open>k\<close>.
\<close>

definition auditMutation ::
  "'s KeyManager \<Rightarrow> string \<Rightarrow> string \<Rightarrow> json \<Rightarrow> json \<Rightarrow> ResponseWriter \<Rightarrow> 's Admin rstate \<Rightarrow>
   ('s Admin rstate \<Rightarrow> 's Admin rstate) \<Rightarrow> 's Admin rstate" where
  "auditMutation mgr keyID action oldValues newValues w st k =
     (case callStore (m_AuditKeyEvent mgr keyID action ''admin_api'' oldValues newValues) st of
        (Inl _, st) \<Rightarrow> http_Error w ''audit logging failed'' 500 (incInconsistency st)
      | (Inr _, st) \<Rightarrow> k st)"

definition maxBodyBytes :: "int \<Rightarrow> 'g middleware" where
  "maxBodyBytes maxBytes next w r st =
     next w (case r_Body r of
               NoBody \<Rightarrow> r
             | Body bs fails \<Rightarrow>
                 (if maxBytes < int (length bs) then r\<lparr>r_Body := Body (take (nat maxBytes) bs) True\<rparr> else r)) st"

definition withRateLimit :: "gotime \<Rightarrow> 's Admin middleware" where
  "withRateLimit now next w r st =
     (let ip = (case net_SplitHostPort (r_RemoteAddr r) of None \<Rightarrow> '''' | Some (host, _) \<Rightarrow> host);
          ip = (if ip = '''' then r_RemoteAddr r else ip);
          (ok, l) = token_Allow now ip (a_limiter (global st));
          st = st\<lparr>global := (global st)\<lparr>a_limiter := l\<rparr>\<rparr>
      in if \<not> ok then http_Error w ''rate limit exceeded'' 429 st else next w r st)"

definition hmacHash :: "bytes \<Rightarrow> bytes \<Rightarrow> bytes" where
  "hmacHash data key = hmac_sha256 key data"

definition withAuth :: "string \<Rightarrow> 'g middleware" where
  "withAuth token next w r st =
     (let tokenMAC = hmacHash token token
      in if token = '''' then http_Error w ''admin API not configured'' 503 st
         else
           (let auth = header_Get (r_Header r) ''Authorization''
            in if \<not> strings_HasPrefix auth ''Bearer '' then http_Error w ''missing bearer token'' 401 st
               else
                 (let got = strings_TrimPrefix auth ''Bearer ''; gotMAC = hmacHash got token
                  in if gotMAC \<noteq> tokenMAC then http_Error w ''invalid bearer token'' 401 st
                     else next w r st)))"

section \<open>The handlers\<close>

text \<open>The interface \<^verbatim>\<open>KeyGenerator\<close>; a generating method is called at most once per request.\<close>

record KeyGenerator =
  kg_GenerateKeyID :: "string option"
  kg_GenerateSecret :: "string option"
  kg_Hash :: "string \<Rightarrow> string"
  kg_HmacKeyID :: string

text \<open>The generator of \<^verbatim>\<open>src/internal/admin/hmac/keygen.go\<close>, with what its random source returns.\<close>

definition hmac_KeyGenerator :: "Generator \<Rightarrow> bytes option \<Rightarrow> bytes option \<Rightarrow> KeyGenerator" where
  "hmac_KeyGenerator g rand1 rand2 =
     \<lparr>kg_GenerateKeyID = GenerateKeyID rand1, kg_GenerateSecret = GenerateSecret rand2,
      kg_Hash = Hash g, kg_HmacKeyID = hmacKeyID g\<rparr>"

record Env =
  e_clk :: clock
  e_fmtTime :: "gotime \<Rightarrow> string"
  e_isPrint :: "string \<Rightarrow> bool"
  e_redirect :: int

definition jsonStrings :: "string list \<Rightarrow> json" where
  "jsonStrings xs = JArr (map JStr xs)"

definition writeJSON :: "ResponseWriter \<Rightarrow> json \<Rightarrow> 'g rstate \<Rightarrow> 'g rstate" where
  "writeJSON w v st = Write w (json_encode v @ [CHR 0x0A]) st"

text \<open>An empty list of roles is written as \<^verbatim>\<open>[]\<close>.\<close>

definition keyResponse :: "Env \<Rightarrow> KeyRecord \<Rightarrow> json" where
  "keyResponse env rec =
     JObj ([(''id'', JStr (KID rec)), (''principal'', JStr (KPrincipal rec)), (''roles'', jsonStrings (KRoles rec))] @
           (if AllowedCIDRs rec = [] then [] else [(''allowed_cidrs'', jsonStrings (AllowedCIDRs rec))]) @
           [(''enabled'', JBool (Enabled rec))] @
           (case ExpiresAt rec of None \<Rightarrow> [] | Some t \<Rightarrow> [(''expires_at'', JStr (e_fmtTime env t))]) @
           [(''created_at'', JStr (e_fmtTime env (CreatedAt rec)))])"

definition getKey :: "'s KeyManager \<Rightarrow> Env \<Rightarrow> string \<Rightarrow> 's Admin handler" where
  "getKey mgr env pid w r st =
     (case m_GetByID mgr pid (a_store (global st)) of
        Inl _ \<Rightarrow> http_Error w ''internal error'' 500 st
      | Inr None \<Rightarrow> http_Error w ''key not found'' 404 st
      | Inr (Some rec) \<Rightarrow>
          writeJSON w (keyResponse env rec) (setHeader ''Content-Type'' ''application/json'' st))"

definition purgeExpired :: "'s KeyManager \<Rightarrow> Env \<Rightarrow> 's Admin handler" where
  "purgeExpired mgr env w r st =
     (case callStore (m_DeleteExpired mgr (e_clk env 0)) st of
        (Inl _, st) \<Rightarrow> http_Error w ''internal error'' 500 st
      | (Inr n, st) \<Rightarrow>
          (case callStore (m_AuditKeyEvent mgr '''' ''purge_expired'' ''admin_api'' JNull
                  (JObj [(''deleted'', JNum (strconv_Itoa n))])) st of
             (Inl _, st) \<Rightarrow> http_Error w ''audit logging failed'' 500 st
           | (Inr _, st) \<Rightarrow>
               writeJSON w (JObj [(''deleted'', JNum (strconv_Itoa n))])
                 (setHeader ''Content-Type'' ''application/json'' st)))"

text \<open>An expiry that a request asks for: absent, refused with a message, or an instant in the future.\<close>

definition requestedExpiry :: "gotime \<Rightarrow> string option \<Rightarrow> string + gotime option" where
  "requestedExpiry now v =
     (case v of
        None \<Rightarrow> Inr None
      | Some s \<Rightarrow>
          (case time_Parse_RFC3339 s of
             None \<Rightarrow> Inl ''invalid expires_at format (use RFC3339)''
           | Some t \<Rightarrow> if \<not> now < t then Inl ''expires_at must be in the future'' else Inr (Some t)))"

text \<open>The new record is in the store, its secret still in hand: audit, or take the key back.\<close>

definition createAudited ::
  "'s KeyManager \<Rightarrow> string \<Rightarrow> string \<Rightarrow> string \<Rightarrow> string list \<Rightarrow> ResponseWriter \<Rightarrow> 's Admin rstate \<Rightarrow> 's Admin rstate" where
  "createAudited mgr keyID secret prin roles w st =
     (case callStore (m_AuditKeyEvent mgr keyID ''create'' ''admin_api'' JNull
             (JObj [(''principal'', JStr prin), (''roles'', jsonStrings roles)])) st of
        (Inl _, st) \<Rightarrow>
          (case callStore (m_Delete mgr keyID) st of
             (Inl _, st) \<Rightarrow> http_Error w ''audit logging failed'' 500 (incInconsistency st)
           | (Inr _, st) \<Rightarrow> http_Error w ''audit logging failed'' 500 st)
      | (Inr _, st) \<Rightarrow>
          writeJSON w (JObj [(''id'', JStr keyID), (''secret'', JStr secret), (''principal'', JStr prin),
                             (''roles'', jsonStrings roles)])
            (WriteHeader w 201 (setHeader ''Content-Type'' ''application/json'' st)))"

definition createKey :: "'s KeyManager \<Rightarrow> KeyGenerator \<Rightarrow> Env \<Rightarrow> 's Admin handler" where
  "createKey mgr keygen env w r st =
     (case strictDecode createKeyFields r \<lparr>cr_Principal = '''', cr_Roles = None, cr_ExpiresAt = None\<rparr> of
        None \<Rightarrow> http_Error w ''invalid JSON'' 400 st
      | Some req \<Rightarrow>
          (if cr_Principal req = '''' then http_Error w ''principal is required'' 400 st
           else if maxPrincipalLen < int (length (cr_Principal req)) then
             http_Error w (''principal exceeds maximum length of '' @ strconv_Itoa maxPrincipalLen) 400 st
           else
             (case validateRoles (go_slice (cr_Roles req)) of
                Inl e \<Rightarrow> http_Error w e 400 st
              | Inr roles \<Rightarrow>
                  (case kg_GenerateKeyID keygen of
                     None \<Rightarrow> http_Error w ''internal error'' 500 st
                   | Some keyID \<Rightarrow>
                       (case kg_GenerateSecret keygen of
                          None \<Rightarrow> http_Error w ''internal error'' 500 st
                        | Some secret \<Rightarrow>
                            (case requestedExpiry (e_clk env 2) (cr_ExpiresAt req) of
                               Inl e \<Rightarrow> http_Error w e 400 st
                             | Inr expires \<Rightarrow>
                                 (let rec = \<lparr>KID = keyID, KeyHash = kg_Hash keygen secret,
                                        HmacKeyID = kg_HmacKeyID keygen, KPrincipal = cr_Principal req,
                                        KRoles = roles, AllowedCIDRs = [], Enabled = True, ExpiresAt = expires,
                                        CreatedAt = e_clk env 0, UpdatedAt = e_clk env 1\<rparr>
                                  in case callStore (m_Create mgr (\<lambda>n. e_clk env (3 + n)) rec) st of
                                       (Inl _, st) \<Rightarrow> http_Error w ''internal error'' 500 st
                                     | (Inr _, st) \<Rightarrow>
                                         createAudited mgr keyID secret (cr_Principal req) roles w st)))))))"

definition defaultLimit :: int where
  "defaultLimit = 100"

definition maxLimit :: int where
  "maxLimit = 1000"

text \<open>\<^verbatim>\<open>r.URL.Query().Get(k)\<close>.\<close>

definition query_Get :: "string \<Rightarrow> string \<Rightarrow> string" where
  "query_Get rawQuery k =
     (case map_of (List.map_filter parsePair (strings_Split rawQuery CHR ''&'')) k of None \<Rightarrow> '''' | Some v \<Rightarrow> v)"

text \<open>A paging parameter: the default if it is absent, \<^const>\<open>None\<close> if it is not a number of at least \<open>least\<close>.\<close>

definition pagingParam :: "string \<Rightarrow> int \<Rightarrow> int \<Rightarrow> int option" where
  "pagingParam v dflt least =
     (if v = '''' then Some dflt
      else (case strconv_Atoi v of None \<Rightarrow> None | Some n \<Rightarrow> if n < least then None else Some n))"

definition listKeys :: "'s KeyManager \<Rightarrow> Env \<Rightarrow> 's Admin handler" where
  "listKeys mgr env w r st =
     (case pagingParam (query_Get (r_RawQuery r) ''limit'') defaultLimit 1 of
        None \<Rightarrow> http_Error w ''limit must be a positive integer'' 400 st
      | Some limit \<Rightarrow>
          (let limit = (if maxLimit < limit then maxLimit else limit)
           in case pagingParam (query_Get (r_RawQuery r) ''offset'') 0 0 of
                None \<Rightarrow> http_Error w ''offset must be a non-negative integer'' 400 st
              | Some offset \<Rightarrow>
                  (case m_ListFiltered mgr limit offset (query_Get (r_RawQuery r) ''principal'')
                          (query_Get (r_RawQuery r) ''role'') (a_store (global st)) of
                     Inl _ \<Rightarrow> http_Error w ''internal error'' 500 st
                   | Inr recs \<Rightarrow>
                       writeJSON w (JArr (map (keyResponse env) recs))
                         (setHeader ''Content-Type'' ''application/json'' st))))"

text \<open>The answer to an error of the store that may be \<^verbatim>\<open>ErrKeyNotFound\<close>.\<close>

definition storeFailure :: "store_error \<Rightarrow> ResponseWriter \<Rightarrow> 'g rstate \<Rightarrow> 'g rstate" where
  "storeFailure e w st =
     (if isErrKeyNotFound e then http_Error w ''key not found'' 404 st else http_Error w ''internal error'' 500 st)"

definition deleteKey :: "'s KeyManager \<Rightarrow> Env \<Rightarrow> string \<Rightarrow> 's Admin handler" where
  "deleteKey mgr env pid w r st =
     (case callStore (m_Delete mgr pid) st of
        (Inl e, st) \<Rightarrow> storeFailure e w st
      | (Inr _, st) \<Rightarrow>
          auditMutation mgr pid ''delete'' JNull JNull w st (\<lambda>st. WriteHeader w 204 st))"

definition setEnabled :: "'s KeyManager \<Rightarrow> bool \<Rightarrow> Env \<Rightarrow> string \<Rightarrow> 's Admin handler" where
  "setEnabled mgr enabled env pid w r st =
     (case callStore (m_SetEnabled mgr (e_clk env) pid enabled) st of
        (Inl e, st) \<Rightarrow> storeFailure e w st
      | (Inr _, st) \<Rightarrow>
          (let action = (if enabled then ''enable'' else ''disable'')
           in auditMutation mgr pid action JNull (JObj [(''enabled'', JBool enabled)]) w st (\<lambda>st. WriteHeader w 204 st)))"

definition setExpiry :: "'s KeyManager \<Rightarrow> Env \<Rightarrow> string \<Rightarrow> 's Admin handler" where
  "setExpiry mgr env pid w r st =
     (case strictDecode setExpiryFields r None of
        None \<Rightarrow> http_Error w ''invalid JSON'' 400 st
      | Some v \<Rightarrow>
          (case requestedExpiry (e_clk env 0) v of
             Inl e \<Rightarrow> http_Error w e 400 st
           | Inr expires \<Rightarrow>
               (case callStore (m_SetExpiresAt mgr (\<lambda>n. e_clk env (1 + n)) pid expires) st of
                  (Inl e, st) \<Rightarrow> storeFailure e w st
                | (Inr _, st) \<Rightarrow>
                    auditMutation mgr pid ''update_expiry'' JNull
                      (JObj [(''expires_at'', case expires of None \<Rightarrow> JNull | Some t \<Rightarrow> JStr (e_fmtTime env t))])
                      w st (\<lambda>st. WriteHeader w 204 st))))"

definition rotateKey :: "'s KeyManager \<Rightarrow> KeyGenerator \<Rightarrow> Env \<Rightarrow> string \<Rightarrow> 's Admin handler" where
  "rotateKey mgr keygen env pid w r st =
     (case m_GetByID mgr pid (a_store (global st)) of
        Inl _ \<Rightarrow> http_Error w ''internal error'' 500 st
      | Inr None \<Rightarrow> http_Error w ''key not found'' 404 st
      | Inr (Some rec) \<Rightarrow>
          (case kg_GenerateSecret keygen of
             None \<Rightarrow> http_Error w ''internal error'' 500 st
           | Some secret \<Rightarrow>
               (case callStore (m_UpdateHash mgr (e_clk env) pid (kg_Hash keygen secret) (kg_HmacKeyID keygen)) st of
                  (Inl e, st) \<Rightarrow> storeFailure e w st
                | (Inr _, st) \<Rightarrow>
                    auditMutation mgr pid ''rotate'' (JObj [(''hmac_key_id'', JStr (HmacKeyID rec))])
                      (JObj [(''hmac_key_id'', JStr (kg_HmacKeyID keygen))]) w st
                      (\<lambda>st. writeJSON w (JObj [(''id'', JStr pid), (''secret'', JStr secret)])
                         (setHeader ''Content-Type'' ''application/json'' st)))))"

definition updateRoles :: "'s KeyManager \<Rightarrow> Env \<Rightarrow> string \<Rightarrow> 's Admin handler" where
  "updateRoles mgr env pid w r st =
     (case strictDecode updateRolesFields r None of
        None \<Rightarrow> http_Error w ''invalid JSON'' 400 st
      | Some v \<Rightarrow>
          (case validateRoles (go_slice v) of
             Inl e \<Rightarrow> http_Error w e 400 st
           | Inr roles \<Rightarrow>
               (case callStore (m_SetRoles mgr (e_clk env) pid (Some roles)) st of
                  (Inl e, st) \<Rightarrow> storeFailure e w st
                | (Inr _, st) \<Rightarrow>
                    auditMutation mgr pid ''update_roles'' JNull (JObj [(''roles'', jsonStrings roles)]) w st
                      (\<lambda>st. WriteHeader w 204 st))))"

definition updateAllowedCIDRs :: "'s KeyManager \<Rightarrow> Env \<Rightarrow> string \<Rightarrow> 's Admin handler" where
  "updateAllowedCIDRs mgr env pid w r st =
     (case strictDecode updateAllowedCIDRsFields r None of
        None \<Rightarrow> http_Error w ''invalid JSON'' 400 st
      | Some v \<Rightarrow>
          (let cidrs = go_slice v
           in if maxAllowedCIDRs < int (length (nilSlice cidrs)) then
                http_Error w (''too many allowed_cidrs (max '' @ strconv_Itoa maxAllowedCIDRs @ '')'') 400 st
              else
                (case find (\<lambda>cidr. net_ParseCIDR cidr = None) (nilSlice cidrs) of
                   Some cidr \<Rightarrow>
                     http_Error w (''invalid CIDR '' @ strconv_Quote (e_isPrint env) cidr @
                       '': invalid CIDR address: '' @ cidr) 400 st
                 | None \<Rightarrow>
                     (case callStore (m_SetAllowedCIDRs mgr (e_clk env) pid cidrs) st of
                        (Inl e, st) \<Rightarrow> storeFailure e w st
                      | (Inr _, st) \<Rightarrow>
                          auditMutation mgr pid ''update_allowed_cidrs'' JNull
                            (JObj [(''allowed_cidrs'', case cidrs of None \<Rightarrow> JNull | Some xs \<Rightarrow> jsonStrings xs)])
                            w st (\<lambda>st. WriteHeader w 204 st)))))"

section \<open>Routes\<close>

text \<open>
  \<^verbatim>\<open>http.ServeMux\<close> for patterns of a method and segments.  A wildcard matches any segment but the
  empty one after a trailing slash; a literal segment wins over a wildcard; GET also serves HEAD.
  A path that is not clean is redirected; the query of the location and the short body of the
  redirect are left out.
\<close>

datatype segment = Lit string | Wild

record 'g mux_pattern =
  p_method :: string
  p_segments :: "segment list"
  p_handler :: "string \<Rightarrow> 'g handler"

fun segmentMatches :: "segment \<Rightarrow> string \<Rightarrow> bool" where
  "segmentMatches (Lit l) seg \<longleftrightarrow> seg = l"
| "segmentMatches Wild seg \<longleftrightarrow> seg \<noteq> ''''"

definition pathMatches :: "'g mux_pattern \<Rightarrow> string list \<Rightarrow> bool" where
  "pathMatches p segs \<longleftrightarrow> list_all2 segmentMatches (p_segments p) segs"

text \<open>Of two patterns that match, the one with a literal at the first position where they differ.\<close>

fun moreSpecific :: "segment list \<Rightarrow> segment list \<Rightarrow> bool" where
  "moreSpecific (Lit _ # ps) (Wild # qs) \<longleftrightarrow> True"
| "moreSpecific (Wild # ps) (Lit _ # qs) \<longleftrightarrow> False"
| "moreSpecific (_ # ps) (_ # qs) \<longleftrightarrow> moreSpecific ps qs"
| "moreSpecific _ _ \<longleftrightarrow> False"

fun mostSpecific :: "'g mux_pattern list \<Rightarrow> 'g mux_pattern option" where
  "mostSpecific [] = None"
| "mostSpecific (p # ps) =
     (case mostSpecific ps of
        None \<Rightarrow> Some p
      | Some q \<Rightarrow> if moreSpecific (p_segments q) (p_segments p) then Some q else Some p)"

definition muxMatch :: "'g mux_pattern list \<Rightarrow> string \<Rightarrow> string list \<Rightarrow> 'g mux_pattern option" where
  "muxMatch ps meth segs =
     (case mostSpecific (filter (\<lambda>p. p_method p = meth \<and> pathMatches p segs) ps) of
        Some p \<Rightarrow> Some p
      | None \<Rightarrow>
          if meth = ''HEAD'' then mostSpecific (filter (\<lambda>p. p_method p = ''GET'' \<and> pathMatches p segs) ps)
          else None)"

definition allowedMethods :: "'g mux_pattern list \<Rightarrow> string list \<Rightarrow> string list" where
  "allowedMethods ps segs =
     (let ms = map p_method (filter (\<lambda>p. pathMatches p segs) ps)
      in sort (remdups (if ''GET'' \<in> set ms then ''HEAD'' # ms else ms)))"

text \<open>\<^verbatim>\<open>path.Clean\<close> on a rooted path, and \<^verbatim>\<open>cleanPath\<close>, which keeps a trailing slash.\<close>

fun cleanSegments :: "string list \<Rightarrow> string list \<Rightarrow> string list" where
  "cleanSegments [] stack = rev stack"
| "cleanSegments (s # ss) stack =
     (if s = '''' \<or> s = ''.'' then cleanSegments ss stack
      else if s = ''..'' then cleanSegments ss (tl stack)
      else cleanSegments ss (s # stack))"

definition cleanPath :: "string \<Rightarrow> string" where
  "cleanPath p =
     (let p = (if p = '''' then ''/'' else if hd p \<noteq> CHR ''/'' then CHR ''/'' # p else p);
          np = CHR ''/'' # strings_Join (cleanSegments (strings_Split p CHR ''/'') []) ''/''
      in if last p = CHR ''/'' \<and> np \<noteq> ''/'' then np @ ''/'' else np)"

definition pathValue :: "segment list \<Rightarrow> string list \<Rightarrow> string" where
  "pathValue ps segs = (case find (\<lambda>(p, _). p = Wild) (zip ps segs) of None \<Rightarrow> '''' | Some (_, seg) \<Rightarrow> seg)"

definition ServeMux :: "Env \<Rightarrow> 'g mux_pattern list \<Rightarrow> 'g handler" where
  "ServeMux env ps w r st =
     (let path = cleanPath (r_Path r); segs = tl (strings_Split path CHR ''/'')
      in if path \<noteq> r_Path r then WriteHeader w (e_redirect env) (setHeader ''Location'' path st)
         else
           (case muxMatch ps (r_Method r) segs of
              Some p \<Rightarrow> p_handler p (pathValue (p_segments p) segs) w r st
            | None \<Rightarrow>
                (if allowedMethods ps segs \<noteq> [] then
                   http_Error w ''Method Not Allowed'' 405
                     (setHeader ''Allow'' (strings_Join (allowedMethods ps segs) '', '') st)
                 else http_Error w ''404 page not found'' 404 st)))"

text \<open>The routes of \<^verbatim>\<open>Handler\<close>, each behind the token.\<close>

definition adminKeysPath :: "segment list" where
  "adminKeysPath = [Lit ''admin'', Lit ''keys'']"

definition route :: "string \<Rightarrow> string \<Rightarrow> segment list \<Rightarrow> (string \<Rightarrow> 'g handler) \<Rightarrow> 'g mux_pattern" where
  "route adminToken meth segs h =
     \<lparr>p_method = meth, p_segments = adminKeysPath @ segs, p_handler = (\<lambda>pid. withAuth adminToken (h pid))\<rparr>"

definition adminRoutes :: "'s KeyManager \<Rightarrow> KeyGenerator \<Rightarrow> string \<Rightarrow> Env \<Rightarrow> 's Admin mux_pattern list" where
  "adminRoutes mgr keygen adminToken env =
     [route adminToken ''POST'' [] (\<lambda>_. createKey mgr keygen env),
      route adminToken ''GET'' [Wild] (getKey mgr env),
      route adminToken ''GET'' [] (\<lambda>_. listKeys mgr env),
      route adminToken ''DELETE'' [Lit ''expired''] (\<lambda>_. purgeExpired mgr env),
      route adminToken ''DELETE'' [Wild] (deleteKey mgr env),
      route adminToken ''PATCH'' [Wild, Lit ''disable''] (setEnabled mgr False env),
      route adminToken ''PATCH'' [Wild, Lit ''enable''] (setEnabled mgr True env),
      route adminToken ''PUT'' [Wild, Lit ''roles''] (updateRoles mgr env),
      route adminToken ''POST'' [Wild, Lit ''rotate''] (rotateKey mgr keygen env),
      route adminToken ''PUT'' [Wild, Lit ''allowed-cidrs''] (updateAllowedCIDRs mgr env),
      route adminToken ''PATCH'' [Wild, Lit ''expiry''] (setExpiry mgr env)]"

definition admin_Handler :: "'s KeyManager \<Rightarrow> KeyGenerator \<Rightarrow> string \<Rightarrow> Env \<Rightarrow> 's Admin handler" where
  "admin_Handler mgr keygen adminToken env = ServeMux env (adminRoutes mgr keygen adminToken env)"

text \<open>The handler that \<^verbatim>\<open>NewServer\<close> installs and the state it starts in; \<open>now\<close> is the time the limiter reads.\<close>

definition admin_NewServer :: "'s KeyManager \<Rightarrow> KeyGenerator \<Rightarrow> string \<Rightarrow> Env \<Rightarrow> gotime \<Rightarrow> 's Admin handler" where
  "admin_NewServer mgr keygen adminToken env now =
     withRateLimit now (maxBodyBytes adminMaxBodyBytes (admin_Handler mgr keygen adminToken env))"

definition admin_init :: "'s \<Rightarrow> 's Admin" where
  "admin_init s = \<lparr>a_store = s, a_limiter = token_New 10 50, a_inconsistency = 0\<rparr>"

section \<open>Nothing without the token\<close>

definition token_ok :: "string \<Rightarrow> http_request \<Rightarrow> bool" where
  "token_ok token r \<longleftrightarrow>
     (let auth = header_Get (r_Header r) ''Authorization''
      in token \<noteq> '''' \<and> strings_HasPrefix auth ''Bearer '' \<and>
         hmacHash (strings_TrimPrefix auth ''Bearer '') token = hmacHash token token)"

text \<open>The same request state around another key store.\<close>

definition with_store :: "'t \<Rightarrow> 's Admin rstate \<Rightarrow> 't Admin rstate" where
  "with_store s st =
     \<lparr>cell_bodySize = cell_bodySize st, cell_bodyBytes = cell_bodyBytes st, cell_authzResult = cell_authzResult st,
      cell_statusCode = cell_statusCode st, resp_status = resp_status st, resp_header = resp_header st,
      resp_body = resp_body st, panicking = panicking st,
      global = \<lparr>a_store = s, a_limiter = a_limiter (global st), a_inconsistency = a_inconsistency (global st)\<rparr>\<rparr>"

lemma with_store_simps [simp]:
  "resp_status (with_store s st) = resp_status st" "resp_header (with_store s st) = resp_header st"
  "a_limiter (global (with_store s st)) = a_limiter (global st)"
  by (simp_all add: with_store_def)

lemma WriteHeader_with_store: "WriteHeader w c (with_store s st) = with_store s (WriteHeader w c st)"
proof (induction w arbitrary: st)
  case RawWriter
  then show ?case by (simp add: with_store_def)
next
  case (StatusRecorder w)
  have "(with_store s st)\<lparr>cell_statusCode := c\<rparr> = with_store s (st\<lparr>cell_statusCode := c\<rparr>)"
    by (simp add: with_store_def)
  then show ?case using StatusRecorder by simp
qed

lemma Write_with_store: "Write w bs (with_store s st) = with_store s (Write w bs st)"
proof (induction w arbitrary: st)
  case RawWriter
  then show ?case by (simp add: with_store_def Let_def)
next
  case (StatusRecorder w)
  then show ?case by simp
qed

lemma setHeader_with_store: "setHeader k v (with_store s st) = with_store s (setHeader k v st)"
  by (simp add: setHeader_def with_store_def)

lemma http_Error_with_store: "http_Error w msg c (with_store s st) = with_store s (http_Error w msg c st)"
proof -
  have "(with_store s st)\<lparr>resp_header := h\<rparr> = with_store s (st\<lparr>resp_header := h\<rparr>)" for h
    by (simp add: with_store_def)
  then show ?thesis
    by (simp add: http_Error_def Let_def WriteHeader_with_store Write_with_store setHeader_with_store)
qed

lemmas with_store_writes = WriteHeader_with_store Write_with_store setHeader_with_store http_Error_with_store

lemma withAuth_denied:
  assumes "\<not> token_ok token r"
  shows "withAuth token next w r (with_store s st) = with_store s (withAuth token other w r st)"
  using assms by (auto simp: withAuth_def token_ok_def Let_def http_Error_with_store)

lemma mostSpecific_member: "mostSpecific ps = Some p \<Longrightarrow> p \<in> set ps"
  by (induction ps arbitrary: p) (auto split: option.splits if_splits)

lemma muxMatch_member: "muxMatch ps m segs = Some p \<Longrightarrow> p \<in> set ps"
  by (auto simp: muxMatch_def split: option.splits if_splits dest!: mostSpecific_member)

text \<open>Which pattern is chosen depends on the methods and paths, not on the handlers.\<close>

definition same_shape :: "'g mux_pattern \<Rightarrow> 'h mux_pattern \<Rightarrow> bool" where
  "same_shape p q \<longleftrightarrow> p_method p = p_method q \<and> p_segments p = p_segments q"

lemma mostSpecific_shape:
  "list_all2 R ps qs \<Longrightarrow> (\<And>p q. R p q \<Longrightarrow> same_shape p q) \<Longrightarrow> rel_option R (mostSpecific ps) (mostSpecific qs)"
proof (induction ps qs rule: list_all2_induct)
  case (Cons p ps q qs)
  then have "rel_option R (mostSpecific ps) (mostSpecific qs)" by blast
  then show ?case
    using Cons.hyps(1) Cons.prems
    by (cases "mostSpecific ps"; cases "mostSpecific qs") (auto simp: same_shape_def)
qed simp

lemma filter_shape:
  "list_all2 R ps qs \<Longrightarrow> (\<And>p q. R p q \<Longrightarrow> P p \<longleftrightarrow> Q q) \<Longrightarrow> list_all2 R (filter P ps) (filter Q qs)"
  by (induction ps qs rule: list_all2_induct) auto

lemma muxMatch_shape:
  assumes "list_all2 R ps qs" and "\<And>p q. R p q \<Longrightarrow> same_shape p q"
  shows "rel_option R (muxMatch ps m segs) (muxMatch qs m segs)"
proof -
  have "rel_option R (mostSpecific (filter (\<lambda>p. p_method p = m \<and> pathMatches p segs) ps))
      (mostSpecific (filter (\<lambda>p. p_method p = m \<and> pathMatches p segs) qs))" for m
    using assms by (intro mostSpecific_shape filter_shape) (auto simp: same_shape_def pathMatches_def)
  from this [of m] this [of "''GET''"] show ?thesis
    unfolding muxMatch_def
    by (cases "mostSpecific (filter (\<lambda>p. p_method p = m \<and> pathMatches p segs) ps)") (auto split: option.split)
qed

definition store_blind :: "http_request \<Rightarrow> 's Admin mux_pattern \<Rightarrow> 't Admin mux_pattern \<Rightarrow> bool" where
  "store_blind r p q \<longleftrightarrow> same_shape p q \<and>
     (\<forall>pid w st s. p_handler q pid w r (with_store s st) = with_store s (p_handler p pid w r st))"

lemma route_blind:
  assumes "\<not> token_ok token r"
  shows "store_blind r (route token m segs h) (route token m segs h')"
  unfolding store_blind_def same_shape_def route_def
  by (simp, intro allI withAuth_denied [OF assms])

lemma adminRoutes_blind:
  assumes "\<not> token_ok token r"
  shows "list_all2 (store_blind r) (adminRoutes mgr keygen token env) (adminRoutes mgr' keygen' token env)"
  unfolding adminRoutes_def by (simp add: route_blind [OF assms])

lemma allowedMethods_shape:
  assumes "list_all2 R ps qs" and "\<And>p q. R p q \<Longrightarrow> same_shape p q"
  shows "allowedMethods ps segs = allowedMethods qs segs"
proof -
  have "list_all2 R (filter (\<lambda>p. pathMatches p segs) ps) (filter (\<lambda>p. pathMatches p segs) qs)"
    using assms by (intro filter_shape) (auto simp: same_shape_def pathMatches_def)
  then have "map p_method (filter (\<lambda>p. pathMatches p segs) ps) = map p_method (filter (\<lambda>p. pathMatches p segs) qs)"
    using assms(2) by (induction rule: list_all2_induct) (auto simp: same_shape_def)
  then show ?thesis by (simp add: allowedMethods_def)
qed

lemma ServeMux_blind:
  assumes "list_all2 (store_blind r) ps qs"
  shows "ServeMux env qs w r (with_store s st) = with_store s (ServeMux env ps w r st)"
proof -
  define segs where "segs = tl (strings_Split (cleanPath (r_Path r)) CHR ''/'')"
  have shape: "store_blind r p q \<Longrightarrow> same_shape p q" for p q
    by (simp add: store_blind_def)
  have allowed: "allowedMethods qs segs = allowedMethods ps segs"
    using allowedMethods_shape [OF assms] shape by fastforce
  have match: "rel_option (store_blind r) (muxMatch ps (r_Method r) segs) (muxMatch qs (r_Method r) segs)"
    using assms shape by (rule muxMatch_shape)
  show ?thesis
  proof (cases "muxMatch ps (r_Method r) segs")
    case None
    then have "muxMatch qs (r_Method r) segs = None"
      using match by simp
    with None allowed show ?thesis
      unfolding ServeMux_def Let_def segs_def [symmetric] by (simp add: with_store_writes)
  next
    case (Some p)
    then obtain q where q: "muxMatch qs (r_Method r) segs = Some q" "store_blind r p q"
      using match by (auto simp: option_rel_Some1)
    with Some show ?thesis
      unfolding ServeMux_def Let_def segs_def [symmetric]
      by (simp add: with_store_writes store_blind_def same_shape_def)
  qed
qed

lemma maxBodyBytes_header: "r_Header (case r_Body r of NoBody \<Rightarrow> r | Body bs fails \<Rightarrow>
    if n < int (length bs) then r\<lparr>r_Body := Body (take (nat n) bs) True\<rparr> else r) = r_Header r"
  by (simp split: body.split)

text \<open>
  C4: Without the bearer token the admin server neither changes nor reveals anything: for every
  method, path and body, what it answers, and everything else it leaves behind, is the same for
  any two key stores and any two key managers over them, and the store itself is as before.  The
  token is accepted only if it is configured, sent as a bearer token, and has the MAC of the
  configured one.
\<close>

theorem admin_needs_token:
  assumes "\<not> token_ok adminToken r"
  shows "admin_NewServer mgr' keygen' adminToken env now w r (with_store s' st) =
    with_store s' (admin_NewServer mgr keygen adminToken env now w r st)"
proof -
  define r' where "r' = (case r_Body r of NoBody \<Rightarrow> r | Body bs fails \<Rightarrow>
    if adminMaxBodyBytes < int (length bs) then r\<lparr>r_Body := Body (take (nat adminMaxBodyBytes) bs) True\<rparr> else r)"
  have "\<not> token_ok adminToken r'"
    using assms maxBodyBytes_header [of r] by (simp add: token_ok_def r'_def)
  from ServeMux_blind [OF adminRoutes_blind [OF this]] have next_eq:
    "admin_Handler mgr' keygen' adminToken env w r' (with_store s' st) =
      with_store s' (admin_Handler mgr keygen adminToken env w r' st)" for st
    by (simp add: admin_Handler_def)
  have limiter: "(with_store s' st)\<lparr>global := (global (with_store s' st))\<lparr>a_limiter := l\<rparr>\<rparr> =
      with_store s' (st\<lparr>global := (global st)\<lparr>a_limiter := l\<rparr>\<rparr>)" for l
    by (simp add: with_store_def)
  show ?thesis
    by (simp add: admin_NewServer_def withRateLimit_def maxBodyBytes_def Let_def limiter next_eq
        http_Error_with_store flip: r'_def split: prod.split)
qed

text \<open>The concrete request of the examples.\<close>

definition demoAdminRequest :: "string \<Rightarrow> string \<Rightarrow> string \<Rightarrow> string \<Rightarrow> http_request" where
  "demoAdminRequest meth path auth content =
     \<lparr>r_Method = meth, r_Scheme = '''', r_Host = ''localhost'', r_Path = path, r_RawQuery = '''',
      r_Header = [(''Authorization'', [auth])], r_Body = Body content False,
      r_ContentLength = int (length content), r_RemoteAddr = ''192.0.2.1:1234'', r_ctx = Background\<rparr>"

definition demoEnv :: Env where
  "demoEnv = \<lparr>e_clk = (\<lambda>n. int n + 63000000000000000000), e_fmtTime = (\<lambda>_. ''now''), e_isPrint = (\<lambda>_. True), e_redirect = 307\<rparr>"

abbreviation demoManager :: "Store KeyManager" where
  "demoManager \<equiv> memory_KeyManager (\<lambda>m. sorted_list_of_set (dom (keys m)))"

definition demoKeygen :: KeyGenerator where
  "demoKeygen = hmac_KeyGenerator (NewGenerator ''v1'' ''s3cret'') (Some ''ABCDEFGH'') (Some (replicate 32 CHR ''x''))"

theorem admin_needs_token_witness:
  "admin_NewServer demoManager demoKeygen ''tok'' demoEnv 0 RawWriter
     (demoAdminRequest ''DELETE'' ''/admin/keys/k1'' ''Basic dG9r'' '''')
     (with_store \<lparr>keys = [''k1'' \<mapsto> sampleKey ''k1'' ''bob'' None]\<rparr> (freshState (admin_init NewStore))) =
   with_store \<lparr>keys = [''k1'' \<mapsto> sampleKey ''k1'' ''bob'' None]\<rparr>
     (admin_NewServer demoManager demoKeygen ''tok'' demoEnv 0 RawWriter
       (demoAdminRequest ''DELETE'' ''/admin/keys/k1'' ''Basic dG9r'' '''') (freshState (admin_init NewStore)))"
proof (rule admin_needs_token)
  have "\<not> strings_HasPrefix (header_Get (r_Header (demoAdminRequest ''DELETE'' ''/admin/keys/k1'' ''Basic dG9r'' ''''))
      ''Authorization'') ''Bearer ''"
    by code_simp
  then show "\<not> token_ok ''tok'' (demoAdminRequest ''DELETE'' ''/admin/keys/k1'' ''Basic dG9r'' '''')"
    by (simp add: token_ok_def Let_def)
qed

section \<open>Every change is audited\<close>

text \<open>A key manager that also keeps the audit events it has accepted.\<close>

type_synonym key_event = "string \<times> string \<times> string \<times> json \<times> json"

definition liftS :: "('s \<Rightarrow> 'r \<times> 's) \<Rightarrow> 's \<times> key_event list \<Rightarrow> 'r \<times> ('s \<times> key_event list)" where
  "liftS f s = (case f (fst s) of (r, s') \<Rightarrow> (r, (s', snd s)))"

definition recordEvent ::
  "'s KeyManager \<Rightarrow> string \<Rightarrow> string \<Rightarrow> string \<Rightarrow> json \<Rightarrow> json \<Rightarrow> 's \<times> key_event list \<Rightarrow> unit sres \<times> ('s \<times> key_event list)" where
  "recordEvent mgr k a c old new s =
     (case m_AuditKeyEvent mgr k a c old new (fst s) of
        (Inl e, s') \<Rightarrow> (Inl e, (s', snd s))
      | (Inr u, s') \<Rightarrow> (Inr u, (s', snd s @ [(k, a, c, old, new)])))"

definition recording :: "'s KeyManager \<Rightarrow> ('s \<times> key_event list) KeyManager" where
  "recording mgr =
     \<lparr>m_GetByID = (\<lambda>k s. m_GetByID mgr k (fst s)),
      m_Create = (\<lambda>clk rec. liftS (m_Create mgr clk rec)),
      m_List = (\<lambda>s. m_List mgr (fst s)),
      m_ListPaged = (\<lambda>l o' s. m_ListPaged mgr l o' (fst s)),
      m_ListFiltered = (\<lambda>l o' p r s. m_ListFiltered mgr l o' p r (fst s)),
      m_SetEnabled = (\<lambda>clk k b. liftS (m_SetEnabled mgr clk k b)),
      m_SetRoles = (\<lambda>clk k rs. liftS (m_SetRoles mgr clk k rs)),
      m_SetAllowedCIDRs = (\<lambda>clk k cs. liftS (m_SetAllowedCIDRs mgr clk k cs)),
      m_UpdateHash = (\<lambda>clk k h i. liftS (m_UpdateHash mgr clk k h i)),
      m_Delete = (\<lambda>k. liftS (m_Delete mgr k)),
      m_DeleteExpired = (\<lambda>t. liftS (m_DeleteExpired mgr t)),
      m_SetExpiresAt = (\<lambda>clk k e. liftS (m_SetExpiresAt mgr clk k e)),
      m_AuditKeyEvent = recordEvent mgr\<rparr>"

abbreviation events :: "('s \<times> key_event list) Admin rstate \<Rightarrow> key_event list" where
  "events st \<equiv> snd (a_store (global st))"

definition successes :: "int option set" where
  "successes = {Some 200, Some 201, Some 204}"

text \<open>Success and exactly one event of the admin API, or no success and no event.\<close>

definition audited :: "('s \<times> key_event list) Admin rstate \<Rightarrow> ('s \<times> key_event list) Admin rstate \<Rightarrow> bool" where
  "audited st st' \<longleftrightarrow>
     events st' = events st \<and> resp_status st' \<notin> successes \<or>
     resp_status st' \<in> successes \<and> (\<exists>k a old new. events st' = events st @ [(k, a, ''admin_api'', old, new)])"

lemma not_success [simp]:
  "Some 400 \<notin> successes" "Some 401 \<notin> successes" "Some 404 \<notin> successes" "Some 405 \<notin> successes"
  "Some 429 \<notin> successes" "Some 500 \<notin> successes" "Some 503 \<notin> successes"
  by (simp_all add: successes_def)

lemma is_success [simp]: "Some 200 \<in> successes" "Some 201 \<in> successes" "Some 204 \<in> successes"
  by (simp_all add: successes_def)

lemma audited_error [simp]:
  assumes "resp_status st = None" and "events st = events st0"
  shows "audited st0 (http_Error w msg c st) \<longleftrightarrow> Some c \<notin> successes \<or>
    (\<exists>k a old new. events st = events st0 @ [(k, a, ''admin_api'', old, new)])"
  using assms by (auto simp: audited_def)

lemma incInconsistency_simps [simp]:
  "resp_status (incInconsistency st) = resp_status st" "a_store (global (incInconsistency st)) = a_store (global st)"
  by (simp_all add: incInconsistency_def)

lemma callStore_lift:
  "callStore (liftS f) st = (x, st') \<Longrightarrow> resp_status st' = resp_status st \<and> events st' = events st"
  by (auto simp: callStore_def liftS_def split: prod.splits)

lemma callStore_record:
  "callStore (recordEvent mgr k a c old new) st = (x, st') \<Longrightarrow>
   resp_status st' = resp_status st \<and>
   events st' = (case x of Inl _ \<Rightarrow> events st | Inr _ \<Rightarrow> events st @ [(k, a, c, old, new)])"
  by (auto simp: callStore_def recordEvent_def Let_def split: prod.splits sum.splits)

lemma storeFailure_audited:
  assumes "resp_status st = None" and "events st = events st0"
  shows "audited st0 (storeFailure e w st)"
  using assms by (simp add: storeFailure_def)

lemma auditMutation_audited:
  assumes "resp_status st = None" and "events st = events st0"
    and "\<And>st. resp_status st = None \<Longrightarrow> resp_status (k st) \<in> successes \<and> a_store (global (k st)) = a_store (global st)"
  shows "audited st0 (auditMutation (recording mgr) pid a old new w st k)"
proof (cases "callStore (recordEvent mgr pid a ''admin_api'' old new) st")
  case (Pair x st')
  then have x: "resp_status st' = None"
      "events st' = (case x of Inl _ \<Rightarrow> events st | Inr _ \<Rightarrow> events st @ [(pid, a, ''admin_api'', old, new)])"
    using callStore_record [OF Pair] assms(1) by auto
  show ?thesis
  proof (cases x)
    case (Inl e)
    then show ?thesis
      using Pair x assms(2) by (simp add: auditMutation_def recording_def)
  next
    case (Inr u)
    then show ?thesis
      using Pair x assms(2) assms(3) [of st'] by (simp add: auditMutation_def recording_def audited_def)
  qed
qed

text \<open>A call of the store, and what the handler makes of its result.\<close>

lemma liftCall_audited:
  assumes "resp_status st = None"
    and "\<And>e st'. resp_status st' = None \<Longrightarrow> events st' = events st \<Longrightarrow> audited st (bad e st')"
    and "\<And>v st'. resp_status st' = None \<Longrightarrow> events st' = events st \<Longrightarrow> audited st (good v st')"
  shows "audited st (case callStore (liftS f) st of (Inl e, st) \<Rightarrow> bad e st | (Inr v, st) \<Rightarrow> good v st)"
proof (cases "callStore (liftS f) st")
  case (Pair x st')
  then show ?thesis
    using callStore_lift [OF Pair] assms by (cases x) simp_all
qed

lemma writeJSON_success:
  "resp_status st = None \<Longrightarrow> resp_status (writeJSON w v (setHeader h y st)) \<in> successes \<and>
   a_store (global (writeJSON w v (setHeader h y st))) = a_store (global st)"
  by (simp add: writeJSON_def setHeader_def)

lemma recording_table:
  "m_GetByID (recording mgr) = (\<lambda>k s. m_GetByID mgr k (fst s))"
  "m_Create (recording mgr) = (\<lambda>clk rec. liftS (m_Create mgr clk rec))"
  "m_SetEnabled (recording mgr) = (\<lambda>clk k b. liftS (m_SetEnabled mgr clk k b))"
  "m_SetRoles (recording mgr) = (\<lambda>clk k rs. liftS (m_SetRoles mgr clk k rs))"
  "m_SetAllowedCIDRs (recording mgr) = (\<lambda>clk k cs. liftS (m_SetAllowedCIDRs mgr clk k cs))"
  "m_UpdateHash (recording mgr) = (\<lambda>clk k h i. liftS (m_UpdateHash mgr clk k h i))"
  "m_Delete (recording mgr) = (\<lambda>k. liftS (m_Delete mgr k))"
  "m_DeleteExpired (recording mgr) = (\<lambda>t. liftS (m_DeleteExpired mgr t))"
  "m_SetExpiresAt (recording mgr) = (\<lambda>clk k e. liftS (m_SetExpiresAt mgr clk k e))"
  "m_AuditKeyEvent (recording mgr) = recordEvent mgr"
  by (simp_all add: recording_def)

lemmas audited_intros = storeFailure_audited auditMutation_audited writeJSON_success

lemma mutation_audited:
  "resp_status st = None \<Longrightarrow>
   audited st (case callStore (liftS f) st of (Inl e, st) \<Rightarrow> storeFailure e w st
     | (Inr _, st) \<Rightarrow> auditMutation (recording mgr) pid a old new w st (\<lambda>st. WriteHeader w 204 st))"
  by (rule liftCall_audited) (simp_all add: audited_intros)

lemma deleteKey_audited: "resp_status st = None \<Longrightarrow> audited st (deleteKey (recording mgr) env pid w r st)"
  unfolding deleteKey_def recording_table by (rule mutation_audited)

lemma setEnabled_audited: "resp_status st = None \<Longrightarrow> audited st (setEnabled (recording mgr) b env pid w r st)"
  unfolding setEnabled_def recording_table Let_def by (rule mutation_audited)

lemma setExpiry_audited:
  assumes "resp_status st = None"
  shows "audited st (setExpiry (recording mgr) env pid w r st)"
  using assms unfolding setExpiry_def recording_table
  by (simp add: mutation_audited split: option.split sum.split)

lemma updateRoles_audited:
  assumes "resp_status st = None"
  shows "audited st (updateRoles (recording mgr) env pid w r st)"
  using assms unfolding updateRoles_def recording_table
  by (simp add: mutation_audited split: option.split sum.split)

lemma updateAllowedCIDRs_audited:
  assumes "resp_status st = None"
  shows "audited st (updateAllowedCIDRs (recording mgr) env pid w r st)"
  using assms unfolding updateAllowedCIDRs_def recording_table Let_def
  by (simp add: mutation_audited split: option.split)

lemma rotateKey_audited:
  assumes "resp_status st = None"
  shows "audited st (rotateKey (recording mgr) keygen env pid w r st)"
proof -
  have "audited st (case callStore (liftS f) st of (Inl e, st) \<Rightarrow> storeFailure e w st
      | (Inr _, st) \<Rightarrow> auditMutation (recording mgr) pid a old new w st (\<lambda>st. writeJSON w v (setHeader h y st)))"
    for f :: "'a \<Rightarrow> unit sres \<times> 'a" and a old new v h y
    using assms by (rule liftCall_audited) (simp_all add: audited_intros)
  then show ?thesis
    using assms unfolding rotateKey_def recording_table
    by (simp split: option.split sum.split)
qed

lemma recordCall_audited:
  assumes "resp_status st = None" and "events st = events st0"
    and "\<And>e st'. resp_status st' = None \<Longrightarrow> events st' = events st0 \<Longrightarrow> audited st0 (bad e st')"
    and "\<And>st. resp_status st = None \<Longrightarrow> resp_status (good st) \<in> successes \<and> a_store (global (good st)) = a_store (global st)"
  shows "audited st0 (case callStore (recordEvent mgr k a ''admin_api'' old new) st of
     (Inl e, st) \<Rightarrow> bad e st | (Inr _, st) \<Rightarrow> good st)"
proof (cases "callStore (recordEvent mgr k a ''admin_api'' old new) st")
  case (Pair x st')
  then show ?thesis
    using callStore_record [OF Pair] assms(1,2) assms(3) [of st'] assms(4) [of st']
    by (cases x) (auto simp: audited_def)
qed

lemma purgeExpired_audited:
  assumes "resp_status st = None"
  shows "audited st (purgeExpired (recording mgr) env w r st)"
  unfolding purgeExpired_def recording_table
  using assms by (intro liftCall_audited recordCall_audited) (simp_all add: audited_intros)

lemma createAudited_audited:
  assumes "resp_status st = None" and "events st = events st0"
  shows "audited st0 (createAudited (recording mgr) keyID secret prin roles w st)"
  unfolding createAudited_def recording_table
proof (rule recordCall_audited [OF assms])
  fix e and st' :: "('a \<times> key_event list) Admin rstate"
  assume st': "resp_status st' = None" "events st' = events st0"
  show "audited st0 (case callStore (liftS (m_Delete mgr keyID)) st' of
      (Inl _, st) \<Rightarrow> http_Error w ''audit logging failed'' 500 (incInconsistency st)
    | (Inr _, st) \<Rightarrow> http_Error w ''audit logging failed'' 500 st)"
    using st' callStore_lift [of "m_Delete mgr keyID" st'] by (auto split: prod.split sum.split)
next
  fix st' :: "('a \<times> key_event list) Admin rstate"
  assume "resp_status st' = None"
  then show "resp_status (writeJSON w (JObj [(''id'', JStr keyID), (''secret'', JStr secret), (''principal'', JStr prin),
          (''roles'', jsonStrings roles)]) (WriteHeader w 201 (setHeader ''Content-Type'' ''application/json'' st'))) \<in> successes \<and>
      a_store (global (writeJSON w (JObj [(''id'', JStr keyID), (''secret'', JStr secret), (''principal'', JStr prin),
          (''roles'', jsonStrings roles)]) (WriteHeader w 201 (setHeader ''Content-Type'' ''application/json'' st')))) =
      a_store (global st')"
    by (simp add: writeJSON_def setHeader_def)
qed

lemma createKey_audited:
  assumes "resp_status st = None"
  shows "audited st (createKey (recording mgr) keygen env w r st)"
proof -
  have "audited st (case callStore (liftS f) st of (Inl _, st) \<Rightarrow> http_Error w ''internal error'' 500 st
      | (Inr _, st) \<Rightarrow> createAudited (recording mgr) keyID secret prin roles w st)"
    for f :: "'a \<Rightarrow> unit sres \<times> 'a" and keyID secret prin roles
    using assms by (rule liftCall_audited) (simp_all add: createAudited_audited)
  then show ?thesis
    using assms unfolding createKey_def recording_table Let_def
    by (simp split: option.split sum.split)
qed

lemmas handlers_audited = createKey_audited purgeExpired_audited deleteKey_audited setEnabled_audited
  updateRoles_audited rotateKey_audited updateAllowedCIDRs_audited setExpiry_audited

lemma withAuth_audited:
  assumes "resp_status st = None" and "audited st (next w r st)"
  shows "audited st (withAuth token next w r st)"
  using assms by (simp add: withAuth_def Let_def)

lemma adminRoutes_audited:
  assumes "p \<in> set (adminRoutes (recording mgr) keygen token env)" and "p_method p \<noteq> ''GET''"
    and "resp_status st = None"
  shows "audited st (p_handler p pid w r st)"
  using assms by (auto simp: adminRoutes_def route_def intro!: withAuth_audited handlers_audited)

lemma muxMatch_method:
  assumes "muxMatch ps m segs = Some p" and "m \<noteq> ''HEAD''"
  shows "p_method p = m"
  using assms by (auto simp: muxMatch_def split: option.splits dest!: mostSpecific_member)

text \<open>What a request can come to: a redirect, one of the handlers, or an error.\<close>

lemma ServeMux_outcome:
  assumes "\<And>path. P (WriteHeader w (e_redirect env) (setHeader ''Location'' path st))"
    and "\<And>p segs. muxMatch ps (r_Method r) segs = Some p \<Longrightarrow> P (p_handler p (pathValue (p_segments p) segs) w r st)"
    and "\<And>allow. P (http_Error w ''Method Not Allowed'' 405 (setHeader ''Allow'' allow st))"
    and "P (http_Error w ''404 page not found'' 404 st)"
  shows "P (ServeMux env ps w r st)"
  unfolding ServeMux_def Let_def using assms by (simp split: option.split)

lemma admin_Handler_audited:
  assumes "r_Method r \<notin> {''GET'', ''HEAD''}" and "resp_status st = None" and "Some (e_redirect env) \<notin> successes"
  shows "audited st (admin_Handler (recording mgr) keygen token env w r st)"
  unfolding admin_Handler_def
proof (rule ServeMux_outcome)
  fix p segs
  assume p: "muxMatch (adminRoutes (recording mgr) keygen token env) (r_Method r) segs = Some p"
  have "p_method p \<noteq> ''GET''"
    using muxMatch_method [OF p] assms(1) by simp
  then show "audited st (p_handler p (pathValue (p_segments p) segs) w r st)"
    using adminRoutes_audited [OF muxMatch_member [OF p]] assms(2) by blast
qed (use assms(2,3) in \<open>simp_all add: audited_def setHeader_def\<close>)

text \<open>
  C6: Every successful change through the admin API is audited, and only those: for every request
  with a method other than GET and HEAD, over every key manager, either the answer is a success
  (200, 201 or 204) and exactly one audit event was recorded, with the admin API as its author,
  or the answer is not a success and no event was recorded.  In particular no success is reported
  for a change whose audit event could not be written.
\<close>

theorem admin_changes_audited:
  assumes "r_Method r \<notin> {''GET'', ''HEAD''}" and "resp_status st = None" and "e_redirect env \<in> {301, 307}"
  shows "audited st (admin_NewServer (recording mgr) keygen adminToken env now w r st)"
proof -
  have red: "Some (e_redirect env) \<notin> successes"
    using assms(3) by (auto simp: successes_def)
  define l where "l = (\<lambda>x. st\<lparr>global := (global st)\<lparr>a_limiter := x\<rparr>\<rparr>)"
  have l: "resp_status (l x) = None" "events (l x) = events st" for x
    using assms(2) by (simp_all add: l_def)
  have sub: "audited (l x) st' \<Longrightarrow> audited st st'" for x st'
    by (simp add: audited_def l)
  have "audited st (maxBodyBytes adminMaxBodyBytes (admin_Handler (recording mgr) keygen adminToken env) w r (l x))" for x
    unfolding maxBodyBytes_def using assms(1) red l
    by (intro sub [of x] admin_Handler_audited) (auto split: body.split)
  then show ?thesis
    using l unfolding admin_NewServer_def withRateLimit_def Let_def
    by (simp add: l_def split: prod.split)
qed

theorem admin_changes_audited_witness:
  "audited (freshState (admin_init (NewStore, [])))
     (admin_NewServer (recording demoManager) demoKeygen ''tok'' demoEnv 0 RawWriter
       (demoAdminRequest ''POST'' ''/admin/keys'' ''Bearer tok'' ''{}'') (freshState (admin_init (NewStore, []))))"
  by (rule admin_changes_audited) (simp_all add: demoAdminRequest_def freshState_def demoEnv_def)

section \<open>Created keys work, revoked keys do not\<close>

lemma callStore_cases:
  "callStore f st = (x, st') \<Longrightarrow>
   (\<exists>s. f (a_store (global st)) = (x, s) \<and> st' = st\<lparr>global := (global st)\<lparr>a_store := s\<rparr>\<rparr>)"
  by (auto simp: callStore_def split: prod.splits)

definition creationAnswer :: "string \<Rightarrow> string \<Rightarrow> string \<Rightarrow> string list \<Rightarrow> json" where
  "creationAnswer keyID secret prin roles =
     JObj [(''id'', JStr keyID), (''secret'', JStr secret), (''principal'', JStr prin), (''roles'', jsonStrings roles)]"

lemma createAudited_201:
  assumes "resp_status st = None" and "resp_status (createAudited mgr keyID secret prin roles w st) = Some 201"
  shows "\<exists>s. m_AuditKeyEvent mgr keyID ''create'' ''admin_api'' JNull
        (JObj [(''principal'', JStr prin), (''roles'', jsonStrings roles)]) (a_store (global st)) = (Inr (), s) \<and>
    a_store (global (createAudited mgr keyID secret prin roles w st)) = s \<and>
    resp_body (createAudited mgr keyID secret prin roles w st) =
      resp_body st @ json_encode (creationAnswer keyID secret prin roles) @ [CHR 0x0A]"
proof (cases "callStore (m_AuditKeyEvent mgr keyID ''create'' ''admin_api'' JNull
    (JObj [(''principal'', JStr prin), (''roles'', jsonStrings roles)])) st")
  case (Pair x st1)
  then obtain s where s: "m_AuditKeyEvent mgr keyID ''create'' ''admin_api'' JNull
      (JObj [(''principal'', JStr prin), (''roles'', jsonStrings roles)]) (a_store (global st)) = (x, s)"
      "st1 = st\<lparr>global := (global st)\<lparr>a_store := s\<rparr>\<rparr>"
    using callStore_cases [OF Pair] by blast
  show ?thesis
  proof (cases x)
    case (Inl e)
    then have "resp_status (createAudited mgr keyID secret prin roles w st) \<noteq> Some 201"
      using Pair s(2) assms(1) callStore_cases [of "m_Delete mgr keyID" st1]
      by (auto simp: createAudited_def split: prod.split sum.split)
    with assms(2) show ?thesis by simp
  next
    case (Inr u)
    then show ?thesis
      using Pair s by (simp add: createAudited_def creationAnswer_def writeJSON_def setHeader_def del: json_encode.simps)
  qed
qed

lemma validateRoles_msg: "validateRoles v = Inl e \<Longrightarrow> e \<noteq> ''audit logging failed''"
proof -
  have "cleanRoles roles acc = Inl e \<Longrightarrow> e \<noteq> ''audit logging failed''" for roles acc
    by (induction roles acc rule: cleanRoles.induct) (auto simp: Let_def split: if_splits)
  then show "validateRoles v = Inl e \<Longrightarrow> e \<noteq> ''audit logging failed''"
    by (auto simp: validateRoles_def split: if_splits)
qed

lemma requestedExpiry_msg: "requestedExpiry now v = Inl e \<Longrightarrow> e \<noteq> ''audit logging failed''"
  by (auto simp: requestedExpiry_def split: option.splits if_splits)

text \<open>The answers of \<^verbatim>\<open>createKey\<close> that show that the key manager accepted the new key.\<close>

abbreviation past_create :: "'g rstate \<Rightarrow> 'g rstate \<Rightarrow> bool" where
  "past_create st st' \<equiv> resp_status st' = Some 201 \<or> resp_body st' = resp_body st @ ''audit logging failed'' @ [CHR 0x0A]"

lemma createKey_created:
  assumes "resp_status st = None" and "past_create st (createKey mgr keygen env w r st)"
  shows "\<exists>rec secret clk s1.
    kg_GenerateKeyID keygen = Some (KID rec) \<and> kg_GenerateSecret keygen = Some secret \<and>
    KeyHash rec = kg_Hash keygen secret \<and> HmacKeyID rec = kg_HmacKeyID keygen \<and>
    Enabled rec \<and> AllowedCIDRs rec = [] \<and> (\<forall>t. ExpiresAt rec = Some t \<longrightarrow> e_clk env 2 < t) \<and>
    m_Create mgr clk rec (a_store (global st)) = (Inr (), s1) \<and>
    createKey mgr keygen env w r st =
      createAudited mgr (KID rec) secret (KPrincipal rec) (KRoles rec) w (st\<lparr>global := (global st)\<lparr>a_store := s1\<rparr>\<rparr>)"
proof -
  let ?r0 = "\<lparr>cr_Principal = '''', cr_Roles = None, cr_ExpiresAt = None\<rparr>"
  from assms obtain req where req: "strictDecode createKeyFields r ?r0 = Some req"
    by (cases "strictDecode createKeyFields r ?r0") (simp_all add: createKey_def)
  have ok: "cr_Principal req \<noteq> ''''" "\<not> maxPrincipalLen < int (length (cr_Principal req))"
    using assms req by (auto simp: createKey_def split: if_splits)
  obtain roles where roles: "validateRoles (go_slice (cr_Roles req)) = Inr roles"
    using assms req ok validateRoles_msg
    by (cases "validateRoles (go_slice (cr_Roles req))") (fastforce simp: createKey_def)+
  obtain keyID where keyID: "kg_GenerateKeyID keygen = Some keyID"
    using assms req ok roles by (cases "kg_GenerateKeyID keygen") (simp_all add: createKey_def)
  obtain secret where secret: "kg_GenerateSecret keygen = Some secret"
    using assms req ok roles keyID by (cases "kg_GenerateSecret keygen") (simp_all add: createKey_def)
  obtain expires where expires: "requestedExpiry (e_clk env 2) (cr_ExpiresAt req) = Inr expires"
    using assms req ok roles keyID secret requestedExpiry_msg
    by (cases "requestedExpiry (e_clk env 2) (cr_ExpiresAt req)") (fastforce simp: createKey_def)+
  define rec where "rec = \<lparr>KID = keyID, KeyHash = kg_Hash keygen secret, HmacKeyID = kg_HmacKeyID keygen,
    KPrincipal = cr_Principal req, KRoles = roles, AllowedCIDRs = [], Enabled = True, ExpiresAt = expires,
    CreatedAt = e_clk env 0, UpdatedAt = e_clk env 1\<rparr>"
  have eq: "createKey mgr keygen env w r st =
      (case callStore (m_Create mgr (\<lambda>n. e_clk env (3 + n)) rec) st of
         (Inl _, st) \<Rightarrow> http_Error w ''internal error'' 500 st
       | (Inr _, st) \<Rightarrow> createAudited mgr keyID secret (cr_Principal req) roles w st)"
    using req ok roles keyID secret expires by (simp add: createKey_def rec_def)
  obtain x s1 where x: "m_Create mgr (\<lambda>n. e_clk env (3 + n)) rec (a_store (global st)) = (x, s1)"
    by (cases "m_Create mgr (\<lambda>n. e_clk env (3 + n)) rec (a_store (global st))")
  then have "x = Inr ()"
    using assms eq by (cases x) (simp_all add: callStore_def)
  moreover have "\<forall>t. expires = Some t \<longrightarrow> e_clk env 2 < t"
    using expires by (auto simp: requestedExpiry_def split: option.splits if_splits)
  ultimately show ?thesis
    using eq x keyID secret
    by (intro exI [of _ rec] exI [of _ secret] exI [of _ "\<lambda>n. e_clk env (3 + n)"] exI [of _ s1])
       (simp add: callStore_def, simp add: rec_def)
qed

lemma created_key_admitted:
  assumes "Enabled rec" and "AllowedCIDRs rec = []" and "KeyHash rec = Hash g secret" and "HmacKeyID rec = hmacKeyID g"
    and "GenerateKeyID rand1 = Some (KID rec)" and "GenerateSecret rand2 = Some secret"
    and "secretMap h (hmacKeyID g) = Some (hmacSecret g)" and "hmacSecret g \<noteq> ''''"
    and "header_Get (r_Header q) ''X-API-Key'' = KID rec @ CHR '':'' # secret"
    and "\<forall>t. ExpiresAt rec = Some t \<longrightarrow> now \<le> t"
    and "getByID (KID rec) (global st) = Inr (Some (rec\<lparr>CreatedAt := c, UpdatedAt := u\<rparr>))"
  shows "authn_Middleware getByID (Authenticate h) resolver now next w q st = next w (admitted q rec) st"
proof -
  have "CHR '':'' \<notin> set (KID rec)" "KID rec \<noteq> ''''" "secret \<noteq> ''''"
    using assms(5,6) hex_Encode_no_colon by (auto simp: GenerateKeyID_def GenerateSecret_def dest!: sym [of _ "KID rec"])
  moreover have "key_grants h resolver now q secret (rec\<lparr>CreatedAt := c, UpdatedAt := u\<rparr>)"
    using assms(1-4,7,8,10) by (simp add: key_grants_def source_allowed_def secret_matches_def Hash_def hex_Decode_Encode)
  ultimately show ?thesis
    using authn_Middleware_found [OF assms(9), of getByID st] assms(11) by simp
qed

text \<open>
  C7: A key that the admin API creates can be used: over every key manager that meets the contract,
  if the answer to a creation is 201, then its body gives the key ID and the secret of a record that
  was not in the store before, and (for roles and an expiry that the store can represent) every later
  request that presents them, before the expiry, passes authentication at the gateway with exactly
  the principal and the roles of the answer.
\<close>

theorem admin_created_key_works:
  assumes "key_manager mgr view invar storable storable_time" and "invar (a_store (global st))"
    and "resp_status st = None"
    and "resp_status (createKey mgr (hmac_KeyGenerator g rand1 rand2) env w r st) = Some 201"
    and "secretMap h (hmacKeyID g) = Some (hmacSecret g)" and "hmacSecret g \<noteq> ''''"
  shows "\<exists>rec secret.
    resp_body (createKey mgr (hmac_KeyGenerator g rand1 rand2) env w r st) =
      resp_body st @ json_encode (creationAnswer (KID rec) secret (KPrincipal rec) (KRoles rec)) @ [CHR 0x0A] \<and>
    view (a_store (global st)) (KID rec) = None \<and>
    (list_all storable (KRoles rec) \<and> pred_option storable_time (ExpiresAt rec) \<longrightarrow>
      (\<forall>q st2 now next w2 resolver found.
         header_Get (r_Header q) ''X-API-Key'' = KID rec @ CHR '':'' # secret \<and>
         global st2 = a_store (global (createKey mgr (hmac_KeyGenerator g rand1 rand2) env w r st)) \<and>
         m_GetByID mgr (KID rec) (global st2) = Inr found \<and> (\<forall>t. ExpiresAt rec = Some t \<longrightarrow> now \<le> t) \<longrightarrow>
         authn_Middleware (m_GetByID mgr) (Authenticate h) resolver now next w2 q st2 =
           next w2 (admitted q rec) st2))"
proof -
  let ?kg = "hmac_KeyGenerator g rand1 rand2"
  note km = assms(1)
  obtain rec secret clk s1 where rec: "kg_GenerateKeyID ?kg = Some (KID rec)" "kg_GenerateSecret ?kg = Some secret"
      "KeyHash rec = kg_Hash ?kg secret" "HmacKeyID rec = kg_HmacKeyID ?kg" "Enabled rec" "AllowedCIDRs rec = []"
      "m_Create mgr clk rec (a_store (global st)) = (Inr (), s1)"
      "createKey mgr ?kg env w r st = createAudited mgr (KID rec) secret (KPrincipal rec) (KRoles rec) w
         (st\<lparr>global := (global st)\<lparr>a_store := s1\<rparr>\<rparr>)"
    using createKey_created [of st mgr ?kg env w r] assms(3,4) by blast
  obtain old new s2 where s2: "m_AuditKeyEvent mgr (KID rec) ''create'' ''admin_api'' old new s1 = (Inr (), s2)"
      "a_store (global (createKey mgr ?kg env w r st)) = s2"
      "resp_body (createKey mgr ?kg env w r st) =
        resp_body st @ json_encode (creationAnswer (KID rec) secret (KPrincipal rec) (KRoles rec)) @ [CHR 0x0A]"
    using createAudited_201 [of "st\<lparr>global := (global st)\<lparr>a_store := s1\<rparr>\<rparr>" mgr "KID rec" secret "KPrincipal rec" "KRoles rec" w]
      assms(3,4) rec(8) by auto
  have inv1: "invar s1"
    using key_manager.call_invar [OF km assms(2), of clk "CallCreate rec"] rec(7) by simp
  then have inv2: "invar s2"
    using key_manager.call_invar [OF km, of s1 clk "CallAuditKeyEvent (KID rec) ''create'' ''admin_api'' old new"] s2(1)
    by simp
  have view2: "view s2 = view s1"
    using key_manager.AuditKeyEvent_view [OF km inv1, of "KID rec" "''create''" "''admin_api''" old new] s2(1) by simp
  show ?thesis
  proof (intro exI conjI impI allI)
    show "resp_body (createKey mgr ?kg env w r st) =
        resp_body st @ json_encode (creationAnswer (KID rec) secret (KPrincipal rec) (KRoles rec)) @ [CHR 0x0A]"
      by (rule s2(3))
    show "view (a_store (global st)) (KID rec) = None"
      using key_manager.Create_frame [OF km assms(2) rec(7)] by simp
  next
    fix q :: http_request and st2 :: "'a rstate" and now "next" w2 resolver found
    assume st: "list_all storable (KRoles rec) \<and> pred_option storable_time (ExpiresAt rec)"
      and q: "header_Get (r_Header q) ''X-API-Key'' = KID rec @ CHR '':'' # secret \<and>
        global st2 = a_store (global (createKey mgr ?kg env w r st)) \<and>
        m_GetByID mgr (KID rec) (global st2) = Inr found \<and> (\<forall>t. ExpiresAt rec = Some t \<longrightarrow> now \<le> t)"
    obtain c u where "view s1 = (view (a_store (global st)))(KID rec \<mapsto> rec\<lparr>CreatedAt := c, UpdatedAt := u\<rparr>)"
      using key_manager.Create_view [OF km assms(2) _ _ rec(7)] st rec(6) by auto
    then have "m_GetByID mgr (KID rec) (global st2) = Inr (Some (rec\<lparr>CreatedAt := c, UpdatedAt := u\<rparr>))"
      using q s2(2) view2 key_store.GetByID_view [OF key_manager.axioms(1) [OF km] inv2] by fastforce
    then show "authn_Middleware (m_GetByID mgr) (Authenticate h) resolver now next w2 q st2 = next w2 (admitted q rec) st2"
      using rec q assms(5,6) by (intro created_key_admitted) (simp_all add: hmac_KeyGenerator_def)
  qed
qed

definition demoCreate :: http_request where
  \<open>demoCreate = demoAdminRequest ''POST'' ''/admin/keys'' ''Bearer tok'' ''{"principal":"bob","roles":[" admin "]}''\<close>

lemma demoCreate_decode:
  "strictDecode createKeyFields demoCreate \<lparr>cr_Principal = '''', cr_Roles = None, cr_ExpiresAt = None\<rparr> =
     Some \<lparr>cr_Principal = ''bob'', cr_Roles = Some (['' admin ''], 1), cr_ExpiresAt = None\<rparr>"
  by code_simp

text \<open>An answer of 204 means that the store accepted the change and the event.\<close>

lemma mutation_204:
  assumes "resp_status st = None"
    and "resp_status (case callStore f st of (Inl e, st) \<Rightarrow> storeFailure e w st
      | (Inr _, st) \<Rightarrow> auditMutation mgr pid a old new w st (\<lambda>st. WriteHeader w 204 st)) = Some 204"
  shows "\<exists>u s1 s2. f (a_store (global st)) = (Inr u, s1) \<and>
    m_AuditKeyEvent mgr pid a ''admin_api'' old new s1 = (Inr (), s2) \<and>
    a_store (global (case callStore f st of (Inl e, st) \<Rightarrow> storeFailure e w st
      | (Inr _, st) \<Rightarrow> auditMutation mgr pid a old new w st (\<lambda>st. WriteHeader w 204 st))) = s2"
proof -
  obtain x s1 where x: "f (a_store (global st)) = (x, s1)" by (cases "f (a_store (global st))")
  then obtain u where u: "x = Inr u"
    using assms by (cases x) (auto simp: callStore_def storeFailure_def split: if_splits)
  obtain y s2 where y: "m_AuditKeyEvent mgr pid a ''admin_api'' old new s1 = (y, s2)"
    by (cases "m_AuditKeyEvent mgr pid a ''admin_api'' old new s1")
  then have "y = Inr ()"
    using assms x u by (cases y) (simp_all add: callStore_def auditMutation_def)
  then show ?thesis
    using x u y by (simp add: callStore_def auditMutation_def)
qed

lemma authn_revoked:
  assumes "strings_Cut (header_Get (r_Header q) ''X-API-Key'') CHR '':'' = Some (pid, secret)"
    and "\<And>rec. getByID pid (global st) = Inr (Some rec) \<Longrightarrow> \<not> Enabled rec"
  shows "is_rejection w st (authn_Middleware getByID (Authenticate h) resolver now next w q st)"
proof (rule authn_Middleware_cases [of w st getByID "Authenticate h" resolver now "next" q])
  fix keyID secret' rec
  assume q: "header_Get (r_Header q) ''X-API-Key'' = keyID @ CHR '':'' # secret'" "CHR '':'' \<notin> set keyID"
    "keyID \<noteq> ''''" "secret' \<noteq> ''''" "getByID keyID (global st) = Inr (Some rec)"
  then have "keyID = pid"
    using assms(1) strings_Cut_append [OF q(2), of secret'] by simp
  then have "\<not> key_grants h resolver now q secret' rec"
    using assms(2) q(5) by (simp add: key_grants_def)
  then show ?thesis
    using authn_Middleware_found [OF q(1-4), of getByID st rec] q(5) by simp
qed

text \<open>
  C8: Revoking a key takes effect with the answer: over every key manager that meets the contract,
  once the admin API has answered 204 to the deletion or the disabling of a key, a request that
  presents this key is rejected by the authentication at the gateway, whatever its secret, and no
  later handler sees it.
\<close>

theorem admin_revoked_key_rejected:
  assumes "key_manager mgr view invar storable storable_time" and "invar (a_store (global st))"
    and "resp_status st = None"
    and "st' = deleteKey mgr env pid w r st \<or> st' = setEnabled mgr False env pid w r st"
    and "resp_status st' = Some 204"
    and "global st2 = a_store (global st')"
    and "strings_Cut (header_Get (r_Header q) ''X-API-Key'') CHR '':'' = Some (pid, secret)"
  shows "is_rejection w2 st2 (authn_Middleware (m_GetByID mgr) (Authenticate h) resolver now next w2 q st2)"
proof -
  note km = assms(1)
  have view: "invar (a_store (global st')) \<and> (\<forall>rec. view (a_store (global st')) pid = Some rec \<longrightarrow> \<not> Enabled rec)"
    using assms(4)
  proof
    assume st': "st' = deleteKey mgr env pid w r st"
    obtain u s1 s2 where s: "m_Delete mgr pid (a_store (global st)) = (Inr u, s1)"
        "m_AuditKeyEvent mgr pid ''delete'' ''admin_api'' JNull JNull s1 = (Inr (), s2)" "a_store (global st') = s2"
      using mutation_204 [OF assms(3) assms(5) [unfolded st' deleteKey_def]] by (auto simp: st' deleteKey_def)
    have inv1: "invar s1"
      using key_manager.call_invar [OF km assms(2), of undefined "CallDelete pid"] s(1) by simp
    then show ?thesis
      using key_manager.call_invar [OF km inv1, of undefined "CallAuditKeyEvent pid ''delete'' ''admin_api'' JNull JNull"]
        key_manager.AuditKeyEvent_view [OF km inv1, of pid "''delete''" "''admin_api''" JNull JNull]
        key_manager.Delete_view [OF km assms(2), of pid s1] s by simp
  next
    assume st': "st' = setEnabled mgr False env pid w r st"
    let ?new = "JObj [(''enabled'', JBool False)]"
    have disable: "st' = (case callStore (m_SetEnabled mgr (e_clk env) pid False) st of
        (Inl e, st) \<Rightarrow> storeFailure e w st
      | (Inr _, st) \<Rightarrow> auditMutation mgr pid ''disable'' JNull ?new w st (\<lambda>st. WriteHeader w 204 st))"
      by (simp add: st' setEnabled_def Let_def split: prod.split sum.split)
    obtain u s1 s2 where s: "m_SetEnabled mgr (e_clk env) pid False (a_store (global st)) = (Inr u, s1)"
        "m_AuditKeyEvent mgr pid ''disable'' ''admin_api'' JNull ?new s1 = (Inr (), s2)" "a_store (global st') = s2"
      using mutation_204 [OF assms(3) assms(5) [unfolded disable]] unfolding disable by blast
    have inv1: "invar s1"
      using key_manager.call_invar [OF km assms(2), of "e_clk env" "CallSetEnabled pid False"] s(1) by simp
    then show ?thesis
      using key_manager.call_invar [OF km inv1, of undefined "CallAuditKeyEvent pid ''disable'' ''admin_api'' JNull ?new"]
        key_manager.AuditKeyEvent_view [OF km inv1, of pid "''disable''" "''admin_api''" JNull ?new]
        key_manager.SetEnabled_view [OF km assms(2), of "e_clk env" pid False s1] s by auto
  qed
  have "\<not> Enabled rec" if "m_GetByID mgr pid (global st2) = Inr (Some rec)" for rec
  proof -
    have "Some rec = view (a_store (global st')) pid"
      using key_store.GetByID_view [OF key_manager.axioms(1) [OF km]] view that assms(6) by metis
    with view show ?thesis by metis
  qed
  then show ?thesis
    by (rule authn_revoked [OF assms(7)])
qed

text \<open>
  C9: A creation that cannot be audited is taken back: over every key manager that meets the
  contract, if the creation of a key is answered with the failure of the audit log and the
  inconsistency counter did not move, the store holds exactly the keys it held before.
\<close>

theorem admin_create_compensated:
  assumes "key_manager mgr view invar storable storable_time" and "invar (a_store (global st))"
    and "resp_status st = None"
    and "resp_body (createKey mgr keygen env w r st) = resp_body st @ ''audit logging failed'' @ [CHR 0x0A]"
    and "a_inconsistency (global (createKey mgr keygen env w r st)) = a_inconsistency (global st)"
  shows "view (a_store (global (createKey mgr keygen env w r st))) = view (a_store (global st))"
proof -
  note km = assms(1)
  obtain rec secret clk s1 where rec: "m_Create mgr clk rec (a_store (global st)) = (Inr (), s1)"
      "createKey mgr keygen env w r st = createAudited mgr (KID rec) secret (KPrincipal rec) (KRoles rec) w
         (st\<lparr>global := (global st)\<lparr>a_store := s1\<rparr>\<rparr>)"
    using createKey_created [of st mgr keygen env w r] assms(3,4) by blast
  let ?new = "JObj [(''principal'', JStr (KPrincipal rec)), (''roles'', jsonStrings (KRoles rec))]"
  have inv1: "invar s1"
    using key_manager.call_invar [OF km assms(2), of clk "CallCreate rec"] rec(1) by simp
  obtain x s2 where x: "m_AuditKeyEvent mgr (KID rec) ''create'' ''admin_api'' JNull ?new s1 = (x, s2)"
    by (cases "m_AuditKeyEvent mgr (KID rec) ''create'' ''admin_api'' JNull ?new s1")
  have inv2: "invar s2" and view2: "view s2 = view s1"
    using key_manager.call_invar [OF km inv1, of clk "CallAuditKeyEvent (KID rec) ''create'' ''admin_api'' JNull ?new"]
      key_manager.AuditKeyEvent_view [OF km inv1, of "KID rec" "''create''" "''admin_api''" JNull ?new] x by simp_all
  obtain y s3 where y: "m_Delete mgr (KID rec) s2 = (y, s3)" by (cases "m_Delete mgr (KID rec) s2")
  have "\<exists>e. x = Inl e"
    using assms(4) rec(2) x by (cases x) (auto simp: createAudited_def callStore_def writeJSON_def setHeader_def)
  then have "y = Inr () \<and> a_store (global (createKey mgr keygen env w r st)) = s3"
    using assms(5) rec(2) x y by (cases y) (auto simp: createAudited_def callStore_def incInconsistency_def)
  then show ?thesis
    using key_manager.Delete_view [OF km inv2, of "KID rec" s3] key_manager.Create_frame [OF km assms(2) rec(1)] y view2
    by auto
qed

section \<open>Witnesses\<close>

lemma mem_key_manager: "key_manager demoManager keys store_wf (\<lambda>_. True) (\<lambda>_. True)"
  by unfold_locales

abbreviation demoState :: "Store \<Rightarrow> Store Admin rstate" where
  "demoState m \<equiv> freshState (admin_init m)"

lemma demoRoles: "validateRoles (go_slice (Some (['' admin ''], Suc 0))) = Inr [''admin'']"
  by code_simp

lemma demoKeygen_IDs:
  "kg_GenerateKeyID demoKeygen = Some ''k_4142434445464748''" "kg_GenerateSecret demoKeygen \<noteq> None"
  by code_simp+

lemma demoCreate_run:
  "\<exists>rec secret. KID rec = ''k_4142434445464748'' \<and>
     createKey mgr demoKeygen demoEnv w demoCreate st =
       (case callStore (m_Create mgr (\<lambda>n. e_clk demoEnv (3 + n)) rec) st of
          (Inl _, st) \<Rightarrow> http_Error w ''internal error'' 500 st
        | (Inr _, st) \<Rightarrow> createAudited mgr (KID rec) secret ''bob'' [''admin''] w st)"
proof -
  obtain secret where "kg_GenerateSecret demoKeygen = Some secret"
    using demoKeygen_IDs(2) by blast
  then show ?thesis
    unfolding createKey_def demoCreate_decode
    by (intro exI [of _ "\<lparr>KID = ''k_4142434445464748'', KeyHash = kg_Hash demoKeygen secret,
          HmacKeyID = kg_HmacKeyID demoKeygen, KPrincipal = ''bob'', KRoles = [''admin''], AllowedCIDRs = [],
          Enabled = True, ExpiresAt = None, CreatedAt = e_clk demoEnv 0, UpdatedAt = e_clk demoEnv 1\<rparr>"]
        exI [of _ secret])
       (simp add: maxPrincipalLen_def demoRoles demoKeygen_IDs(1) requestedExpiry_def Let_def
        split: prod.split sum.split)
qed

lemma demoCreate_201:
  "resp_status (createKey demoManager demoKeygen demoEnv RawWriter demoCreate (demoState NewStore)) = Some 201"
proof -
  obtain rec secret where *: "createKey demoManager demoKeygen demoEnv RawWriter demoCreate (demoState NewStore) =
      (case callStore (m_Create demoManager (\<lambda>n. e_clk demoEnv (3 + n)) rec) (demoState NewStore) of
          (Inl _, st) \<Rightarrow> http_Error RawWriter ''internal error'' 500 st
        | (Inr _, st) \<Rightarrow> createAudited demoManager (KID rec) secret ''bob'' [''admin''] RawWriter st)"
    using demoCreate_run [of demoManager RawWriter "demoState NewStore"] by blast
  show ?thesis
    unfolding *
    by (simp add: callStore_def Create_def AuditKeyEvent_def createAudited_def freshState_def admin_init_def NewStore_def
        writeJSON_def setHeader_def Let_def)
qed

theorem admin_created_key_works_witness:
  "\<exists>(rec :: KeyRecord) secret.
    resp_body (createKey demoManager demoKeygen demoEnv RawWriter demoCreate (demoState NewStore)) =
      resp_body (demoState NewStore) @ json_encode (creationAnswer (KID rec) secret (KPrincipal rec) (KRoles rec)) @ [CHR 0x0A]"
proof -
  have h: "secretMap \<lparr>secretMap = [''v1'' \<mapsto> ''s3cret'']\<rparr> (hmacKeyID (NewGenerator ''v1'' ''s3cret'')) =
      Some (hmacSecret (NewGenerator ''v1'' ''s3cret''))"
    by (simp add: NewGenerator_def)
  have wf: "store_wf (a_store (global (demoState NewStore)))"
    using store_wf_NewStore by (simp add: freshState_def admin_init_def)
  have st: "resp_status (demoState NewStore) = None" "hmacSecret (NewGenerator ''v1'' ''s3cret'') \<noteq> ''''"
    by (simp_all add: freshState_def NewGenerator_def)
  show ?thesis
    using admin_created_key_works [OF mem_key_manager wf st(1) demoCreate_201 [unfolded demoKeygen_def] h st(2)]
    unfolding demoKeygen_def by blast
qed

definition demoStore :: Store where
  "demoStore = \<lparr>keys = [''k1'' \<mapsto> sampleKey ''k1'' ''bob'' None]\<rparr>"

lemma demoStore_wf: "store_wf demoStore"
  by (simp add: store_wf_def demoStore_def)

theorem admin_revoked_key_rejected_witness:
  "is_rejection RawWriter (freshState \<lparr>keys = (\<lambda>_. None)\<rparr>)
     (authn_Middleware (m_GetByID demoManager) (Authenticate demoService) \<lparr>trusted = []\<rparr> 0
       (\<lambda>w r st. st) RawWriter (demoRequest ''k1:pdg_x'') (freshState \<lparr>keys = (\<lambda>_. None)\<rparr>))"
proof (rule admin_revoked_key_rejected [OF mem_key_manager, where pid = "''k1''" and secret = "''pdg_x''"])
  show "store_wf (a_store (global (demoState demoStore)))"
    using demoStore_wf by (simp add: freshState_def admin_init_def)
  show "resp_status (demoState demoStore) = None"
    by (simp add: freshState_def)
  show "deleteKey demoManager demoEnv ''k1'' RawWriter demoCreate (demoState demoStore) =
      deleteKey demoManager demoEnv ''k1'' RawWriter demoCreate (demoState demoStore) \<or>
    deleteKey demoManager demoEnv ''k1'' RawWriter demoCreate (demoState demoStore) =
      setEnabled demoManager False demoEnv ''k1'' RawWriter demoCreate (demoState demoStore)"
    by simp
  have del: "Delete ''k1'' demoStore = (Inr (), \<lparr>keys = (\<lambda>_. None)\<rparr>)"
    by (simp add: Delete_def demoStore_def fun_eq_iff)
  show "resp_status (deleteKey demoManager demoEnv ''k1'' RawWriter demoCreate (demoState demoStore)) = Some 204"
    using del by (simp add: deleteKey_def callStore_def auditMutation_def AuditKeyEvent_def freshState_def admin_init_def)
  show "global (freshState \<lparr>keys = (\<lambda>_. None)\<rparr>) =
      a_store (global (deleteKey demoManager demoEnv ''k1'' RawWriter demoCreate (demoState demoStore)))"
    using del by (simp add: deleteKey_def callStore_def auditMutation_def AuditKeyEvent_def freshState_def admin_init_def)
  show "strings_Cut (header_Get (r_Header (demoRequest ''k1:pdg_x'')) ''X-API-Key'') CHR '':'' = Some (''k1'', ''pdg_x'')"
    using demoRequest_header [of "''k1''" "''pdg_x''"] by simp
qed

text \<open>A store that cannot write audit events.\<close>

definition noAudit :: "Store KeyManager \<Rightarrow> Store KeyManager" where
  "noAudit mgr = mgr\<lparr>m_AuditKeyEvent := (\<lambda>_ _ _ _ _ m. (Inl (StoreError ''down''), m))\<rparr>"

lemma noAudit_table [simp]:
  "m_GetByID (noAudit mgr) = m_GetByID mgr" "m_Create (noAudit mgr) = m_Create mgr"
  "m_SetEnabled (noAudit mgr) = m_SetEnabled mgr" "m_SetRoles (noAudit mgr) = m_SetRoles mgr"
  "m_SetAllowedCIDRs (noAudit mgr) = m_SetAllowedCIDRs mgr" "m_UpdateHash (noAudit mgr) = m_UpdateHash mgr"
  "m_Delete (noAudit mgr) = m_Delete mgr" "m_DeleteExpired (noAudit mgr) = m_DeleteExpired mgr"
  "m_SetExpiresAt (noAudit mgr) = m_SetExpiresAt mgr"
  "m_AuditKeyEvent (noAudit mgr) k a c old new m = (Inl (StoreError ''down''), m)"
  by (simp_all add: noAudit_def)

lemma noAudit_step:
  "call_step (noAudit mgr) clk c s = s \<or> call_step (noAudit mgr) clk c s = call_step mgr clk c s"
  by (cases c) (simp_all add: noAudit_def)

lemma noAudit_key_manager:
  assumes "key_manager mgr keys invar storable storable_time"
  shows "key_manager (noAudit mgr) keys invar storable storable_time"
proof (unfold_locales, goal_cases)
  case (1 s k r)
  then show ?case
    using key_store.GetByID_view [OF key_manager.axioms(1) [OF assms], of s k r] by simp
next
  case (2 s clk c)
  then show ?case
    using key_manager.call_invar [OF assms 2] noAudit_step [of mgr clk c s] by auto
next
  case (3 s clk rec s')
  then show ?case using key_manager.Create_frame [OF assms, of s clk rec s'] by simp
next
  case (4 s rec clk s')
  then show ?case using key_manager.Create_view [OF assms, of s rec clk s'] by simp
next
  case (5 s clk k b s')
  then show ?case using key_manager.SetEnabled_view [OF assms, of s clk k b s'] by simp
next
  case (6 s rs clk k s')
  then show ?case using key_manager.SetRoles_view [OF assms, of s rs clk k s'] by simp
next
  case (7 s cs clk k s')
  then show ?case using key_manager.SetAllowedCIDRs_view [OF assms, of s cs clk k s'] by simp
next
  case (8 s clk k h i s')
  then show ?case using key_manager.UpdateHash_view [OF assms, of s clk k h i s'] by simp
next
  case (9 s e clk k s')
  then show ?case using key_manager.SetExpiresAt_view [OF assms, of s e clk k s'] by simp
next
  case (10 s k s')
  then show ?case using key_manager.Delete_view [OF assms, of s k s'] by simp
next
  case (11 s t n s')
  then show ?case using key_manager.DeleteExpired_view [OF assms, of s t n s'] by simp
next
  case (12 s k a chg old new)
  then show ?case by simp
qed

theorem admin_create_compensated_witness:
  "keys (a_store (global (createKey (noAudit demoManager) demoKeygen demoEnv RawWriter demoCreate (demoState demoStore)))) =
     keys (a_store (global (demoState demoStore)))"
proof (rule admin_create_compensated [OF noAudit_key_manager [OF mem_key_manager]])
  show "store_wf (a_store (global (demoState demoStore)))"
    using demoStore_wf by (simp add: freshState_def admin_init_def)
  show "resp_status (demoState demoStore) = None"
    by (simp add: freshState_def)
  let ?st = "createKey (noAudit demoManager) demoKeygen demoEnv RawWriter demoCreate (demoState demoStore)"
  obtain rec secret where rec: "KID rec = ''k_4142434445464748''" "?st =
      (case callStore (m_Create (noAudit demoManager) (\<lambda>n. e_clk demoEnv (3 + n)) rec) (demoState demoStore) of
          (Inl _, st) \<Rightarrow> http_Error RawWriter ''internal error'' 500 st
        | (Inr _, st) \<Rightarrow> createAudited (noAudit demoManager) (KID rec) secret ''bob'' [''admin''] RawWriter st)"
    using demoCreate_run [of "noAudit demoManager" RawWriter "demoState demoStore"] by blast
  show "resp_body ?st = resp_body (demoState demoStore) @ ''audit logging failed'' @ [CHR 0x0A]"
    unfolding rec(2)
    by (simp add: rec(1) callStore_def Create_def Delete_def createAudited_def freshState_def admin_init_def demoStore_def)
  show "a_inconsistency (global ?st) = a_inconsistency (global (demoState demoStore))"
    unfolding rec(2)
    by (simp add: rec(1) callStore_def Create_def Delete_def createAudited_def freshState_def admin_init_def demoStore_def)
qed

section \<open>What the decoder lets through\<close>

text \<open>
  Findings.  \<^verbatim>\<open>strictDecode\<close> means to refuse trailing data, but \<^verbatim>\<open>Decoder.More\<close> reports none before a closing
  bracket or brace, so those pass.  A body of \<^verbatim>\<open>null\<close>, an empty object, or a field that is null decodes as
  if the field were absent; for the two replacing operations this means to clear it: the expiry is
  removed, and the key may be used from every network again.
\<close>

lemma strictDecode_trailing:
  "strictDecode setExpiryFields (demoAdminRequest ''PATCH'' ''/admin/keys/k1/expiry'' ''Bearer tok'' ''{} }]}'') None = Some None \<and>
   strictDecode setExpiryFields (demoAdminRequest ''PATCH'' ''/admin/keys/k1/expiry'' ''Bearer tok'' ''null'') None = Some None"
  by code_simp

definition pinnedKey :: KeyRecord where
  "pinnedKey = (sampleKey ''k1'' ''bob'' (Some 100))\<lparr>AllowedCIDRs := [''10.0.0.0/8'']\<rparr>"

lemma null_clears_restrictions:
  "(\<forall>r \<in> {demoAdminRequest ''PUT'' ''/admin/keys/k1/allowed-cidrs'' ''Bearer tok'' ''null'',
         demoAdminRequest ''PUT'' ''/admin/keys/k1/allowed-cidrs'' ''Bearer tok'' ''{}''}.
     map_option AllowedCIDRs (keys (a_store (global
       (updateAllowedCIDRs demoManager demoEnv ''k1'' RawWriter r
         (demoState \<lparr>keys = [''k1'' \<mapsto> pinnedKey]\<rparr>)))) ''k1'') = Some [])"
proof -
  have dec: "strictDecode updateAllowedCIDRsFields (demoAdminRequest ''PUT'' ''/admin/keys/k1/allowed-cidrs'' ''Bearer tok'' ''null'') None = Some None"
    "strictDecode updateAllowedCIDRsFields (demoAdminRequest ''PUT'' ''/admin/keys/k1/allowed-cidrs'' ''Bearer tok'' ''{}'') None = Some None"
    by code_simp+
  have "map_option AllowedCIDRs (keys (a_store (global
       (updateAllowedCIDRs demoManager demoEnv ''k1'' RawWriter r
         (demoState \<lparr>keys = [''k1'' \<mapsto> pinnedKey]\<rparr>)))) ''k1'') = Some []"
    if "strictDecode updateAllowedCIDRsFields r None = Some None" for r
    using that
    by (simp add: updateAllowedCIDRs_def go_slice_def maxAllowedCIDRs_def callStore_def SetAllowedCIDRs_def
        auditMutation_def AuditKeyEvent_def freshState_def admin_init_def)
  then show ?thesis using dec by simp
qed

text \<open>
  Finding: an expiry sweep whose audit event cannot be written does not move the inconsistency
  counter, as every other change does.
\<close>

lemma purge_uncounted:
  "a_inconsistency (global (purgeExpired (noAudit demoManager) env w r st)) = a_inconsistency (global st)"
  by (auto simp: purgeExpired_def callStore_def DeleteExpired_def split: prod.split)

end
