(* ===== verification/Letsencrypt.thy ===== *)
theory Letsencrypt
  imports Plugins Json_Decode
begin

text \<open>
  The plugin \<^verbatim>\<open>src/plugins/letsencrypt_dns_challenger\<close>, which lets an ACME client set challenge
  records: it decodes the body of the request and looks the names up.  \<open>lookupHost i\<close> and
  \<open>lookupCNAME i\<close> are what the resolver answers for the \<open>i\<close>-th record set of the request
  (\<^const>\<open>None\<close> an error or a timeout), \<open>jsonErr\<close> is the text of a decoding error.
\<close>

section \<open>The request body\<close>

record rrset =
  rr_Name :: string
  rr_Type :: string
  rr_ChangeType :: string

definition zeroRRSet :: rrset where
  "zeroRRSet = \<lparr>rr_Name = [], rr_Type = [], rr_ChangeType = []\<rparr>"

definition rrsetFields :: "rrset fields" where
  "rrsetFields =
     [(''name'', \<lambda>v rr. map_option (\<lambda>s. rr\<lparr>rr_Name := s\<rparr>) (decodeString v (rr_Name rr))),
      (''type'', \<lambda>v rr. map_option (\<lambda>s. rr\<lparr>rr_Type := s\<rparr>) (decodeString v (rr_Type rr))),
      (''changetype'', \<lambda>v rr. map_option (\<lambda>s. rr\<lparr>rr_ChangeType := s\<rparr>) (decodeString v (rr_ChangeType rr)))]"

text \<open>The struct \<^verbatim>\<open>rrsetPatch\<close> has one field, so it is that field.\<close>

type_synonym rrsetPatch = "rrset go_array"

definition rrsetPatchFields :: "rrsetPatch fields" where
  "rrsetPatchFields = [(''rrsets'', decodeSlice (decodeStruct False rrsetFields) zeroRRSet)]"


section \<open>The decision\<close>

definition isZonePath :: "string \<Rightarrow> bool" where
  "isZonePath path =
     (let parts = strings_Split (strings_TrimPrefix path ''/'') CHR ''/''
      in length parts = 6 \<and> parts ! 0 = ''api'' \<and> parts ! 1 = ''v1'' \<and> parts ! 2 = ''servers'' \<and>
         parts ! 4 = ''zones'')"

definition resolvable :: "(string \<Rightarrow> string list option) \<Rightarrow> (string \<Rightarrow> string option) \<Rightarrow> string \<Rightarrow> bool" where
  "resolvable lookupHost lookupCNAME fqdn =
     (case lookupHost fqdn of
        Some (a # addrs) \<Rightarrow> True
      | _ \<Rightarrow>
          (case lookupCNAME fqdn of
             None \<Rightarrow> False
           | Some cname \<Rightarrow> cname \<noteq> '''' \<and> cname \<noteq> fqdn))"

text \<open>The loop over the record sets; \<^const>\<open>None\<close> if it falls through.\<close>

fun checkRRSets ::
  "(nat \<Rightarrow> string \<Rightarrow> string list option) \<Rightarrow> (nat \<Rightarrow> string \<Rightarrow> string option) \<Rightarrow> nat \<Rightarrow> rrset list \<Rightarrow>
   AuthorizeResponse option" where
  "checkRRSets lookupHost lookupCNAME i [] = None"
| "checkRRSets lookupHost lookupCNAME i (rr # rrs) =
     (if rr_Type rr \<noteq> ''TXT'' then
        Some (pb_deny (''letsencrypt: only TXT records allowed, got '' @ rr_Type rr))
      else if \<not> strings_HasPrefix (rr_Name rr) ''_acme-challenge.'' then
        Some (pb_deny (''letsencrypt: name must start with _acme-challenge., got '' @ rr_Name rr))
      else
        (let fqdn = strings_TrimPrefix (rr_Name rr) ''_acme-challenge.''
         in if \<not> resolvable (lookupHost i) (lookupCNAME i) fqdn then
              Some (pb_deny (''letsencrypt: FQDN '' @ fqdn @ '' does not resolve''))
            else checkRRSets lookupHost lookupCNAME (i + 1) rrs))"

definition letsencrypt_Authorize ::
  "(nat \<Rightarrow> string \<Rightarrow> string list option) \<Rightarrow> (nat \<Rightarrow> string \<Rightarrow> string option) \<Rightarrow> string \<Rightarrow> pb_HttpRequest \<Rightarrow>
   AuthorizeResponse" where
  "letsencrypt_Authorize lookupHost lookupCNAME jsonErr req =
     (if pb_Method req \<noteq> ''PATCH'' \<or> \<not> isZonePath (pb_Path req) then
        pb_deny (''letsencrypt: only PATCH to zones allowed, got '' @ pb_Method req @ '' '' @ pb_Path req)
      else
        (case json_UnmarshalStruct rrsetPatchFields (pb_Body req) None of
           None \<Rightarrow> pb_deny (''letsencrypt: invalid JSON body: '' @ jsonErr)
         | Some patch \<Rightarrow>
             (case go_slice patch of
                Some (rr # rrs) \<Rightarrow>
                  (case checkRRSets lookupHost lookupCNAME 0 (rr # rrs) of
                     Some res \<Rightarrow> res
                   | None \<Rightarrow> pb_allow ''letsencrypt: valid ACME challenge records'')
              | _ \<Rightarrow> pb_deny ''letsencrypt: empty rrsets'')))"


section \<open>Properties\<close>

lemma checkRRSets_None:
  "checkRRSets lookupHost lookupCNAME i rrs = None \<longleftrightarrow>
     (\<forall>j < length rrs. rr_Type (rrs ! j) = ''TXT'' \<and>
        (\<exists>fqdn. rr_Name (rrs ! j) = ''_acme-challenge.'' @ fqdn \<and>
                resolvable (lookupHost (i + j)) (lookupCNAME (i + j)) fqdn))"
proof (induction rrs arbitrary: i)
  case (Cons rr rrs)
  have "strings_HasPrefix (rr_Name rr) ''_acme-challenge.'' \<longleftrightarrow> (\<exists>f. rr_Name rr = ''_acme-challenge.'' @ f)"
    by (auto simp: strings_HasPrefix_def prefix_def)
  moreover have "strings_TrimPrefix (''_acme-challenge.'' @ f) ''_acme-challenge.'' = f" for f
    by (simp add: strings_TrimPrefix_def strings_HasPrefix_def)
  ultimately have "checkRRSets lookupHost lookupCNAME i (rr # rrs) = None \<longleftrightarrow>
      rr_Type rr = ''TXT'' \<and>
      (\<exists>f. rr_Name rr = ''_acme-challenge.'' @ f \<and> resolvable (lookupHost i) (lookupCNAME i) f) \<and>
      checkRRSets lookupHost lookupCNAME (i + 1) rrs = None"
    by (auto simp: Let_def)
  then show ?case
    unfolding Cons.IH by (auto simp: All_less_Suc2 simp del: checkRRSets.simps)
qed simp

lemma checkRRSets_denies:
  "checkRRSets lookupHost lookupCNAME i rrs = Some res \<Longrightarrow> ResDecision res = Decision_DENY"
  by (induction rrs arbitrary: i) (auto simp: pb_deny_def Let_def split: if_splits)

lemma letsencrypt_allows:
  "ResDecision (letsencrypt_Authorize lookupHost lookupCNAME jsonErr req) = Decision_ALLOW \<longleftrightarrow>
     pb_Method req = ''PATCH'' \<and> isZonePath (pb_Path req) \<and>
     (\<exists>patch rrs. json_UnmarshalStruct rrsetPatchFields (pb_Body req) None = Some patch \<and>
        go_slice patch = Some rrs \<and> rrs \<noteq> [] \<and> checkRRSets lookupHost lookupCNAME 0 rrs = None)"
  by (auto simp: letsencrypt_Authorize_def pb_deny_def pb_allow_def Decision_ALLOW_def Decision_DENY_def
      simp del: checkRRSets.simps dest!: checkRRSets_denies split: option.split list.split)

lemma rrset_only_field:
  "only_field rrsetFields ''name'' rr_Name" "only_field rrsetFields ''type'' rr_Type"
  by (auto simp: only_field_def rrsetFields_def split: if_splits)

text \<open>What a record set that passes the checks looks like in the document.\<close>

lemma rrset_member:
  assumes "decodeStruct False rrsetFields v zeroRRSet = Some rr"
    and "\<And>ms. v = JObj ms \<Longrightarrow> distinct (folded_keys ms)"
    and "(get, fname) \<in> {(rr_Name, ''name''), (rr_Type, ''type'')}" and "get rr \<noteq> ''''"
  obtains ms k where "v = JObj ms" and "(k, JStr (get rr)) \<in> set ms" and "foldName k = fname"
proof -
  have only: "only_field rrsetFields fname get" using assms(3) rrset_only_field by auto
  have zero: "get zeroRRSet = ''''" using assms(3) by (auto simp: zeroRRSet_def)
  obtain ms where v: "v = JObj ms" and ms: "decodeMembers False rrsetFields ms zeroRRSet = Some rr"
    using assms(1,4) zero by (cases v) auto
  obtain k u where k: "(k, u) \<in> set ms" "foldName k = fname"
    using decodeMembers_absent [OF only _ ms] assms(4) zero by force
  have "\<exists>f. map_of rrsetFields fname = Some f \<and>
      (\<forall>d d'. f u d = Some d' \<longrightarrow> decodeString u (get d) = Some (get d'))"
    using assms(3) by (auto simp: rrsetFields_def)
  then obtain f where f: "map_of rrsetFields fname = Some f"
      "\<And>d d'. f u d = Some d' \<Longrightarrow> decodeString u (get d) = Some (get d')"
    by blast
  obtain d d' where d: "f u d = Some d'" "get d = get zeroRRSet" "get d' = get rr"
    using decodeMembers_unique [OF only f(1) assms(2) [OF v] k ms] .
  have "u = JStr (get rr)"
    using f(2) [OF d(1)] d(2,3) zero assms(4) by (cases u) auto
  with v k that show thesis by simp
qed

text \<open>A document in which no object has two members whose names are equal up to case.\<close>

fun unambiguous :: "json \<Rightarrow> bool" where
  "unambiguous (JObj ms) \<longleftrightarrow> distinct (folded_keys ms) \<and> list_all (\<lambda>(_, v). unambiguous v) ms"
| "unambiguous (JArr vs) \<longleftrightarrow> list_all unambiguous vs"
| "unambiguous _ \<longleftrightarrow> True"

text \<open>The record sets of a document that decodes to at least one.\<close>

lemma rrsetPatch_document:
  assumes "json_UnmarshalStruct rrsetPatchFields body None = Some patch" and "go_slice patch = Some rrs"
    and "rrs \<noteq> []" and "json_parse body = Some doc" and "unambiguous doc"
  obtains ms k vs where "doc = JObj ms" and "(k, JArr vs) \<in> set ms" and "foldName k = ''rrsets''"
    and "list_all2 (\<lambda>v rr. decodeStruct False rrsetFields v zeroRRSet = Some rr) vs rrs"
    and "list_all unambiguous vs"
proof -
  let ?f = "decodeSlice (decodeStruct False rrsetFields) zeroRRSet"
  have dec: "decodeStruct False rrsetPatchFields doc None = Some patch"
    using assms(1,4) by (simp add: json_UnmarshalStruct_def)
  have patch: "patch \<noteq> None" using assms(2) by (auto simp: go_slice_def)
  obtain ms where doc: "doc = JObj ms" and ms: "decodeMembers False rrsetPatchFields ms None = Some patch"
    using dec patch by (cases doc) auto
  have only: "only_field rrsetPatchFields ''rrsets'' (\<lambda>p. p)"
    by (simp add: only_field_def rrsetPatchFields_def)
  obtain k u where k: "(k, u) \<in> set ms" "foldName k = ''rrsets''"
    using decodeMembers_absent [OF only _ ms] patch by force
  have f: "map_of rrsetPatchFields ''rrsets'' = Some ?f" by (simp add: rrsetPatchFields_def)
  have "distinct (folded_keys ms)" using assms(5) by (simp add: doc)
  then obtain d d' where "?f u d = Some d'" "d = None" "d' = patch"
    using decodeMembers_unique [OF only f _ k ms] by blast
  then have u: "?f u None = Some patch" by simp
  obtain vs arr where vs: "u = JArr vs" "patch = Some (arr, length vs)"
      "decodeElems (decodeStruct False rrsetFields) zeroRRSet [] vs = Some arr"
    using u patch assms(2,3) by (cases u) (auto simp: go_slice_def split: if_splits)
  have all: "list_all2 (\<lambda>v rr. decodeStruct False rrsetFields v zeroRRSet = Some rr) vs arr"
    by (rule decodeElems_fresh [OF vs(3)])
  have "rrs = arr" using assms(2) vs(2) list_all2_lengthD [OF all] by (simp add: go_slice_def)
  moreover have "list_all unambiguous vs"
    using assms(5) k(1) vs(1) by (fastforce simp: doc list_all_iff)
  ultimately show thesis using that doc k vs(1) all by simp
qed

text \<open>
  C22: \<^verbatim>\<open>letsencrypt_dns_challenger\<close> confines its clients to ACME challenges.  A request it allows is
  a PATCH of one zone, and if no object of its body repeats a member name (up to case), every
  record set of the body has the type \<^verbatim>\<open>TXT\<close> and a name \<^verbatim>\<open>_acme-challenge.\<close>\<open>fqdn\<close> for a \<open>fqdn\<close> that
  resolved.
\<close>

theorem letsencrypt_confined:
  assumes "ResDecision (letsencrypt_Authorize lookupHost lookupCNAME jsonErr req) = Decision_ALLOW"
    and "json_parse (pb_Body req) = Some doc" and "unambiguous doc"
  shows "pb_Method req = ''PATCH'' \<and> isZonePath (pb_Path req) \<and>
    (\<exists>ms k vs. doc = JObj ms \<and> (k, JArr vs) \<in> set ms \<and> foldName k = ''rrsets'' \<and> vs \<noteq> [] \<and>
      (\<forall>i < length vs. \<exists>es kt kn fqdn. vs ! i = JObj es \<and>
         (kt, JStr ''TXT'') \<in> set es \<and> foldName kt = ''type'' \<and>
         (kn, JStr (''_acme-challenge.'' @ fqdn)) \<in> set es \<and> foldName kn = ''name'' \<and>
         resolvable (lookupHost i) (lookupCNAME i) fqdn))"
proof -
  obtain patch rrs where p: "json_UnmarshalStruct rrsetPatchFields (pb_Body req) None = Some patch"
      "go_slice patch = Some rrs" "rrs \<noteq> []" "checkRRSets lookupHost lookupCNAME 0 rrs = None"
    and head: "pb_Method req = ''PATCH''" "isZonePath (pb_Path req)"
    using assms(1) unfolding letsencrypt_allows by blast
  obtain ms k vs where d: "doc = JObj ms" "(k, JArr vs) \<in> set ms" "foldName k = ''rrsets''"
      "list_all2 (\<lambda>v rr. decodeStruct False rrsetFields v zeroRRSet = Some rr) vs rrs" "list_all unambiguous vs"
    using rrsetPatch_document [OF p(1-3) assms(2,3)] .
  have "\<exists>es kt kn fqdn. vs ! i = JObj es \<and> (kt, JStr ''TXT'') \<in> set es \<and> foldName kt = ''type'' \<and>
      (kn, JStr (''_acme-challenge.'' @ fqdn)) \<in> set es \<and> foldName kn = ''name'' \<and>
      resolvable (lookupHost i) (lookupCNAME i) fqdn" if i: "i < length vs" for i
  proof -
    have len: "length vs = length rrs" using d(4) by (rule list_all2_lengthD)
    have rr: "decodeStruct False rrsetFields (vs ! i) zeroRRSet = Some (rrs ! i)"
      using d(4) i by (rule list_all2_nthD)
    have un: "distinct (folded_keys es)" if "vs ! i = JObj es" for es
      using d(5) i that by (auto simp: list_all_length dest: spec [where x = i])
    obtain fqdn where c: "rr_Type (rrs ! i) = ''TXT''" "rr_Name (rrs ! i) = ''_acme-challenge.'' @ fqdn"
        "resolvable (lookupHost i) (lookupCNAME i) fqdn"
      using p(4) i len unfolding checkRRSets_None by auto
    obtain es kt where t: "vs ! i = JObj es" "(kt, JStr ''TXT'') \<in> set es" "foldName kt = ''type''"
      using rrset_member [OF rr un, of rr_Type "''type''"] c(1) by auto
    obtain es' kn where n: "vs ! i = JObj es'" "(kn, JStr (''_acme-challenge.'' @ fqdn)) \<in> set es'"
        "foldName kn = ''name''"
      using rrset_member [OF rr un, of rr_Name "''name''"] c(2) by auto
    show ?thesis using t n c(3) by auto
  qed
  moreover have "vs \<noteq> []" using d(4) p(3) by auto
  ultimately show ?thesis using head d(1-3) by blast
qed

definition demoZonePath :: string where
  "demoZonePath = ''/api/v1/servers/localhost/zones/example.org.''"

definition demoHosts :: "nat \<Rightarrow> string \<Rightarrow> string list option" where
  "demoHosts i fqdn = (if fqdn = ''example.org.'' then Some [''192.0.2.1''] else None)"

definition quoted :: "string \<Rightarrow> string" where
  "quoted s = CHR 0x22 # s @ [CHR 0x22]"

definition demoPatch :: string where
  "demoPatch = ''{'' @ quoted ''rrsets'' @ '':[{'' @ quoted ''name'' @ '':'' @ quoted ''_acme-challenge.example.org.'' @
     '','' @ quoted ''type'' @ '':'' @ quoted ''TXT'' @ ''}]}''"

lemma demoPatch_parse:
  "json_parse demoPatch =
     Some (JObj [(''rrsets'', JArr [JObj [(''name'', JStr ''_acme-challenge.example.org.''), (''type'', JStr ''TXT'')]])])"
  by code_simp

lemma demoPatch_allowed:
  "ResDecision (letsencrypt_Authorize demoHosts (\<lambda>_ _. None) []
     (demoPbRequest ''PATCH'' demoZonePath\<lparr>pb_Body := demoPatch\<rparr>)) = Decision_ALLOW"
  by code_simp

theorem letsencrypt_confined_witness:
  "\<exists>ms k vs. JObj [(''rrsets'', JArr [JObj [(''name'', JStr ''_acme-challenge.example.org.''), (''type'', JStr ''TXT'')]])] =
     JObj ms \<and> (k, JArr vs) \<in> set ms \<and> foldName k = ''rrsets'' \<and> vs \<noteq> []"
proof -
  have "unambiguous (JObj [(''rrsets'', JArr [JObj [(''name'', JStr ''_acme-challenge.example.org.''), (''type'', JStr ''TXT'')]])])"
    by code_simp
  with letsencrypt_confined [OF demoPatch_allowed, simplified, OF demoPatch_parse] show ?thesis
    by blast
qed

text \<open>
  Finding: \<^verbatim>\<open>encoding/json\<close> matches member names up to case and lets later members win, so without the
  assumption the plugin and a server that compares names exactly read the body differently.  The
  following body replaces an address record for such a server, and the plugin allows it.
\<close>

definition ambiguousPatch :: string where
  "ambiguousPatch = ''{'' @ quoted ''rrsets'' @ '':[{'' @
     quoted ''name'' @ '':'' @ quoted ''www.example.org.'' @ '','' @ quoted ''type'' @ '':'' @ quoted ''A'' @ '','' @
     quoted ''Name'' @ '':'' @ quoted ''_acme-challenge.example.org.'' @ '','' @ quoted ''Type'' @ '':'' @ quoted ''TXT'' @ ''}]}''"

lemma letsencrypt_ambiguous:
  "ResDecision (letsencrypt_Authorize demoHosts (\<lambda>_ _. None) []
     (demoPbRequest ''PATCH'' demoZonePath\<lparr>pb_Body := ambiguousPatch\<rparr>)) = Decision_ALLOW \<and>
   (\<exists>ms. json_parse ambiguousPatch = Some (JObj [(''rrsets'', JArr [JObj ms])]) \<and>
      map_of ms ''name'' = Some (JStr ''www.example.org.'') \<and> map_of ms ''type'' = Some (JStr ''A''))"
proof -
  have "json_parse ambiguousPatch = Some (JObj [(''rrsets'', JArr [JObj
      [(''name'', JStr ''www.example.org.''), (''type'', JStr ''A''),
       (''Name'', JStr ''_acme-challenge.example.org.''), (''Type'', JStr ''TXT'')]])])"
    by code_simp
  moreover have "ResDecision (letsencrypt_Authorize demoHosts (\<lambda>_ _. None) []
     (demoPbRequest ''PATCH'' demoZonePath\<lparr>pb_Body := ambiguousPatch\<rparr>)) = Decision_ALLOW"
    by code_simp
  ultimately show ?thesis by simp
qed

end
