(* ===== verification/Gateway.thy ===== *)
theory Gateway
  imports Admin Authz Httproute Config Plugin_Manager
begin

text \<open>
  The gateway that \<^verbatim>\<open>src/cmd/pdag/serve.go\<close> assembles: the tracing middleware, the chain of
  middlewares in front of the backend, the probes, and how the components are built from the
  configuration.  The interfaces that \<^verbatim>\<open>newProxyServer\<close> takes are the fields of the record
  \<open>gateway\<close>; what differs from request to request (the request ID, the readings of the clock) is the
  record \<open>readings\<close>.  Log lines and metrics are not modelled.
\<close>

section \<open>Tracing\<close>

text \<open>
  A span as it is ended.  The tracer is the argument \<open>endSpan\<close>; the trace context that it puts into
  the request context is read by nothing else in the gateway.
\<close>

record Span =
  sp_name :: string
  sp_attributes :: "(string \<times> string) list"
  sp_statusCode :: "int option"
  sp_error :: bool

definition tracing_Middleware :: "(Span \<Rightarrow> 'g \<Rightarrow> 'g) \<Rightarrow> 'g middleware" where
  "tracing_Middleware endSpan next w r st =
     (let rt = Normalize (r_Path r);
          attrs = [(''http.request.method'', r_Method r), (''http.route'', rt), (''url.path'', r_Path r),
                   (''client.address'', r_RemoteAddr r)];
          st = next w r st;
          code = (if c_statusCodePtr (r_ctx r) then Some (cell_statusCode st) else None)
      in st\<lparr>global := endSpan \<lparr>sp_name = r_Method r @ '' '' @ rt, sp_attributes = attrs, sp_statusCode = code,
               sp_error = (case code of None \<Rightarrow> False | Some c \<Rightarrow> c \<ge> 500)\<rparr> (global st)\<rparr>)"


section \<open>The proxy server\<close>

record 'g Backend =
  lb_ServeHTTP :: "'g handler"
  lb_Healthy :: "'g \<Rightarrow> bool"

record 'g gateway =
  gw_maxBodySize :: int
  gw_auditOpts :: Options
  gw_rl :: "string \<Rightarrow> 'g \<Rightarrow> bool \<times> 'g"
  gw_getByID :: "string \<Rightarrow> 'g \<Rightarrow> KeyRecord option sres"
  gw_auditPub :: "'g Publisher"
  gw_authorize :: "'g authorizer"
  gw_pluginsHealthy :: "'g \<Rightarrow> bool"
  gw_authn :: HmacService
  gw_resolver :: Resolver
  gw_tables :: go_tables
  gw_endSpan :: "Span \<Rightarrow> 'g \<Rightarrow> 'g"

record readings =
  rd_newID :: string
  rd_start :: gotime
  rd_authn :: gotime
  rd_now :: gotime
  rd_ended :: gotime
  rd_redirect :: int

definition gateway_middlewares :: "'g gateway \<Rightarrow> readings \<Rightarrow> 'g middleware list" where
  "gateway_middlewares gw rd =
     [RequestID (rd_newID rd),
      metrics_Middleware,
      tracing_Middleware (gw_endSpan gw),
      audit_Middleware (gw_tables gw) (gw_auditPub gw) (gw_auditOpts gw) (gw_resolver gw)
        (rd_start rd) (rd_now rd) (rd_ended rd),
      authn_Middleware (gw_getByID gw) (Authenticate (gw_authn gw)) (gw_resolver gw) (rd_authn rd),
      ratelimit_Middleware (gw_rl gw),
      BodyBuffer (gw_maxBodySize gw),
      authz_Middleware (gw_authorize gw)]"

definition probeChain :: "readings \<Rightarrow> 'g handler \<Rightarrow> 'g handler" where
  "probeChain rd h = Chain [RequestID (rd_newID rd), metrics_Middleware] h"

definition healthz :: "'g handler" where
  "healthz w r st = Write w ''ok'' (WriteHeader w 200 st)"

definition readinessCheck :: "'g gateway \<Rightarrow> 'g Backend \<Rightarrow> 'g handler" where
  "readinessCheck gw lb w r st =
     (case gw_getByID gw ''__healthcheck__'' (global st) of
        Inl _ \<Rightarrow> http_Error w ''store unhealthy'' 503 st
      | Inr _ \<Rightarrow>
          (if \<not> gw_pluginsHealthy gw (global st) then http_Error w ''no healthy plugins'' 503 st
           else if \<not> lb_Healthy lb (global st) then http_Error w ''no healthy backends'' 503 st
           else Write w ''ok'' (WriteHeader w 200 st)))"

text \<open>
  \<^verbatim>\<open>http.ServeMux\<close> with the patterns \<^verbatim>\<open>/\<close>, \<^verbatim>\<open>GET /healthz\<close> and \<^verbatim>\<open>GET /readyz\<close>: the request target \<^verbatim>\<open>*\<close> is
  refused, a path that is not clean is redirected, except for \<^verbatim>\<open>CONNECT\<close>, and the probes answer GET
  and HEAD only.  Paths have no encoded slash; the short body of the redirect is left out.
\<close>

definition gatewayMux :: "int \<Rightarrow> 'g handler \<Rightarrow> 'g handler \<Rightarrow> 'g handler \<Rightarrow> 'g handler" where
  "gatewayMux redirect rootH health ready w r st =
     (if r_Path r = ''*'' then WriteHeader w 400 (setHeader ''Connection'' ''close'' st)
      else if r_Method r = ''CONNECT'' then
        (if r_Path r = '''' then http_Error w ''404 page not found'' 404 st else rootH w r st)
      else if cleanPath (r_Path r) \<noteq> r_Path r then
        WriteHeader w redirect (setHeader ''Location'' (cleanPath (r_Path r)) st)
      else if r_Method r \<in> {''GET'', ''HEAD''} \<and> r_Path r = ''/healthz'' then health w r st
      else if r_Method r \<in> {''GET'', ''HEAD''} \<and> r_Path r = ''/readyz'' then ready w r st
      else rootH w r st)"

definition newProxyServer :: "'g gateway \<Rightarrow> readings \<Rightarrow> 'g Backend \<Rightarrow> 'g handler" where
  "newProxyServer gw rd lb =
     gatewayMux (rd_redirect rd)
       (Chain (gateway_middlewares gw rd) (lb_ServeHTTP lb))
       (probeChain rd healthz)
       (probeChain rd (readinessCheck gw lb))"


section \<open>From the configuration to the components\<close>

text \<open>The map of HMAC secrets: a later entry overwrites an earlier one with the same ID.\<close>

definition hmacSecrets :: "Config \<Rightarrow> string \<rightharpoonup> string" where
  "hmacSecrets c = fold (\<lambda>s m. m(hs_ID s \<mapsto> hs_Secret s)) (HmacSecrets c) Map.empty"

definition auditOpts :: "go_tables \<Rightarrow> Config \<Rightarrow> Options" where
  "auditOpts T c =
     \<lparr>LogBody = AuditLogBody c, FailClosed = AuditFailClosed c, BodyMaxBytes = AuditBodyMaxBytes c,
      RedactFields = map (strings_ToLower T) (AuditRedactFields c)\<rparr>"

definition openRateLimiter :: "Config \<Rightarrow> Limiter option" where
  "openRateLimiter c =
     (if \<not> rl_Enabled (cfg_RateLimit c) then None
      else Some (token_New (rl_Rate (cfg_RateLimit c)) (rl_Burst (cfg_RateLimit c))))"

datatype backend = Single "url \<times> string" | Balanced Balancer

definition openBackend :: "(string \<Rightarrow> url option) \<Rightarrow> Upstreams \<Rightarrow> backend option" where
  "openBackend parseURL u =
     (case Backends u of
        [b] \<Rightarrow> map_option Single (single_New parseURL (ub_URL b) (ub_APIKey b))
      | bs \<Rightarrow> map_option Balanced (balancer_New parseURL (map (\<lambda>b. (ub_URL b, ub_APIKey b)) bs)))"

text \<open>The loop over the configured plugins, in the order in which the map yields them.\<close>

fun resolvePlugins :: "Config \<Rightarrow> string list \<Rightarrow> string + (string \<times> PluginConfig) list" where
  "resolvePlugins c [] = Inr []"
| "resolvePlugins c (name # names) =
     (case PluginConfigResolved c name of
        None \<Rightarrow> Inl ''resolve plugin config''
      | Some pc \<Rightarrow>
          map_sum id ((#) (name, \<lparr>pc_Path = ps_Path pc, pc_SHA256 = ps_SHA256 pc, pc_Timeout = ps_Timeout pc,
             pc_FailureThreshold = FailureThreshold (ps_CircuitBreaker pc),
             pc_SuccessThreshold = SuccessThreshold (ps_CircuitBreaker pc),
             pc_Cooldown = Cooldown (ps_CircuitBreaker pc)\<rparr>)) (resolvePlugins c names))"

definition openPluginManager ::
  "(string \<Rightarrow> plugin_binary) \<Rightarrow> (nat \<Rightarrow> pluginInstance) \<Rightarrow> Config \<Rightarrow> (string + unit) \<times> Manager option" where
  "openPluginManager bin mem c =
     (if cfg_Plugins c = [] then (Inl ''no plugins configured: at least one authorization plugin is required'', None)
      else
        (case resolvePlugins c (map fst (cfg_Plugins c)) of
           Inl e \<Rightarrow> (Inl e, None)
         | Inr pcs \<Rightarrow>
             (case NewManager bin pcs mem of
                (Inl e, m) \<Rightarrow> (Inl (''start plugin manager: '' @ e), Some m)
              | (Inr _, m) \<Rightarrow> (Inr (), Some m))))"

text \<open>The key manager is what both stores are; \<^const>\<open>None\<close> means no admin server.\<close>

definition newAdminServer ::
  "'s KeyManager \<Rightarrow> KeyGenerator \<Rightarrow> string \<Rightarrow> (Env \<Rightarrow> gotime \<Rightarrow> 's Admin handler) option" where
  "newAdminServer mgr keygen adminToken =
     (if adminToken = '''' then None else Some (\<lambda>env now. admin_NewServer mgr keygen adminToken env now))"


section \<open>The way through\<close>

text \<open>A middleware that calls the next handler, on the given arguments.\<close>

definition passes ::
  "'g middleware \<Rightarrow> ResponseWriter \<times> http_request \<times> 'g rstate \<Rightarrow> ResponseWriter \<times> http_request \<times> 'g rstate \<Rightarrow>
   ('g rstate \<Rightarrow> 'g rstate) \<Rightarrow> bool" where
  "passes mw a b post \<longleftrightarrow> (\<forall>next. case_prod (\<lambda>w. case_prod (mw next w)) a = post (case_prod (\<lambda>w. case_prod (next w)) b))"

lemma passesD: "passes mw (w, r, st) (w', r', st') post \<Longrightarrow> mw next w r st = post (next w' r' st')"
  by (simp add: passes_def)

lemma passes_comp:
  assumes "passes mw a b post" and "passes mw' b c post'"
  shows "passes (\<lambda>next. mw (mw' next)) a c (post \<circ> post')"
  using assms by (cases a; cases b; cases c) (simp add: passes_def)

lemma passes_RequestID:
  "passes (RequestID newID) (w, r, st)
     (w, r\<lparr>r_ctx := (r_ctx r)\<lparr>c_requestID := newID\<rparr>\<rparr>, setHeader ''X-Request-ID'' newID st) (\<lambda>s. s)"
  by (simp add: passes_def RequestID_def context_defs Let_def)

lemma passes_metrics:
  "passes metrics_Middleware (w, r, st)
     (StatusRecorder w, r\<lparr>r_ctx := (r_ctx r)\<lparr>c_bodySizePtr := True, c_statusCodePtr := True\<rparr>\<rparr>,
      st\<lparr>cell_statusCode := 200, cell_bodySize := 0\<rparr>) (\<lambda>s. s)"
  by (simp add: passes_def metrics_Middleware_def context_defs Let_def)

lemma passes_tracing:
  "passes (tracing_Middleware endSpan) (w, r, st) (w, r, st) (\<lambda>s. tracing_Middleware endSpan (\<lambda>_ _ _. s) w r st)"
  by (simp add: passes_def tracing_Middleware_def Let_def)

lemma passes_audit:
  assumes "case if FailClosed opts then reserver pub else None of
      None \<Rightarrow> g = global st | Some (reserve, _) \<Rightarrow> reserve (global st) = (True, g)"
  obtains post where "passes (audit_Middleware T pub opts resolver start now ended) (w, r, st)
     (w, r\<lparr>r_ctx := (r_ctx r)\<lparr>c_authzResultPtr := True, c_bodyBytesPtr := LogBody opts \<or> c_bodyBytesPtr (r_ctx r)\<rparr>\<rparr>,
      st\<lparr>cell_authzResult := \<lparr>ar_Decision = [], ar_Plugin = [], ar_Reason = []\<rparr>, cell_bodyBytes := None, global := g\<rparr>) post"
    and "\<And>s. resp_status (post s) = resp_status s \<and> resp_body (post s) = resp_body s"
proof -
  let ?mw = "audit_Middleware T pub opts resolver start now ended" and ?a = "(w, r, st)"
  let ?r = "r\<lparr>r_ctx := (r_ctx r)\<lparr>c_authzResultPtr := True, c_bodyBytesPtr := LogBody opts \<or> c_bodyBytesPtr (r_ctx r)\<rparr>\<rparr>"
  let ?st = "st\<lparr>cell_authzResult := \<lparr>ar_Decision = [], ar_Plugin = [], ar_Reason = []\<rparr>, cell_bodyBytes := None, global := g\<rparr>"
  have ctx: "(if LogBody opts then WithBodyBytesPtr (WithAuthzResultPtr c) else WithAuthzResultPtr c) =
      c\<lparr>c_authzResultPtr := True, c_bodyBytesPtr := LogBody opts \<or> c_bodyBytesPtr c\<rparr>" for c
    by (simp add: context_defs)
  let ?entry = "buildEntry T opts resolver start now ended (r_ctx ?r) ?r"
  show thesis
  proof (cases "if FailClosed opts then reserver pub else None")
    case None
    with assms have "g = global st" by simp
    with None have "passes ?mw ?a (w, ?r, ?st)
        (\<lambda>s. if panicking s then s else s\<lparr>global := snd (publish pub (?entry s) (global s))\<rparr>)"
      by (simp add: passes_def audit_Middleware_def ctx Let_def)
    then show thesis by (rule that) simp
  next
    case (Some rc)
    obtain reserve commit where rc: "rc = (reserve, commit)" by (cases rc)
    have "reserve (global st) = (True, g)" using assms Some rc by simp
    with Some rc have "passes ?mw ?a (w, ?r, ?st) (\<lambda>s. s\<lparr>global := commit (?entry s) (global s)\<rparr>)"
      by (simp add: passes_def audit_Middleware_def ctx Let_def)
    then show thesis by (rule that) simp
  qed
qed

lemma passes_authn:
  assumes "header_Get (r_Header r) ''X-API-Key'' = keyID @ CHR '':'' # secret" and "CHR '':'' \<notin> set keyID"
    and "keyID \<noteq> ''''" and "secret \<noteq> ''''" and "getByID keyID (global st) = Inr (Some rec)"
    and "key_grants h resolver now r secret rec"
  shows "passes (authn_Middleware getByID (Authenticate h) resolver now) (w, r, st) (w, admitted r rec, st) (\<lambda>s. s)"
  using authn_Middleware_found [OF assms(1-4), of getByID st rec, OF assms(5)] assms(6) by (simp add: passes_def)

text \<open>The other answers of the authentication middleware, for every next handler.\<close>

definition presents_key :: "http_request \<Rightarrow> string \<Rightarrow> string \<Rightarrow> bool" where
  "presents_key r keyID secret \<longleftrightarrow>
     header_Get (r_Header r) ''X-API-Key'' = keyID @ CHR '':'' # secret \<and> CHR '':'' \<notin> set keyID \<and>
     keyID \<noteq> '''' \<and> secret \<noteq> ''''"

lemma authn_malformed:
  assumes "\<nexists>keyID secret. presents_key r keyID secret"
  shows "authn_Middleware getByID auth resolver now next w r st =
    http_Error w (if header_Get (r_Header r) ''X-API-Key'' = '''' then ''missing X-API-Key header''
                  else ''malformed X-API-Key header'') 401 st"
proof (cases "strings_Cut (header_Get (r_Header r) ''X-API-Key'') CHR '':''")
  case None
  then show ?thesis by (simp add: authn_Middleware_def Let_def)
next
  case (Some p)
  obtain keyID secret where p: "p = (keyID, secret)" by (cases p)
  have "keyID = '''' \<or> secret = ''''"
    using assms strings_Cut_SomeD [OF Some [unfolded p]] by (auto simp: presents_key_def)
  then show ?thesis using Some p by (auto simp: authn_Middleware_def Let_def)
qed

lemma authn_not_found:
  assumes "presents_key r keyID secret"
  shows "getByID keyID (global st) = Inr None \<Longrightarrow>
      authn_Middleware getByID auth resolver now next w r st = http_Error w ''invalid credentials'' 401 st"
    and "getByID keyID (global st) = Inl e \<Longrightarrow>
      authn_Middleware getByID auth resolver now next w r st = http_Error w ''internal error'' 500 st"
  using assms strings_Cut_append [of "CHR '':''" keyID secret]
  by (auto simp: presents_key_def authn_Middleware_def deny_def Let_def)

lemma passes_ratelimit:
  assumes "if c_principal (r_ctx r) = '''' then g = global st else allow (c_principal (r_ctx r)) (global st) = (True, g)"
  shows "passes (ratelimit_Middleware allow) (w, r, st) (w, r, st\<lparr>global := g\<rparr>) (\<lambda>s. s)"
  using assms by (auto simp: passes_def ratelimit_Middleware_def context_defs Let_def split: if_splits)

lemma passes_BodyBuffer:
  assumes "r_Body r = Body data False" and "int (length data) \<le> maxBytes" and "r_ContentLength r \<le> maxBytes"
    and "maxBytes < 2 ^ 63 - 1"
  shows "\<exists>st'. global st' = global st \<and>
     passes (BodyBuffer maxBytes) (w, r, st)
       (w, r\<lparr>r_Body := Body data False, r_ContentLength := int (length data),
              r_ctx := (r_ctx r)\<lparr>c_bodyBytes := Some data\<rparr>\<rparr>, st') (\<lambda>s. s)"
proof -
  have "wrap64 (maxBytes + 1) = maxBytes + 1" using assms(2,4) by (intro wrap64_id) auto
  then have "readLimited (wrap64 (maxBytes + 1)) data False = Some data"
    using assms(2) by (simp add: readLimited_def)
  then show ?thesis
    using assms(1-3)
    by (intro exI [of _ "let st = (if c_bodySizePtr (r_ctx r) then st\<lparr>cell_bodySize := int (length data)\<rparr> else st)
          in (if c_bodyBytesPtr (r_ctx r) then st\<lparr>cell_bodyBytes := Some data\<rparr> else st)"])
       (simp add: passes_def BodyBuffer_def context_defs Let_def)
qed

lemma passes_authz:
  assumes "c_roles (r_ctx r) \<noteq> []"
    and "authorize (c_roles (r_ctx r)) (authz_request r) (global st) = ((''allow'', plugin, reason), g)"
  shows "passes (authz_Middleware authorize) (w, r, st)
     (w, r, writeResult r ''allow'' plugin reason (st\<lparr>global := g\<rparr>)) (\<lambda>s. s)"
  using assms by (simp add: passes_def authz_Middleware_def GetRoles_def Let_def)


section \<open>Handlers that call the next one at most once\<close>

text \<open>
  A middleware seen as a gate: with a response not yet started, it either answers by itself, with a
  status of \<open>codes\<close> and whatever the next handler is, or it calls the next handler exactly once, on a
  request and state related to its own by \<open>Q\<close>, and leaves the response to it.
\<close>

definition gate_at ::
  "int set \<Rightarrow> (http_request \<times> 'g rstate \<Rightarrow> http_request \<times> 'g rstate \<Rightarrow> bool) \<Rightarrow> 'g middleware \<Rightarrow>
   ResponseWriter \<Rightarrow> http_request \<Rightarrow> 'g rstate \<Rightarrow> bool" where
  "gate_at codes Q mw w r st \<longleftrightarrow>
     (\<exists>out code. code \<in> codes \<and> resp_status out = Some code \<and> (\<forall>next. mw next w r st = out)) \<or>
     (\<exists>w' r' st' post. Q (r, st) (r', st') \<and> resp_status st' = None \<and>
        (\<forall>next. mw next w r st = post (next w' r' st')) \<and>
        (\<forall>s. resp_status (post s) = resp_status s \<and> resp_body (post s) = resp_body s))"

definition gate ::
  "int set \<Rightarrow> (http_request \<times> 'g rstate \<Rightarrow> http_request \<times> 'g rstate \<Rightarrow> bool) \<Rightarrow> 'g middleware \<Rightarrow> bool" where
  "gate codes Q mw \<longleftrightarrow> (\<forall>w r st. resp_status st = None \<longrightarrow> gate_at codes Q mw w r st)"

lemma gateI: "(\<And>w r st. resp_status st = None \<Longrightarrow> gate_at codes Q mw w r st) \<Longrightarrow> gate codes Q mw"
  by (simp add: gate_def)

lemma gate_answerI:
  assumes "\<And>next. mw next w r st = out" and "resp_status out = Some code" and "code \<in> codes"
  shows "gate_at codes Q mw w r st"
  unfolding gate_at_def
proof (intro disjI1 exI conjI allI)
  show "mw next w r st = out" for "next" by (rule assms(1))
qed (rule assms)+

lemma gate_passI:
  assumes "passes mw (w, r, st) (w', r', st') post" and "Q (r, st) (r', st')" and "resp_status st' = None"
    and "\<And>s. resp_status (post s) = resp_status s \<and> resp_body (post s) = resp_body s"
  shows "gate_at codes Q mw w r st"
  unfolding gate_at_def
proof (intro disjI2 exI)
  show "Q (r, st) (r', st') \<and> resp_status st' = None \<and> (\<forall>next. mw next w r st = post (next w' r' st')) \<and>
      (\<forall>s. resp_status (post s) = resp_status s \<and> resp_body (post s) = resp_body s)"
    using assms by (simp add: passes_def)
qed

lemma gate_answers:
  assumes "gate codes Q mw" and "resp_status st = None"
  obtains (answered) out code where "code \<in> codes" and "resp_status out = Some code"
      and "\<And>next. mw next w r st = out"
    | (passed) w' r' st' post where "Q (r, st) (r', st')" and "resp_status st' = None"
      and "\<And>next. mw next w r st = post (next w' r' st')"
      and "\<And>s. resp_status (post s) = resp_status s \<and> resp_body (post s) = resp_body s"
proof -
  have "gate_at codes Q mw w r st" using assms by (simp add: gate_def)
  then show thesis
    unfolding gate_at_def
  proof (elim disjE exE conjE)
    fix out code
    assume "code \<in> codes" "resp_status out = Some code" "\<forall>next. mw next w r st = out"
    then show thesis using answered by blast
  next
    fix w' r' st' post
    assume "Q (r, st) (r', st')" "resp_status st' = None" "\<forall>next. mw next w r st = post (next w' r' st')"
      "\<forall>s. resp_status (post s) = resp_status s \<and> resp_body (post s) = resp_body s"
    then show thesis using passed by blast
  qed
qed

lemma gate_comp:
  assumes "gate A Q mw" and "gate B R mw'"
  shows "gate (A \<union> B) (Q OO R) (\<lambda>next. mw (mw' next))"
proof (rule gateI)
  fix w and r :: http_request and st :: "'a rstate"
  assume st: "resp_status st = None"
  show "gate_at (A \<union> B) (Q OO R) (\<lambda>next. mw (mw' next)) w r st"
    using assms(1) st
  proof (cases rule: gate_answers [where w = w and r = r])
    case (answered out code)
    then show ?thesis by (intro gate_answerI) auto
  next
    case p: (passed w' r' st' post)
    show ?thesis
      using assms(2) p(2)
    proof (cases rule: gate_answers [where w = w' and r = r'])
      case (answered out code)
      show ?thesis
      proof (rule gate_answerI)
        show "mw (mw' next) w r st = post out" for "next" using p(3) answered(3) by simp
      qed (use p(4) answered(1,2) in auto)
    next
      case q: (passed w'' r'' st'' post')
      show ?thesis
      proof (rule gate_passI)
        show "passes (\<lambda>next. mw (mw' next)) (w, r, st) (w'', r'', st'') (post \<circ> post')"
          using p(3) q(3) by (simp add: passes_def)
        show "(Q OO R) (r, st) (r'', st'')" using p(1) q(1) by blast
      qed (use p(4) q(2,4) in simp_all)
    qed
  qed
qed


section \<open>The stages of the gateway\<close>

definition passRequestID :: "string \<Rightarrow> http_request \<times> 'g rstate \<Rightarrow> http_request \<times> 'g rstate \<Rightarrow> bool" where
  "passRequestID newID = (\<lambda>(r, st) (r', st').
     r' = r\<lparr>r_ctx := (r_ctx r)\<lparr>c_requestID := newID\<rparr>\<rparr> \<and> global st' = global st)"

definition passMetrics :: "http_request \<times> 'g rstate \<Rightarrow> http_request \<times> 'g rstate \<Rightarrow> bool" where
  "passMetrics = (\<lambda>(r, st) (r', st').
     r' = r\<lparr>r_ctx := (r_ctx r)\<lparr>c_bodySizePtr := True, c_statusCodePtr := True\<rparr>\<rparr> \<and> global st' = global st)"

definition passAudit :: "Options \<Rightarrow> 'g Publisher \<Rightarrow> http_request \<times> 'g rstate \<Rightarrow> http_request \<times> 'g rstate \<Rightarrow> bool" where
  "passAudit opts pub = (\<lambda>(r, st) (r', st').
     r' = r\<lparr>r_ctx := (r_ctx r)\<lparr>c_authzResultPtr := True, c_bodyBytesPtr := LogBody opts \<or> c_bodyBytesPtr (r_ctx r)\<rparr>\<rparr> \<and>
     (case (if FailClosed opts then reserver pub else None) of
        None \<Rightarrow> global st' = global st
      | Some (reserve, _) \<Rightarrow> reserve (global st) = (True, global st')))"

definition passAuthn ::
  "(string \<Rightarrow> 'g \<Rightarrow> KeyRecord option sres) \<Rightarrow> HmacService \<Rightarrow> Resolver \<Rightarrow> gotime \<Rightarrow>
   http_request \<times> 'g rstate \<Rightarrow> http_request \<times> 'g rstate \<Rightarrow> bool" where
  "passAuthn getByID h resolver now = (\<lambda>(r, st) (r', st').
     (\<exists>keyID secret rec. header_Get (r_Header r) ''X-API-Key'' = keyID @ CHR '':'' # secret \<and>
        CHR '':'' \<notin> set keyID \<and> keyID \<noteq> '''' \<and> secret \<noteq> '''' \<and>
        getByID keyID (global st) = Inr (Some rec) \<and> key_grants h resolver now r secret rec \<and>
        r' = admitted r rec) \<and> st' = st)"

definition passRate :: "(string \<Rightarrow> 'g \<Rightarrow> bool \<times> 'g) \<Rightarrow> http_request \<times> 'g rstate \<Rightarrow> http_request \<times> 'g rstate \<Rightarrow> bool" where
  "passRate allow = (\<lambda>(r, st) (r', st').
     r' = r \<and> (if c_principal (r_ctx r) = '''' then global st' = global st
                else allow (c_principal (r_ctx r)) (global st) = (True, global st')))"

definition passBody :: "int \<Rightarrow> http_request \<times> 'g rstate \<Rightarrow> http_request \<times> 'g rstate \<Rightarrow> bool" where
  "passBody maxBytes = (\<lambda>(r, st) (r', st').
     global st' = global st \<and>
     (case r_Body r of
        NoBody \<Rightarrow> r' = r\<lparr>r_ctx := (r_ctx r)\<lparr>c_bodyBytes := None\<rparr>\<rparr>
      | Body data fails \<Rightarrow> \<not> fails \<and> int (length data) \<le> maxBytes \<and>
          r' = r\<lparr>r_Body := Body data False, r_ContentLength := int (length data),
                 r_ctx := (r_ctx r)\<lparr>c_bodyBytes := Some data\<rparr>\<rparr>))"

definition passAuthz :: "'g authorizer \<Rightarrow> http_request \<times> 'g rstate \<Rightarrow> http_request \<times> 'g rstate \<Rightarrow> bool" where
  "passAuthz authorize = (\<lambda>(r, st) (r', st').
     r' = r \<and> c_roles (r_ctx r) \<noteq> [] \<and>
     (\<exists>plugin reason. authorize (c_roles (r_ctx r)) (authz_request r) (global st) =
        ((''allow'', plugin, reason), global st')))"

lemmas pass_defs = passRequestID_def passMetrics_def passAudit_def passAuthn_def passRate_def passBody_def
  passAuthz_def

lemma gate_RequestID: "gate {} (passRequestID newID) (RequestID newID)"
  by (rule gateI, rule gate_passI [OF passes_RequestID]) (simp_all add: passRequestID_def setHeader_def)

lemma gate_metrics: "gate {} passMetrics metrics_Middleware"
  by (rule gateI, rule gate_passI [OF passes_metrics]) (simp_all add: passMetrics_def)

lemma gate_tracing: "gate {} (=) (tracing_Middleware endSpan)"
  by (rule gateI, rule gate_passI [OF passes_tracing]) (simp_all add: tracing_Middleware_def Let_def)

lemma gate_audit: "gate {503} (passAudit opts pub) (audit_Middleware T pub opts resolver start now ended)"
proof (rule gateI)
  fix w and r :: http_request and st :: "'a rstate"
  assume st: "resp_status st = None"
  let ?mw = "audit_Middleware T pub opts resolver start now ended"
  let ?slot = "if FailClosed opts then reserver pub else None"
  show "gate_at {503} (passAudit opts pub) ?mw w r st"
  proof (cases "\<exists>g. case ?slot of None \<Rightarrow> g = global st | Some (reserve, _) \<Rightarrow> reserve (global st) = (True, g)")
    case True
    then obtain g where g: "case ?slot of None \<Rightarrow> g = global st | Some (reserve, _) \<Rightarrow> reserve (global st) = (True, g)"
      by blast
    show ?thesis
      by (rule passes_audit [OF g, where r = r and w = w], erule gate_passI)
         (use g st in \<open>simp_all add: passAudit_def split: if_splits option.splits prod.splits\<close>)
  next
    case False
    then obtain reserve commit g where f: "?slot = Some (reserve, commit)" "reserve (global st) = (False, g)"
      by (cases ?slot) (auto, metis (full_types) surj_pair)
    show ?thesis
      by (rule gate_answerI [where out = "http_Error w ''audit unavailable'' 503
            (st\<lparr>cell_authzResult := \<lparr>ar_Decision = [], ar_Plugin = [], ar_Reason = []\<rparr>, cell_bodyBytes := None, global := g\<rparr>)"])
         (use f st in \<open>simp_all add: audit_Middleware_def Let_def\<close>)
  qed
qed

lemma gate_authn_found:
  assumes p: "presents_key r keyID secret" and rec: "getByID keyID (global st) = Inr (Some rec)"
    and st: "resp_status st = None"
  shows "gate_at {401, 500} (passAuthn getByID h resolver now)
    (authn_Middleware getByID (Authenticate h) resolver now) w r st"
proof -
  note k = p [unfolded presents_key_def, THEN conjunct1] p [unfolded presents_key_def, THEN conjunct2, THEN conjunct1]
    p [unfolded presents_key_def, THEN conjunct2, THEN conjunct2, THEN conjunct1]
    p [unfolded presents_key_def, THEN conjunct2, THEN conjunct2, THEN conjunct2]
  note found = authn_Middleware_found [OF k, of getByID st rec, OF rec]
  consider (grants) "key_grants h resolver now r secret rec"
    | (denied) "\<not> key_grants h resolver now r secret rec" "key_configured h rec"
    | (unusable) "\<not> key_grants h resolver now r secret rec" "\<not> key_configured h rec" by blast
  then show ?thesis
  proof cases
    case grants
    show ?thesis
    proof (rule gate_passI [OF passes_authn [where r = r and st = st and getByID = getByID, OF k rec grants]])
      show "passAuthn getByID h resolver now (r, st) (admitted r rec, st)"
        unfolding passAuthn_def prod.case using k rec grants by blast
    qed (use st in simp_all)
  next
    case denied
    then show ?thesis using st
      by (intro gate_answerI [where out = "http_Error w ''invalid credentials'' 401 st" and code = 401]) (simp_all add: found deny_def)
  next
    case unusable
    then show ?thesis using st
      by (intro gate_answerI [where out = "http_Error w ''internal error'' 500 st" and code = 500]) (simp_all add: found)
  qed
qed

lemma gate_authn:
  "gate {401, 500} (passAuthn getByID h resolver now) (authn_Middleware getByID (Authenticate h) resolver now)"
proof (rule gateI)
  fix w and r :: http_request and st :: "'a rstate"
  assume st: "resp_status st = None"
  let ?mw = "authn_Middleware getByID (Authenticate h) resolver now"
  have answer: "gate_at {401, 500} Q ?mw w r st" if "\<And>next. ?mw next w r st = http_Error w msg code st"
    and "code \<in> {401, 500}" for msg code Q
    using that st by (intro gate_answerI) auto
  show "gate_at {401, 500} (passAuthn getByID h resolver now) ?mw w r st"
  proof (cases "\<exists>keyID secret. presents_key r keyID secret")
    case False
    show ?thesis by (rule answer, rule authn_malformed [OF False]) simp
  next
    case True
    then obtain keyID secret where p: "presents_key r keyID secret" by blast
    consider e where "getByID keyID (global st) = Inl e" | "getByID keyID (global st) = Inr None"
      | rec where "getByID keyID (global st) = Inr (Some rec)"
      by (metis not_None_eq sum.exhaust)
    then show ?thesis
    proof cases
      case 1
      show ?thesis by (rule answer, rule authn_not_found(2) [where getByID = getByID, OF p 1]) simp
    next
      case 2
      show ?thesis by (rule answer, rule authn_not_found(1) [where getByID = getByID, OF p 2]) simp
    next
      case 3
      show ?thesis by (rule gate_authn_found [where getByID = getByID, OF p 3 st])
    qed
  qed
qed

lemma gate_ratelimit: "gate {429} (passRate allow) (ratelimit_Middleware allow)"
proof (rule gateI)
  fix w and r :: http_request and st :: "'a rstate"
  assume st: "resp_status st = None"
  show "gate_at {429} (passRate allow) (ratelimit_Middleware allow) w r st"
  proof (cases "\<exists>g. if c_principal (r_ctx r) = '''' then g = global st else allow (c_principal (r_ctx r)) (global st) = (True, g)")
    case True
    then obtain g where g: "if c_principal (r_ctx r) = '''' then g = global st
        else allow (c_principal (r_ctx r)) (global st) = (True, g)" by blast
    show ?thesis
      by (rule gate_passI [OF passes_ratelimit [where r = r and st = st and allow = allow, OF g]]) (use g st in \<open>simp_all add: passRate_def\<close>)
  next
    case False
    then obtain g where a: "allow (c_principal (r_ctx r)) (global st) = (False, g)" "c_principal (r_ctx r) \<noteq> ''''"
      by (metis (full_types) surj_pair)
    then show ?thesis
      by (intro gate_answerI [where out = "http_Error w ''rate limit exceeded'' 429
            (setHeader ''Retry-After'' ''1'' (st\<lparr>global := g\<rparr>))"])
         (simp_all add: ratelimit_Middleware_def context_defs st a setHeader_def)
  qed
qed

text \<open>A body that was read within the limit is the whole body.\<close>

lemma readLimited_whole:
  assumes "0 \<le> maxBytes" and "maxBytes < 2 ^ 63 - 1"
    and "readLimited (wrap64 (maxBytes + 1)) data fails = Some body" and "int (length body) \<le> maxBytes"
  shows "body = data \<and> \<not> fails"
proof -
  have "wrap64 (maxBytes + 1) = maxBytes + 1" using assms by (intro wrap64_id) auto
  then show ?thesis using assms by (auto simp: readLimited_def split: if_splits)
qed

lemma gate_BodyBuffer:
  assumes "0 \<le> maxBytes" and "maxBytes < 2 ^ 63 - 1"
  shows "gate {413, 500} (passBody maxBytes) (BodyBuffer maxBytes)"
proof (rule gateI)
  fix w and r :: http_request and st :: "'a rstate"
  assume st: "resp_status st = None"
  show "gate_at {413, 500} (passBody maxBytes) (BodyBuffer maxBytes) w r st"
  proof (cases "r_Body r")
    case NoBody
    then show ?thesis
      by (intro gate_passI [where post = "\<lambda>s. s" and w' = w and r' = "r\<lparr>r_ctx := (r_ctx r)\<lparr>c_bodyBytes := None\<rparr>\<rparr>"
            and st' = st])
         (simp_all add: passes_def BodyBuffer_def passBody_def context_defs st)
  next
    case (Body data fails)
    have answer: "gate_at {413, 500} Q (BodyBuffer maxBytes) w r st"
      if "\<And>next. BodyBuffer maxBytes next w r st = http_Error w msg code st" and "code \<in> {413, 500}" for msg code Q
      using that st by (intro gate_answerI) auto
    show ?thesis
    proof (cases "maxBytes > 0 \<and> r_ContentLength r > maxBytes")
      case True
      then show ?thesis by (intro answer [of _ 413]) (simp_all add: BodyBuffer_def Body)
    next
      case len: False
      show ?thesis
      proof (cases "readLimited (wrap64 (maxBytes + 1)) data fails")
        case None
        with len show ?thesis by (intro answer [of _ 500]) (auto simp add: BodyBuffer_def Body)
      next
        case (Some body)
        show ?thesis
        proof (cases "int (length body) \<le> maxBytes")
          case True
          then have b: "body = data" "\<not> fails" using readLimited_whole [OF assms Some] by auto
          let ?st = "if c_bodySizePtr (r_ctx r) then st\<lparr>cell_bodySize := int (length data)\<rparr> else st"
          let ?st' = "if c_bodyBytesPtr (r_ctx r) then ?st\<lparr>cell_bodyBytes := Some data\<rparr> else ?st"
          let ?r = "r\<lparr>r_Body := Body data False, r_ContentLength := int (length data),
                 r_ctx := (r_ctx r)\<lparr>c_bodyBytes := Some data\<rparr>\<rparr>"
          show ?thesis
          proof (rule gate_passI [where post = "\<lambda>s. s"])
            show "passes (BodyBuffer maxBytes) (w, r, st) (w, ?r, ?st') (\<lambda>s. s)"
              using len Some True b by (auto simp: passes_def BodyBuffer_def Body context_defs Let_def)
            show "passBody maxBytes (r, st) (?r, ?st')"
              using True b by (simp add: passBody_def Body)
          qed (use st in simp_all)
        next
          case False
          with len Some show ?thesis by (intro answer [of _ 413]) (auto simp add: BodyBuffer_def Body)
        qed
      qed
    qed
  qed
qed

lemma gate_authz: "gate {403} (passAuthz authorize) (authz_Middleware authorize)"
proof (rule gateI)
  fix w and r :: http_request and st :: "'a rstate"
  assume st: "resp_status st = None"
  let ?mw = "authz_Middleware authorize"
  obtain decision plugin reason g where a: "authorize (c_roles (r_ctx r)) (authz_request r) (global st) =
      ((decision, plugin, reason), g)"
    by (metis surj_pair)
  let ?st = "writeResult r decision plugin reason (st\<lparr>global := g\<rparr>)"
  have keep: "resp_status (writeResult r d p q s) = resp_status s" "global (writeResult r d p q s) = global s"
    for d p q and s :: "'a rstate" by (simp_all add: writeResult_def)
  have roles: "GetRoles (r_ctx r) = c_roles (r_ctx r)" by (simp add: context_defs)
  consider "c_roles (r_ctx r) = []" | "c_roles (r_ctx r) \<noteq> []" "decision = ''allow''"
    | "c_roles (r_ctx r) \<noteq> []" "decision \<noteq> ''allow''" by blast
  then show "gate_at {403} (passAuthz authorize) ?mw w r st"
  proof cases
    case 1
    then show ?thesis
      by (intro gate_answerI [where out = "http_Error w ''Forbidden: no roles assigned'' 403
            (writeResult r ''deny'' '''' ''no roles assigned'' st)"])
         (simp_all add: authz_Middleware_def roles keep st Let_def)
  next
    case 2
    show ?thesis
      by (rule gate_passI [OF passes_authz [where r = r and st = st and authorize = authorize, OF 2(1) a [unfolded 2(2)]]])
         (use a 2 in \<open>simp_all add: passAuthz_def keep st\<close>)
  next
    case 3
    then show ?thesis
      by (intro gate_answerI [where out = "http_Error w ''Forbidden'' 403 ?st"])
         (simp_all add: authz_Middleware_def roles keep st a Let_def)
  qed
qed


section \<open>The gateway as a whole\<close>

definition passGateway :: "'g gateway \<Rightarrow> readings \<Rightarrow> http_request \<times> 'g rstate \<Rightarrow> http_request \<times> 'g rstate \<Rightarrow> bool" where
  "passGateway gw rd =
     passRequestID (rd_newID rd) OO passMetrics OO (=) OO passAudit (gw_auditOpts gw) (gw_auditPub gw) OO
     passAuthn (gw_getByID gw) (gw_authn gw) (gw_resolver gw) (rd_authn rd) OO passRate (gw_rl gw) OO
     passBody (gw_maxBodySize gw) OO passAuthz (gw_authorize gw)"

lemma gate_gateway:
  assumes "0 \<le> gw_maxBodySize gw" and "gw_maxBodySize gw < 2 ^ 63 - 1"
  shows "gate {401, 403, 413, 429, 500, 503} (passGateway gw rd) (Chain (gateway_middlewares gw rd))"
proof -
  have "gate ({} \<union> ({} \<union> ({} \<union> ({503} \<union> ({401, 500} \<union> ({429} \<union> ({413, 500} \<union> {403})))))))
      (passGateway gw rd) (Chain (gateway_middlewares gw rd))"
    unfolding passGateway_def gateway_middlewares_def Chain_Cons Chain_Nil
    by (rule gate_comp [OF gate_RequestID gate_comp [OF gate_metrics gate_comp [OF gate_tracing
          gate_comp [OF gate_audit gate_comp [OF gate_authn gate_comp [OF gate_ratelimit
          gate_comp [OF gate_BodyBuffer [OF assms] gate_authz]]]]]]])
  moreover have "{} \<union> ({} \<union> ({} \<union> ({503} \<union> ({401, 500} \<union> ({429} \<union> ({413, 500} \<union> {403})))))) =
      {401, 403, 413, 429, 500, 503 :: int}" by auto
  ultimately show ?thesis by simp
qed

lemma key_grants_ctx [simp]:
  "key_grants h resolver now (r\<lparr>r_ctx := c\<rparr>) secret rec = key_grants h resolver now r secret rec"
proof -
  have "ClientIP resolver (r\<lparr>r_ctx := c\<rparr>) = ClientIP resolver r"
    by (simp add: ClientIP_def peerIP_def Let_def split: option.split)
  then show ?thesis by (simp add: key_grants_def source_allowed_def)
qed

text \<open>What a request that passes all stages has shown, and what the backend gets.\<close>

definition admission ::
  "'g gateway \<Rightarrow> readings \<Rightarrow> http_request \<Rightarrow> 'g rstate \<Rightarrow> http_request \<Rightarrow> 'g rstate \<Rightarrow> KeyRecord \<Rightarrow> bool" where
  "admission gw rd r st r' st' rec \<longleftrightarrow>
     (\<exists>keyID secret g1 g2 plugin reason.
        (case (if FailClosed (gw_auditOpts gw) then reserver (gw_auditPub gw) else None) of
           None \<Rightarrow> g1 = global st
         | Some (reserve, _) \<Rightarrow> reserve (global st) = (True, g1)) \<and>
        header_Get (r_Header r) ''X-API-Key'' = keyID @ CHR '':'' # secret \<and> CHR '':'' \<notin> set keyID \<and>
        keyID \<noteq> '''' \<and> secret \<noteq> '''' \<and>
        gw_getByID gw keyID g1 = Inr (Some rec) \<and>
        key_grants (gw_authn gw) (gw_resolver gw) (rd_authn rd) r secret rec \<and>
        (if KPrincipal rec = '''' then g2 = g1 else gw_rl gw (KPrincipal rec) g1 = (True, g2)) \<and>
        KRoles rec \<noteq> [] \<and>
        gw_authorize gw (KRoles rec) (authz_request r') g2 = ((''allow'', plugin, reason), global st'))"

text \<open>The request as the backend sees it: the client's, with the body read and the identity in the context.\<close>

definition forwarded :: "'g gateway \<Rightarrow> readings \<Rightarrow> http_request \<Rightarrow> KeyRecord \<Rightarrow> http_request \<Rightarrow> bool" where
  "forwarded gw rd r rec r' \<longleftrightarrow>
     (r_Method r', r_Scheme r', r_Host r', r_Path r', r_RawQuery r', r_Header r', r_RemoteAddr r') =
       (r_Method r, r_Scheme r, r_Host r, r_Path r, r_RawQuery r, r_Header r, r_RemoteAddr r) \<and>
     (c_requestID (r_ctx r'), c_principal (r_ctx r'), c_keyID (r_ctx r'), c_roles (r_ctx r')) =
       (rd_newID rd, KPrincipal rec, KID rec, KRoles rec) \<and>
     (case r_Body r of
        NoBody \<Rightarrow> r_Body r' = NoBody \<and> c_bodyBytes (r_ctx r') = None
      | Body data fails \<Rightarrow> \<not> fails \<and> int (length data) \<le> gw_maxBodySize gw \<and> r_Body r' = Body data False \<and>
          r_ContentLength r' = int (length data) \<and> c_bodyBytes (r_ctx r') = Some data)"

lemma passGateway_admission:
  assumes "passGateway gw rd (r, st) (r', st')"
  shows "\<exists>rec. admission gw rd r st r' st' rec \<and> forwarded gw rd r rec r'"
proof -
  obtain r1 s1 r2 s2 r3 s3 r4 s4 r5 s5 r6 s6 where
      p: "passRequestID (rd_newID rd) (r, st) (r1, s1)" "passMetrics (r1, s1) (r2, s2)"
        "passAudit (gw_auditOpts gw) (gw_auditPub gw) (r2, s2) (r3, s3)"
        "passAuthn (gw_getByID gw) (gw_authn gw) (gw_resolver gw) (rd_authn rd) (r3, s3) (r4, s4)"
        "passRate (gw_rl gw) (r4, s4) (r5, s5)" "passBody (gw_maxBodySize gw) (r5, s5) (r6, s6)"
        "passAuthz (gw_authorize gw) (r6, s6) (r', st')"
    using assms unfolding passGateway_def eq_OO by (elim relcomppE) auto
  obtain c where c: "r3 = r\<lparr>r_ctx := c\<rparr>" "c_requestID c = rd_newID rd" and g: "global s2 = global st"
    using p(1-3) by (auto simp: pass_defs)
  obtain keyID secret rec where a: "header_Get (r_Header r) ''X-API-Key'' = keyID @ CHR '':'' # secret"
      "CHR '':'' \<notin> set keyID" "keyID \<noteq> ''''" "secret \<noteq> ''''" "gw_getByID gw keyID (global s3) = Inr (Some rec)"
      "key_grants (gw_authn gw) (gw_resolver gw) (rd_authn rd) r secret rec"
    and r4: "r4 = admitted r3 rec" "s4 = s3"
    using p(4) by (auto simp: passAuthn_def c)
  have body: "r5 = r4" "c_principal (r_ctx r6) = KPrincipal rec" "c_roles (r_ctx r6) = KRoles rec"
      "r' = r6" "global s6 = global s5"
    using p(5-7) by (auto simp: pass_defs r4 c split: body.splits)
  obtain plugin reason where az: "KRoles rec \<noteq> []"
      "gw_authorize gw (KRoles rec) (authz_request r') (global s5) = ((''allow'', plugin, reason), global st')"
    using p(7) body by (auto simp: passAuthz_def)
  have "admission gw rd r st r' st' rec"
    unfolding admission_def
  proof (intro exI conjI)
    show "case if FailClosed (gw_auditOpts gw) then reserver (gw_auditPub gw) else None of
        None \<Rightarrow> global s3 = global st | Some (reserve, _) \<Rightarrow> reserve (global st) = (True, global s3)"
      using p(3) unfolding passAudit_def prod.case g by (rule conjunct2)
    show "if KPrincipal rec = '''' then global s5 = global s3 else gw_rl gw (KPrincipal rec) (global s3) = (True, global s5)"
      using p(5) by (auto simp: passRate_def r4 c)
  qed (use a az in blast)+
  moreover have "forwarded gw rd r rec r'"
    using p(5,6) body(1,4) by (auto simp: forwarded_def pass_defs r4 c split: body.splits)
  ultimately show ?thesis by blast
qed

text \<open>
  C1: nothing reaches the PowerDNS backend except through every check.  The chain of middlewares in
  front of the backend calls it at most once.  If it does not, the answer is a 401, 403, 413, 429,
  500 or 503 that does not depend on the backend.  If it does, then the audit log had room (in
  fail-closed mode), the request presented a key whose record grants access, the rate limiter
  admitted the record's principal, the authorizer answered allow to the record's roles for the
  very request that is forwarded, and that request is the client's own, with its complete body;
  the status and body of the answer are the backend's.
\<close>

theorem gateway_gate:
  assumes "resp_status st = None" and "0 \<le> gw_maxBodySize gw" and "gw_maxBodySize gw < 2 ^ 63 - 1"
  shows "(\<exists>out code. code \<in> {401, 403, 413, 429, 500, 503} \<and> resp_status out = Some code \<and>
            (\<forall>backend. Chain (gateway_middlewares gw rd) backend w r st = out)) \<or>
         (\<exists>w' r' st' post rec. admission gw rd r st r' st' rec \<and> forwarded gw rd r rec r' \<and>
            resp_status st' = None \<and>
            (\<forall>backend. Chain (gateway_middlewares gw rd) backend w r st = post (backend w' r' st')) \<and>
            (\<forall>s. resp_status (post s) = resp_status s \<and> resp_body (post s) = resp_body s))"
  using gate_gateway [OF assms(2,3), of rd] assms(1)
proof (cases rule: gate_answers [where w = w and r = r])
  case (answered out code)
  then show ?thesis by blast
next
  case (passed w' r' st' post)
  then show ?thesis using passGateway_admission [OF passed(1)] by blast
qed

lemma passes_body:
  assumes "r_ContentLength r \<le> maxBytes" and "maxBytes < 2 ^ 63 - 1"
    and "case r_Body r of NoBody \<Rightarrow> True | Body data fails \<Rightarrow> \<not> fails \<and> int (length data) \<le> maxBytes"
  shows "\<exists>r' st'. passes (BodyBuffer maxBytes) (w, r, st) (w, r', st') (\<lambda>s. s) \<and> passBody maxBytes (r, st) (r', st')"
proof (cases "r_Body r")
  case NoBody
  then show ?thesis
    by (intro exI [of _ "r\<lparr>r_ctx := (r_ctx r)\<lparr>c_bodyBytes := None\<rparr>\<rparr>"] exI [of _ st])
       (simp add: passes_def passBody_def BodyBuffer_def context_defs)
next
  case (Body data fails)
  with assms(3) have b: "r_Body r = Body data False" "int (length data) \<le> maxBytes" by auto
  obtain st' where "global st' = global st" "passes (BodyBuffer maxBytes) (w, r, st)
       (w, r\<lparr>r_Body := Body data False, r_ContentLength := int (length data),
              r_ctx := (r_ctx r)\<lparr>c_bodyBytes := Some data\<rparr>\<rparr>, st') (\<lambda>s. s)"
    using passes_BodyBuffer [OF b assms(1,2)] by blast
  then show ?thesis using b by (intro exI conjI) (assumption, simp add: passBody_def)
qed

text \<open>
  C3: nobody is kept out who should get in.  A request with a key that grants access, of a principal
  that the limiter admits, with a complete body within the limit, that the authorizer allows, is
  forwarded to the backend, unless the audit log is full in fail-closed mode.
\<close>

theorem gateway_admits:
  assumes "case (if FailClosed (gw_auditOpts gw) then reserver (gw_auditPub gw) else None) of
      None \<Rightarrow> ga = global st | Some (reserve, _) \<Rightarrow> reserve (global st) = (True, ga)"
    and "header_Get (r_Header r) ''X-API-Key'' = keyID @ CHR '':'' # secret" and "CHR '':'' \<notin> set keyID"
    and "keyID \<noteq> ''''" and "secret \<noteq> ''''" and "gw_getByID gw keyID ga = Inr (Some rec)"
    and "key_grants (gw_authn gw) (gw_resolver gw) (rd_authn rd) r secret rec"
    and "if KPrincipal rec = '''' then gb = ga else gw_rl gw (KPrincipal rec) ga = (True, gb)"
    and "r_ContentLength r \<le> gw_maxBodySize gw" and "gw_maxBodySize gw < 2 ^ 63 - 1"
    and "case r_Body r of NoBody \<Rightarrow> True | Body data fails \<Rightarrow> \<not> fails \<and> int (length data) \<le> gw_maxBodySize gw"
    and "KRoles rec \<noteq> []"
    and "\<And>r'. forwarded gw rd r rec r' \<Longrightarrow>
      \<exists>plugin reason. gw_authorize gw (KRoles rec) (authz_request r') gb = ((''allow'', plugin, reason), gc)"
  shows "\<exists>w' r' st' post. forwarded gw rd r rec r' \<and> global st' = gc \<and>
    (\<forall>backend. Chain (gateway_middlewares gw rd) backend w r st = post (backend w' r' st'))"
proof -
  define r2 where "r2 = r\<lparr>r_ctx := (r_ctx r)\<lparr>c_requestID := rd_newID rd, c_bodySizePtr := True, c_statusCodePtr := True\<rparr>\<rparr>"
  define s2 where "s2 = (setHeader ''X-Request-ID'' (rd_newID rd) st)\<lparr>cell_statusCode := 200, cell_bodySize := 0\<rparr>"
  define c3 where "c3 = (r_ctx r2)\<lparr>c_authzResultPtr := True,
      c_bodyBytesPtr := LogBody (gw_auditOpts gw) \<or> c_bodyBytesPtr (r_ctx r2)\<rparr>"
  define s3 where "s3 = s2\<lparr>cell_authzResult := \<lparr>ar_Decision = [], ar_Plugin = [], ar_Reason = []\<rparr>,
      cell_bodyBytes := None, global := ga\<rparr>"
  define r4 where "r4 = admitted (r2\<lparr>r_ctx := c3\<rparr>) rec"
  note p1 = passes_RequestID [of "rd_newID rd" w r st]
  have p2: "passes metrics_Middleware (w, r\<lparr>r_ctx := (r_ctx r)\<lparr>c_requestID := rd_newID rd\<rparr>\<rparr>,
      setHeader ''X-Request-ID'' (rd_newID rd) st) (StatusRecorder w, r2, s2) (\<lambda>s. s)"
    using passes_metrics [of w "r\<lparr>r_ctx := (r_ctx r)\<lparr>c_requestID := rd_newID rd\<rparr>\<rparr>"] by (simp add: r2_def s2_def)
  note p3 = passes_tracing [of "gw_endSpan gw" "StatusRecorder w" r2 s2]
  have "global s2 = global st" by (simp add: s2_def setHeader_def)
  then obtain post where p4: "passes (audit_Middleware (gw_tables gw) (gw_auditPub gw) (gw_auditOpts gw) (gw_resolver gw)
      (rd_start rd) (rd_now rd) (rd_ended rd)) (StatusRecorder w, r2, s2) (StatusRecorder w, r2\<lparr>r_ctx := c3\<rparr>, s3) post"
    using passes_audit [where opts = "gw_auditOpts gw" and pub = "gw_auditPub gw" and st = s2 and g = ga and r = r2]
      assms(1) unfolding c3_def s3_def by metis
  have p5: "passes (authn_Middleware (gw_getByID gw) (Authenticate (gw_authn gw)) (gw_resolver gw) (rd_authn rd))
      (StatusRecorder w, r2\<lparr>r_ctx := c3\<rparr>, s3) (StatusRecorder w, r4, s3) (\<lambda>s. s)"
    unfolding r4_def
    by (rule passes_authn [where keyID = keyID and secret = secret]) (use assms(2-7) in \<open>simp_all add: r2_def s3_def\<close>)
  have p6: "passes (ratelimit_Middleware (gw_rl gw)) (StatusRecorder w, r4, s3) (StatusRecorder w, r4, s3\<lparr>global := gb\<rparr>) (\<lambda>s. s)"
    by (rule passes_ratelimit) (use assms(8) in \<open>auto simp: r4_def s3_def\<close>)
  have "r_ContentLength r4 \<le> gw_maxBodySize gw" "r_Body r4 = r_Body r"
    using assms(9) by (simp_all add: r4_def r2_def)
  then obtain r6 s6 where p7: "passes (BodyBuffer (gw_maxBodySize gw)) (StatusRecorder w, r4, s3\<lparr>global := gb\<rparr>)
      (StatusRecorder w, r6, s6) (\<lambda>s. s)" and b: "passBody (gw_maxBodySize gw) (r4, s3\<lparr>global := gb\<rparr>) (r6, s6)"
    using passes_body [of r4 "gw_maxBodySize gw" "StatusRecorder w" "s3\<lparr>global := gb\<rparr>"] assms(10,11) by auto
  have s6: "global s6 = gb" using b by (simp add: passBody_def)
  have fwd: "forwarded gw rd r rec r6"
    using b by (auto simp: passBody_def forwarded_def r4_def r2_def c3_def split: body.splits)
  obtain plugin reason where az: "gw_authorize gw (KRoles rec) (authz_request r6) gb = ((''allow'', plugin, reason), gc)"
    using assms(13) [OF fwd] by blast
  have "passes (authz_Middleware (gw_authorize gw)) (StatusRecorder w, r6, s6)
      (StatusRecorder w, r6, writeResult r6 ''allow'' plugin reason (s6\<lparr>global := gc\<rparr>)) (\<lambda>s. s)"
    by (rule passes_authz) (use fwd az s6 assms(12) in \<open>simp_all add: forwarded_def\<close>)
  note all = passes_comp [OF p1 passes_comp [OF p2 passes_comp [OF p3 passes_comp [OF p4 passes_comp [OF p5
      passes_comp [OF p6 passes_comp [OF p7 this]]]]]]]
  show ?thesis
  proof (intro exI conjI allI)
    show "forwarded gw rd r rec r6" by (rule fwd)
    show "global (writeResult r6 ''allow'' plugin reason (s6\<lparr>global := gc\<rparr>)) = gc" by (simp add: writeResult_def)
  qed (unfold gateway_middlewares_def Chain_Cons Chain_Nil, rule passesD [OF all])
qed

definition demoGateway :: "unit gateway" where
  "demoGateway =
     \<lparr>gw_maxBodySize = 1024,
      gw_auditOpts = \<lparr>LogBody = True, FailClosed = True, BodyMaxBytes = 0, RedactFields = []\<rparr>,
      gw_rl = noop_Allow, gw_getByID = demoLookup, gw_auditPub = audit_Noop,
      gw_authorize = (\<lambda>roles req g. ((''allow'', hd roles, ''''), g)), gw_pluginsHealthy = (\<lambda>_. True),
      gw_authn = demoService, gw_resolver = \<lparr>trusted = []\<rparr>, gw_tables = demoTables, gw_endSpan = (\<lambda>_ g. g)\<rparr>"

definition demoReadings :: readings where
  "demoReadings = \<lparr>rd_newID = ''id1'', rd_start = 1, rd_authn = 2, rd_now = 3, rd_ended = 4, rd_redirect = 307\<rparr>"

lemma demoKey_fields [simp]: "KPrincipal demoKey = ''alice''" "KRoles demoKey \<noteq> []"
  by (simp_all add: demoKey_def)

lemma demoRequest_body [simp]: "r_Body (demoRequest k) = NoBody" "r_ContentLength (demoRequest k) \<le> 1024"
  by (simp_all add: demoRequest_def sampleReq_def)

theorem gateway_admits_witness:
  "\<exists>w' r' st' post. forwarded demoGateway demoReadings (demoRequest ''k_1:pdg_1'') demoKey r' \<and> global st' = () \<and>
    (\<forall>backend. Chain (gateway_middlewares demoGateway demoReadings) backend RawWriter (demoRequest ''k_1:pdg_1'') (freshState ()) =
       post (backend w' r' st'))"
  by (rule gateway_admits [where keyID = "''k_1''" and secret = "''pdg_1''" and ga = "()" and gb = "()"])
     (use demoRequest_header [of "''k_1''" "''pdg_1''"] in
       \<open>simp_all add: demoGateway_def demoReadings_def demoLookup_def demoKey_grants audit_Noop_def noop_Reserve_def
          noop_Allow_def\<close>)

theorem gateway_gate_witness:
  "\<exists>code \<in> {401, 403, 413, 429, 500, 503}. resp_status (Chain (gateway_middlewares demoGateway demoReadings)
     (\<lambda>w r st. WriteHeader w 200 st) RawWriter (demoRequest '''') (freshState ())) = Some code"
proof -
  have hdr: "header_Get (r_Header (demoRequest '''')) ''X-API-Key'' = ''''" by code_simp
  have "\<not> admission demoGateway demoReadings (demoRequest '''') (freshState ()) r' st' rec" for r' st' rec
    by (simp add: admission_def hdr)
  then show ?thesis
    using gateway_gate [of "freshState ()" demoGateway demoReadings RawWriter "demoRequest ''''"]
    by (auto simp: freshState_def demoGateway_def)
qed

text \<open>
  C40: the probes.  On \<^verbatim>\<open>GET /healthz\<close> and \<^verbatim>\<open>GET /readyz\<close> the gateway changes nothing but the response
  and never calls the backend; \<^verbatim>\<open>/healthz\<close> is 200, and \<^verbatim>\<open>/readyz\<close> is 200 exactly if the key store
  answers, a plugin is healthy and a backend is healthy, and otherwise 503.
\<close>

theorem gateway_probes:
  assumes "r_Method r \<in> {''GET'', ''HEAD''}" and "r_Path r \<in> {''/healthz'', ''/readyz''}" and "resp_status st = None"
  shows "let out = newProxyServer gw rd lb w r st; g = global st
         in global out = g \<and>
            resp_status out = Some (if r_Path r = ''/healthz'' \<or>
              (\<exists>found. gw_getByID gw ''__healthcheck__'' g = Inr found) \<and> gw_pluginsHealthy gw g \<and> lb_Healthy lb g
              then 200 else 503)"
proof -
  have clean: "cleanPath ''/healthz'' = ''/healthz''" "cleanPath ''/readyz'' = ''/readyz''" by code_simp+
  have keep: "global (setHeader k v s) = global s" "resp_status (setHeader k v s) = resp_status s"
    for k v and s :: "'a rstate" by (simp_all add: setHeader_def)
  show ?thesis
    using assms
    by (auto simp: newProxyServer_def gatewayMux_def clean probeChain_def RequestID_def metrics_Middleware_def
        healthz_def readinessCheck_def keep Let_def split: sum.split)
qed

definition demoLb :: "unit Backend" where
  "demoLb = \<lparr>lb_ServeHTTP = (\<lambda>w r st. WriteHeader w 200 st), lb_Healthy = (\<lambda>_. False)\<rparr>"

theorem gateway_probes_witness:
  "resp_status (newProxyServer demoGateway demoReadings demoLb RawWriter ((demoRequest '''')\<lparr>r_Path := ''/readyz''\<rparr>)
     (freshState ())) = Some 503"
  using gateway_probes [of "(demoRequest '''')\<lparr>r_Path := ''/readyz''\<rparr>" "freshState ()" demoGateway demoReadings
      demoLb RawWriter]
  by (simp add: demoRequest_def sampleReq_def freshState_def demoLb_def Let_def)

section \<open>Who did it\<close>

text \<open>
  Finding: the audit middleware runs outside the authentication middleware and reads the principal
  and the key ID from its own context, where they are not yet set.  No entry that the gateway
  writes names them: the gateway cannot be told from one whose publisher deletes them.
\<close>

definition anonymous :: "'g Publisher \<Rightarrow> 'g Publisher" where
  "anonymous pub =
     (let anon = (\<lambda>e. e\<lparr>e_Principal := '''', e_KeyID := ''''\<rparr>)
      in \<lparr>publish = (\<lambda>e. publish pub (anon e)),
          reserver = map_option (\<lambda>(reserve, commit). (reserve, \<lambda>e. commit (anon e))) (reserver pub)\<rparr>)"

lemma audit_anonymous:
  assumes "c_principal (r_ctx r) = ''''" and "c_keyID (r_ctx r) = ''''"
  shows "audit_Middleware T (anonymous pub) opts resolver start now ended next w r st =
         audit_Middleware T pub opts resolver start now ended next w r st"
proof -
  have "(buildEntry T opts resolver start now ended ctx r' s)\<lparr>e_Principal := '''', e_KeyID := ''''\<rparr> =
      buildEntry T opts resolver start now ended ctx r' s"
    if "c_principal ctx = ''''" "c_keyID ctx = ''''" for ctx r' and s :: "'a rstate"
    using that by (simp add: buildEntry_def context_defs Let_def)
  moreover have "c_principal (WithBodyBytesPtr (WithAuthzResultPtr (r_ctx r))) = ''''"
      "c_principal (WithAuthzResultPtr (r_ctx r)) = ''''"
      "c_keyID (WithBodyBytesPtr (WithAuthzResultPtr (r_ctx r))) = ''''" "c_keyID (WithAuthzResultPtr (r_ctx r)) = ''''"
    using assms by (simp_all add: context_defs)
  ultimately show ?thesis
    by (cases "LogBody opts"; cases "FailClosed opts"; cases "reserver pub")
       (auto simp: audit_Middleware_def anonymous_def Let_def split: prod.split bool.split)
qed

lemma gateway_audit_anonymous:
  assumes "c_principal (r_ctx r) = ''''" and "c_keyID (r_ctx r) = ''''"
  shows "Chain (gateway_middlewares (gw\<lparr>gw_auditPub := anonymous (gw_auditPub gw)\<rparr>) rd) backend w r st =
         Chain (gateway_middlewares gw rd) backend w r st"
  using assms
  by (simp add: gateway_middlewares_def RequestID_def metrics_Middleware_def tracing_Middleware_def audit_anonymous
      context_defs Let_def)


section \<open>The configured secrets\<close>

lemma fold_upd: "fold (\<lambda>s m. m(f s \<mapsto> v s)) ss m0 k =
    (case find (\<lambda>s. f s = k) (rev ss) of None \<Rightarrow> m0 k | Some s \<Rightarrow> Some (v s))"
  by (induction ss rule: rev_induct) auto

text \<open>With distinct IDs, the gateway verifies with the secret that keys are generated with.\<close>

lemma hmacSecrets_current:
  assumes "CurrentHmacSecret c = Some s" and "distinct (map hs_ID (HmacSecrets c))"
  shows "hmacSecrets c (hs_ID s) = Some (hs_Secret s)"
proof -
  obtain ss where ss: "HmacSecrets c = s # ss"
    using assms(1) by (auto simp: CurrentHmacSecret_def split: list.splits)
  then have "hs_ID x \<noteq> hs_ID s" if "x \<in> set ss" for x
    using assms(2) that by (auto simp: image_iff)
  then have "find (\<lambda>x. hs_ID x = hs_ID s) (rev ss) = None" by (simp add: find_None_iff)
  then show ?thesis by (simp add: hmacSecrets_def fold_upd ss)
qed

text \<open>
  Finding: validation does not demand distinct IDs.  Then keys are generated with the first secret
  of an ID and verified with the last, so that no new key works.
\<close>

definition twiceConfig :: Config where
  "twiceConfig = demoConfig\<lparr>HmacSecrets :=
     [\<lparr>hs_ID = ''h'', hs_Secret = replicate 32 CHR ''a'', hs_SecretFile = ''''\<rparr>,
      \<lparr>hs_ID = ''h'', hs_Secret = replicate 32 CHR ''b'', hs_SecretFile = ''''\<rparr>]\<rparr>"

lemma duplicate_hmac_id:
  "validate demoStat twiceConfig = None"
  "map_option hs_Secret (CurrentHmacSecret twiceConfig) = Some (replicate 32 CHR ''a'')"
  "hmacSecrets twiceConfig ''h'' = Some (replicate 32 CHR ''b'')"
  by code_simp+


section \<open>The configured plugins\<close>

lemma newManagerLoop_names:
  "newManagerLoop bin pcs started m = (Inr started', m') \<Longrightarrow>
   fst ` set started' = fst ` set started \<union> fst ` set pcs"
proof (induction pcs arbitrary: started m)
  case (Cons p pcs)
  obtain name pc where p: "p = (name, pc)" by (cases p)
  obtain inst ks where start: "startPlugin name pc (bin name) = (Inr inst, ks)"
    using Cons.prems by (cases "startPlugin name pc (bin name)"; cases "fst (startPlugin name pc (bin name))") (auto simp: p)
  have "newManagerLoop bin pcs (AList.update name (fresh m) started) (snd (alloc inst m)) = (Inr started', m')"
    using Cons.prems by (simp add: p start alloc_def)
  from Cons.IH [OF this] show ?case
    by (simp add: p dom_update)
qed simp

lemma resolvePlugins_names:
  "resolvePlugins c names = Inr pcs \<Longrightarrow> map fst pcs = names"
proof (induction names arbitrary: pcs)
  case (Cons name names)
  then show ?case by (cases "resolvePlugins c names") (auto split: option.splits)
qed simp

text \<open>
  The authorizer starts with exactly the configured roles.  If the plugin manager opens, it has
  a plugin for every configured name and no other; without any configured plugin, or if a plugin
  does not start, it does not open.
\<close>

theorem openPluginManager_roles:
  assumes "openPluginManager bin mem c = (Inr (), Some m)"
  shows "fst ` set (plugins m) = fst ` set (cfg_Plugins c) \<and> cfg_Plugins c \<noteq> []"
proof -
  have ne: "cfg_Plugins c \<noteq> []" using assms by (auto simp: openPluginManager_def)
  obtain pcs where pcs: "resolvePlugins c (map fst (cfg_Plugins c)) = Inr pcs"
    using assms by (cases "resolvePlugins c (map fst (cfg_Plugins c))") (auto simp: openPluginManager_def ne)
  obtain e m0 where nm: "NewManager bin pcs mem = (e, m0)" by (cases "NewManager bin pcs mem")
  then have "e = Inr ()" "m0 = m"
    using assms by (cases e; simp add: openPluginManager_def ne pcs)+
  define init where "init = \<lparr>plugins = [], mgr_done = False, closed = False, heap = mem, fresh = 0, killed = []\<rparr>"
  obtain res m1 where loop: "newManagerLoop bin pcs [] init = (res, m1)" by (cases "newManagerLoop bin pcs [] init")
  with nm \<open>e = Inr ()\<close> \<open>m0 = m\<close> obtain instances where "res = Inr instances" "plugins m = instances"
    by (cases res) (auto simp: NewManager_def init_def [symmetric])
  with loop have "fst ` set (plugins m) = fst ` set pcs"
    using newManagerLoop_names [of bin pcs "[]" init instances m1] by simp
  moreover have "map fst pcs = map fst (cfg_Plugins c)" using pcs by (rule resolvePlugins_names)
  ultimately show ?thesis using ne by (metis set_map)
qed

definition okBinary :: plugin_binary where
  "okBinary = \<lparr>bin_content = Some ''elf'', bin_perm = Some 0x1ED, bin_launch = Launched, bin_client = 8\<rparr>"

text \<open>
  Validation accepts a configuration without plugins, on which the start-up then fails.
\<close>

lemma validated_without_plugins:
  "\<exists>c. Load (\<lambda>d p. (ReadOk, Some c)) (\<lambda>p. None) demoStat [] = Inr c \<and>
     openPluginManager bin mem c = (Inl ''no plugins configured: at least one authorization plugin is required'', None)"
proof (intro exI conjI)
  let ?c = "demoConfig\<lparr>cfg_Plugins := []\<rparr>"
  have "validate demoStat ?c = None" by code_simp
  then show "Load (\<lambda>d p. (ReadOk, Some ?c)) (\<lambda>p. None) demoStat [] = Inr ?c"
    by (simp add: Load_def resolveSecretFiles_def resolve_def demoConfig_def)
  show "openPluginManager bin mem ?c = (Inl ''no plugins configured: at least one authorization plugin is required'', None)"
    by (simp add: openPluginManager_def)
qed

lemma demoConfig_opens:
  "\<exists>m. openPluginManager (\<lambda>_. okBinary) (\<lambda>_. demoInst ''p'') demoConfig = (Inr (), Some m)"
  by (simp add: openPluginManager_def demoConfig_def PluginConfigResolved_def NewManager_def startPlugin_def okBinary_def
      hashFile_def alloc_def Let_def)

theorem openPluginManager_roles_witness:
  "\<exists>m. openPluginManager (\<lambda>_. okBinary) (\<lambda>_. demoInst ''p'') demoConfig = (Inr (), Some m) \<and>
       fst ` set (plugins m) = {''admin''}"
  using demoConfig_opens openPluginManager_roles [of "\<lambda>_. okBinary" "\<lambda>_. demoInst ''p''" demoConfig]
  by (auto simp: demoConfig_def)

end
