(* ===== verification/Lifecycle.thy ===== *)
theory Lifecycle
  imports Gateway
begin

text \<open>
  What \<^verbatim>\<open>src/cmd/pdag/serve.go\<close> runs besides the handlers: the cleanup of expired keys, the handler of
  \<^verbatim>\<open>SIGHUP\<close>, \<^verbatim>\<open>listenAndServe\<close> with its goroutines, as a step relation, and the start-up \<^verbatim>\<open>runServe\<close> with
  its deferred releases.
\<close>

section \<open>Cleanup of expired keys\<close>

text \<open>One tick at the time \<open>now\<close>; a failure to delete or to audit is only logged.\<close>

definition cleanupTick :: "'s KeyManager \<Rightarrow> gotime \<Rightarrow> 's \<Rightarrow> 's" where
  "cleanupTick mgr now s =
     (case m_DeleteExpired mgr now s of
        (Inl _, s) \<Rightarrow> s
      | (Inr n, s) \<Rightarrow>
          (if n > 0 then
             snd (m_AuditKeyEvent mgr '''' ''auto_cleanup'' ''system'' JNull
                    (JObj [(''deleted'', JNum (strconv_Itoa n))]) s)
           else s))"

text \<open>The loop, over what its \<^verbatim>\<open>select\<close> receives.\<close>

datatype cleanup_event = Tick gotime | CtxDone

fun runKeyCleanup :: "'s KeyManager \<Rightarrow> cleanup_event list \<Rightarrow> 's \<Rightarrow> 's" where
  "runKeyCleanup mgr [] s = s"
| "runKeyCleanup mgr (CtxDone # es) s = s"
| "runKeyCleanup mgr (Tick now # es) s = runKeyCleanup mgr es (cleanupTick mgr now s)"

lemma cleanupTick_view:
  assumes "key_manager mgr view invar storable storable_time" and "invar s" and "storable_time t"
    and "m_DeleteExpired mgr t s = (Inr n, s1)"
  shows "invar (cleanupTick mgr t s)"
    and "view (cleanupTick mgr t s) = (\<lambda>k. if expiredKey t (view s) k then None else view s k)"
proof -
  note inv = key_manager.call_invar [OF assms(1)]
  have i1: "invar s1" using inv [OF assms(2), of _ "CallDeleteExpired t"] assms(4) by simp
  have v1: "view s1 = (\<lambda>k. if expiredKey t (view s) k then None else view s k)"
    using key_manager.DeleteExpired_view [OF assms(1-4)] by simp
  note audit = inv [OF i1, of _ "CallAuditKeyEvent '''' ''auto_cleanup'' ''system'' JNull
      (JObj [(''deleted'', JNum (strconv_Itoa n))])", simplified]
    key_manager.AuditKeyEvent_view [OF assms(1) i1]
  show "invar (cleanupTick mgr t s)" using i1 audit(1) by (simp add: cleanupTick_def assms(4))
  show "view (cleanupTick mgr t s) = (\<lambda>k. if expiredKey t (view s) k then None else view s k)"
    using v1 audit(2) by (simp add: cleanupTick_def assms(4))
qed

text \<open>
  C10: the background cleanup lets nobody in and keeps nobody out.  Whatever the cleanup deletes at a time
  \<open>t\<close>, from then on every request is treated as if it had not run: either the next handler is called
  on the same request, or the response is the same error.  There is one exception: for a key that had
  expired and whose HMAC secret is not configured (or whose hash is not hexadecimal), the error is a 500
  without the cleanup and the generic 401 with it.  The store may be any that meets the contract of a
  key manager, and its lookups succeed.
\<close>

theorem cleanup_invisible:
  assumes "key_manager mgr view invar storable storable_time" and "invar s" and "storable_time t"
    and "m_DeleteExpired mgr t s = (Inr n, s1)" and "s' = cleanupTick mgr t s" and "t \<le> now"
    and "\<And>k. \<exists>v. m_GetByID mgr k s = Inr v" and "\<And>k. \<exists>v. m_GetByID mgr k s' = Inr v"
  shows "let authn = authn_Middleware (m_GetByID mgr) (Authenticate h) resolver now next w r;
             before = st\<lparr>global := s\<rparr>; after = st\<lparr>global := s'\<rparr>
         in (\<exists>r'. authn before = next w r' before \<and> authn after = next w r' after) \<or>
            (\<exists>msg code. code \<in> {401, 500} \<and>
               authn before = http_Error w msg code before \<and> authn after = http_Error w msg code after) \<or>
            (\<exists>keyID secret rec. presents_key r keyID secret \<and> view s keyID = Some rec \<and>
               (\<exists>e. ExpiresAt rec = Some e \<and> e < t) \<and> \<not> key_configured h rec \<and>
               authn before = http_Error w ''internal error'' 500 before \<and>
               authn after = http_Error w ''invalid credentials'' 401 after)"
proof -
  note tick = cleanupTick_view [OF assms(1-4)]
  have get: "m_GetByID mgr k s = Inr (view s k)" "m_GetByID mgr k s' = Inr (view s' k)" for k
    using assms(7,8) key_store.GetByID_view [OF key_manager.axioms(1) [OF assms(1)]] assms(2,5) tick(1) by metis+
  have view': "view s' k = (if expiredKey t (view s) k then None else view s k)" for k
    using tick(2) assms(5) by simp
  define authn where "authn = authn_Middleware (m_GetByID mgr) (Authenticate h) resolver now next w r"
  have "(\<exists>r'. \<forall>x \<in> {s, s'}. authn (st\<lparr>global := x\<rparr>) = next w r' (st\<lparr>global := x\<rparr>)) \<or>
      (\<exists>msg code. code \<in> {401, 500} \<and> (\<forall>x \<in> {s, s'}. authn (st\<lparr>global := x\<rparr>) = http_Error w msg code (st\<lparr>global := x\<rparr>))) \<or>
      (\<exists>keyID secret rec. presents_key r keyID secret \<and> view s keyID = Some rec \<and>
         (\<exists>e. ExpiresAt rec = Some e \<and> e < t) \<and> \<not> key_configured h rec \<and>
         authn (st\<lparr>global := s\<rparr>) = http_Error w ''internal error'' 500 (st\<lparr>global := s\<rparr>) \<and>
         authn (st\<lparr>global := s'\<rparr>) = http_Error w ''invalid credentials'' 401 (st\<lparr>global := s'\<rparr>))"
    (is "?same \<or> ?error \<or> ?retired")
  proof (cases "\<exists>keyID secret. presents_key r keyID secret")
    case False
    show ?thesis unfolding authn_def by (subst (1 2) authn_malformed [OF False]) blast
  next
    case True
    then obtain keyID secret where k: "presents_key r keyID secret" by blast
    have none: "authn (st\<lparr>global := x\<rparr>) = http_Error w ''invalid credentials'' 401 (st\<lparr>global := x\<rparr>)"
      if "m_GetByID mgr keyID x = Inr None" for x
      using that unfolding authn_def by (intro authn_not_found(1) [OF k]) simp
    have some: "authn (st\<lparr>global := x\<rparr>) = (if key_grants h resolver now r secret rec then next w (admitted r rec) (st\<lparr>global := x\<rparr>)
        else if key_configured h rec then http_Error w ''invalid credentials'' 401 (st\<lparr>global := x\<rparr>)
        else http_Error w ''internal error'' 500 (st\<lparr>global := x\<rparr>))"
      if "m_GetByID mgr keyID x = Inr (Some rec)" for x rec
      using authn_Middleware_found [of r keyID secret "m_GetByID mgr" "st\<lparr>global := x\<rparr>" rec] k that
      by (simp add: authn_def deny_def presents_key_def)
    show ?thesis
    proof (cases "view s keyID")
      case None
      then have "view s' keyID = None" using view' by simp
      then have ?error using none get None by auto
      then show ?thesis by blast
    next
      case (Some rec)
      show ?thesis
      proof (cases "expiredKey t (view s) keyID")
        case True
        then obtain e where e: "ExpiresAt rec = Some e" "e < t"
          using Some by (auto simp: expiredKey_def expiredBefore_def split: option.splits)
        then have no: "\<not> key_grants h resolver now r secret rec"
          using assms(6) by (auto simp: key_grants_def)
        have after: "authn (st\<lparr>global := s'\<rparr>) = http_Error w ''invalid credentials'' 401 (st\<lparr>global := s'\<rparr>)"
          using none [of s'] get view' [of keyID] True by simp
        have before: "authn (st\<lparr>global := s\<rparr>) =
            (if key_configured h rec then http_Error w ''invalid credentials'' 401 (st\<lparr>global := s\<rparr>)
             else http_Error w ''internal error'' 500 (st\<lparr>global := s\<rparr>))"
          using some [of s rec] get Some no by simp
        show ?thesis
        proof (cases "key_configured h rec")
          case True
          with before after have ?error by auto
          then show ?thesis by blast
        next
          case False
          with before after e Some k have ?retired by auto
          then show ?thesis by blast
        qed
      next
        case False
        then have "m_GetByID mgr keyID s' = Inr (Some rec)" using get view' Some by simp
        then have "?same \<or> ?error" using some [of s] some [of s'] get Some
          by (cases "key_grants h resolver now r secret rec"; cases "key_configured h rec") auto
        then show ?thesis by blast
      qed
    qed
  qed
  then show ?thesis unfolding Let_def authn_def by blast
qed

definition demoKeys :: Store where
  "demoKeys = \<lparr>keys = [''k_1'' \<mapsto> demoKey]\<rparr>"

theorem cleanup_invisible_witness:
  "let authn = authn_Middleware (m_GetByID Admin.demoManager) (Authenticate demoService) \<lparr>trusted = []\<rparr> 300 (\<lambda>w r st. st)
         RawWriter (demoRequest ''k_1:pdg_1'');
       before = (freshState demoKeys)\<lparr>global := demoKeys\<rparr>;
       after = (freshState demoKeys)\<lparr>global := cleanupTick Admin.demoManager 200 demoKeys\<rparr>
   in (authn before = before \<and> authn after = after) \<or>
      (\<exists>msg code. code \<in> {401, 500} \<and>
         authn before = http_Error RawWriter msg code before \<and> authn after = http_Error RawWriter msg code after)"

proof -
  have "store_wf demoKeys" by (simp add: store_wf_def demoKeys_def demoKey_def)
  moreover obtain n s1 where "m_DeleteExpired Admin.demoManager 200 demoKeys = (Inr n, s1)"
    by (cases "deleteExpiredLoop 200 (sorted_list_of_set (dom (keys demoKeys))) (keys demoKeys) 0")
       (simp add: DeleteExpired_def)
  moreover have conf: "keys demoKeys k = Some rec \<Longrightarrow> key_configured demoService rec" for k rec
    using demoKey_configured by (simp add: demoKeys_def split: if_splits)
  moreover have get: "\<exists>v. GetByID k m = Inr v" for k m
    by (simp add: GetByID_def split: option.split)
  ultimately show ?thesis
    using cleanup_invisible [OF mem_key_manager, of demoKeys 200 n s1 "cleanupTick Admin.demoManager 200 demoKeys" 300 demoService
        "\<lparr>trusted = []\<rparr>" "\<lambda>w r st. st" RawWriter "demoRequest ''k_1:pdg_1''" "freshState demoKeys"]
    by (auto simp add: get Let_def)
qed


section \<open>SIGHUP\<close>

text \<open>The loop over what its \<^verbatim>\<open>select\<close> receives; the state is the counter \<^verbatim>\<open>SighupTotal\<close> and the audit log.\<close>

datatype sighup_event = Done | Sighup

fun handleSIGHUP :: "('l \<Rightarrow> bool \<times> 'l) \<Rightarrow> sighup_event list \<Rightarrow> nat \<times> 'l \<Rightarrow> nat \<times> 'l" where
  "handleSIGHUP reopen [] s = s"
| "handleSIGHUP reopen (Done # es) s = s"
| "handleSIGHUP reopen (Sighup # es) (cnt, l) = handleSIGHUP reopen es (cnt + 1, snd (reopen l))"

text \<open>Every signal before the end reopens the log once, whether or not an earlier reopening failed.\<close>

lemma handleSIGHUP_count:
  "handleSIGHUP reopen es (cnt, l) =
     (let n = length (takeWhile (\<lambda>e. e = Sighup) es) in (cnt + n, ((\<lambda>l. snd (reopen l)) ^^ n) l))"
proof (induction es arbitrary: cnt l)
  case (Cons e es)
  then show ?case
    using funpow_swap1 [of "\<lambda>l. snd (reopen l)" _ l] by (cases e) (simp_all add: Let_def)
qed simp


section \<open>Serving and shutting down\<close>

datatype server = ProxySrv | MetricsSrv | AdminSrv

text \<open>A goroutine around \<^verbatim>\<open>ListenAndServe\<close>: serving, about to send its error, or finished.\<close>

datatype goroutine = Serving | Sending | Finished

text \<open>Where \<^verbatim>\<open>listenAndServe\<close> is: in its \<^verbatim>\<open>select\<close>, in \<^verbatim>\<open>shutdownAll\<close> with the servers left, or returned.\<close>

datatype phase = Selecting | ShuttingDown "server option" "server list" | Returned "server option"

record lifecycle =
  goroutines :: "server \<Rightarrow> goroutine"
  errCh :: "server list"
  ctxDone :: bool
  shut :: "server set"
  main :: phase

definition shutdownOrder :: "bool \<Rightarrow> server list" where
  "shutdownOrder admin = (if admin then [AdminSrv] else []) @ [MetricsSrv, ProxySrv]"

definition started :: "bool \<Rightarrow> server set" where
  "started admin = set (shutdownOrder admin)"

definition lifecycleStart :: "bool \<Rightarrow> lifecycle" where
  "lifecycleStart admin =
     \<lparr>goroutines = (\<lambda>s. if s \<in> started admin then Serving else Finished), errCh = [], ctxDone = False,
      shut = {}, main = Selecting\<rparr>"

text \<open>
  The capacity of \<^verbatim>\<open>errCh\<close> is 3.  \<^verbatim>\<open>ListenAndServe\<close> returns an error of its own at any time, and
  \<^verbatim>\<open>ErrServerClosed\<close> once its server was told to shut down.
\<close>

inductive env_step :: "lifecycle \<Rightarrow> lifecycle \<Rightarrow> bool" where
  fails: "goroutines c s = Serving \<Longrightarrow> env_step c (c\<lparr>goroutines := (goroutines c)(s := Sending)\<rparr>)"
| signal: "\<not> ctxDone c \<Longrightarrow> env_step c (c\<lparr>ctxDone := True\<rparr>)"

inductive main_step :: "bool \<Rightarrow> lifecycle \<Rightarrow> lifecycle \<Rightarrow> bool" for admin where
  send: "goroutines c s = Sending \<Longrightarrow> length (errCh c) < 3 \<Longrightarrow>
    main_step admin c (c\<lparr>goroutines := (goroutines c)(s := Finished), errCh := errCh c @ [s]\<rparr>)"
| closed: "goroutines c s = Serving \<Longrightarrow> s \<in> shut c \<Longrightarrow>
    main_step admin c (c\<lparr>goroutines := (goroutines c)(s := Finished)\<rparr>)"
| pick_error: "main c = Selecting \<Longrightarrow> errCh c = s # es \<Longrightarrow>
    main_step admin c (c\<lparr>errCh := es, main := ShuttingDown (Some s) (shutdownOrder admin)\<rparr>)"
| pick_done: "main c = Selecting \<Longrightarrow> ctxDone c \<Longrightarrow>
    main_step admin c (c\<lparr>main := ShuttingDown None (shutdownOrder admin)\<rparr>)"
| shutdown: "main c = ShuttingDown e (s # ss) \<Longrightarrow>
    main_step admin c (c\<lparr>shut := insert s (shut c), main := ShuttingDown e ss\<rparr>)"
| return: "main c = ShuttingDown e [] \<Longrightarrow> main_step admin c (c\<lparr>main := Returned e\<rparr>)"

definition serve_step :: "bool \<Rightarrow> lifecycle \<Rightarrow> lifecycle \<Rightarrow> bool" where
  "serve_step admin c c' \<longleftrightarrow> env_step c c' \<or> main_step admin c c'"

inductive_simps env_step_iff: "env_step c c'"
inductive_simps main_step_iff: "main_step admin c c'"

definition finished :: "lifecycle \<Rightarrow> server set" where
  "finished c = {s. goroutines c s = Finished}"

text \<open>What holds in every state that is reached.\<close>

definition cause :: "bool \<Rightarrow> lifecycle \<Rightarrow> server option \<Rightarrow> bool" where
  "cause admin c e =
     (case e of None \<Rightarrow> ctxDone c | Some s \<Rightarrow> s \<in> started admin \<inter> finished c - set (errCh c))"

definition lifecycle_inv :: "bool \<Rightarrow> lifecycle \<Rightarrow> bool" where
  "lifecycle_inv admin c \<longleftrightarrow>
     distinct (errCh c) \<and> set (errCh c) \<subseteq> started admin \<inter> finished c \<and> - started admin \<subseteq> finished c \<and>
     (case main c of
        Selecting \<Rightarrow> started admin \<inter> finished c = set (errCh c) \<and> shut c = {}
      | ShuttingDown e ss \<Rightarrow> started admin = shut c \<union> set ss \<and> cause admin c e
      | Returned e \<Rightarrow> started admin = shut c \<and> cause admin c e)"

lemma lifecycle_inv_start: "lifecycle_inv admin (lifecycleStart admin)"
  by (auto simp: lifecycle_inv_def lifecycleStart_def finished_def)

lemma lifecycle_inv_step: "serve_step admin c c' \<Longrightarrow> lifecycle_inv admin c \<Longrightarrow> lifecycle_inv admin c'"
  unfolding serve_step_def
proof (elim disjE)
  show "env_step c c' \<Longrightarrow> lifecycle_inv admin c \<Longrightarrow> lifecycle_inv admin c'"
    by (induction rule: env_step.induct)
       (auto simp: lifecycle_inv_def finished_def cause_def split: phase.splits option.splits if_splits)
  assume "main_step admin c c'" and "lifecycle_inv admin c"
  then show "lifecycle_inv admin c'"
  proof (induction rule: main_step.induct)
    case (send c s)
    then have fin: "finished (c\<lparr>goroutines := (goroutines c)(s := Finished), errCh := errCh c @ [s]\<rparr>) = insert s (finished c)"
        "s \<notin> finished c" "s \<notin> set (errCh c)"
      by (auto simp: finished_def lifecycle_inv_def)
    with send.prems show ?case
      unfolding lifecycle_inv_def cause_def by (cases "main c") (auto split: option.splits)
  next
    case (closed c s)
    then have fin: "finished (c\<lparr>goroutines := (goroutines c)(s := Finished)\<rparr>) = insert s (finished c)"
      by (auto simp: finished_def)
    with closed show ?case
      unfolding lifecycle_inv_def cause_def by (cases "main c") (auto split: option.splits)
  next
    case (shutdown c e s ss)
    then show ?case by (cases e) (auto simp: lifecycle_inv_def finished_def cause_def)
  next
    case (return c e)
    then show ?case by (cases e) (auto simp: lifecycle_inv_def finished_def cause_def)
  qed (auto simp: lifecycle_inv_def finished_def cause_def started_def)
qed

text \<open>A bound on the steps that are left.\<close>

fun goroutine_rank :: "goroutine \<Rightarrow> nat" where
  "goroutine_rank Serving = 2"
| "goroutine_rank Sending = 1"
| "goroutine_rank Finished = 0"

fun phase_rank :: "phase \<Rightarrow> nat" where
  "phase_rank Selecting = 5"
| "phase_rank (ShuttingDown e ss) = 1 + length ss"
| "phase_rank (Returned e) = 0"

definition goroutines_rank :: "(server \<Rightarrow> goroutine) \<Rightarrow> nat" where
  "goroutines_rank g = goroutine_rank (g ProxySrv) + goroutine_rank (g MetricsSrv) + goroutine_rank (g AdminSrv)"

lemma goroutines_rank_less: "goroutine_rank v < goroutine_rank (g s) \<Longrightarrow> goroutines_rank (g(s := v)) < goroutines_rank g"
  by (cases s) (simp_all add: goroutines_rank_def)

definition lifecycle_rank :: "lifecycle \<Rightarrow> nat" where
  "lifecycle_rank c = goroutines_rank (goroutines c) + phase_rank (main c) + (if ctxDone c then 0 else 1)"

lemma lifecycle_rank_step: "serve_step admin c c' \<Longrightarrow> lifecycle_rank c' < lifecycle_rank c"
  unfolding serve_step_def
proof (elim disjE)
  assume "env_step c c'"
  then show ?thesis
    by cases (simp_all add: lifecycle_rank_def goroutines_rank_less)
next
  assume "main_step admin c c'"
  then show ?thesis
    by cases (simp_all add: lifecycle_rank_def goroutines_rank_less shutdownOrder_def)
qed

lemma lifecycle_run:
  assumes "(serve_step admin ^^ n) (lifecycleStart admin) c"
  shows "lifecycle_inv admin c \<and> n + lifecycle_rank c \<le> 12"
  using assms
proof (induction n arbitrary: c)
  case 0
  then show ?case
    using lifecycle_inv_start [of admin]
    by (auto simp: lifecycleStart_def lifecycle_rank_def goroutines_rank_def started_def shutdownOrder_def)
next
  case (Suc n)
  then obtain b where b: "(serve_step admin ^^ n) (lifecycleStart admin) b" "serve_step admin b c" by auto
  show ?case
    using Suc.IH [OF b(1)] lifecycle_inv_step [OF b(2)] lifecycle_rank_step [OF b(2)] by simp
qed

text \<open>The buffer of \<^verbatim>\<open>errCh\<close> has room for every goroutine that still sends.\<close>

lemma server_UNIV: "UNIV = {ProxySrv, MetricsSrv, AdminSrv}"
proof (rule UNIV_eq_I)
  show "s \<in> {ProxySrv, MetricsSrv, AdminSrv}" for s by (cases s) simp_all
qed

lemma send_possible:
  assumes "lifecycle_inv admin c" and "goroutines c s = Sending"
  shows "length (errCh c) < 3"
proof -
  have d: "distinct (s # errCh c)" using assms by (auto simp: lifecycle_inv_def finished_def)
  have "finite (UNIV :: server set)" unfolding server_UNIV by simp
  then have "card (set (s # errCh c)) \<le> card (UNIV :: server set)" by (intro card_mono) simp_all
  also have "\<dots> = 3" unfolding server_UNIV by simp
  finally show ?thesis using distinct_card [OF d] by simp
qed

text \<open>
  C37: the servers stop together.  \<^verbatim>\<open>listenAndServe\<close> returns only after every server that it started
  was told to shut down, with the error of a server that failed, or without error after a signal.
\<close>

theorem listenAndServe_stops_all:
  assumes "(serve_step admin)\<^sup>*\<^sup>* (lifecycleStart admin) c" and "main c = Returned e"
  shows "{ProxySrv, MetricsSrv} \<subseteq> shut c \<and> (AdminSrv \<in> shut c \<longleftrightarrow> admin) \<and>
    (case e of None \<Rightarrow> ctxDone c | Some s \<Rightarrow> goroutines c s = Finished)"
proof -
  obtain n where "(serve_step admin ^^ n) (lifecycleStart admin) c" using assms(1) rtranclp_imp_relpowp by fast
  then have "lifecycle_inv admin c" using lifecycle_run by blast
  then show ?thesis
    using assms(2) by (cases admin) (auto simp: lifecycle_inv_def cause_def finished_def started_def shutdownOrder_def
        split: option.splits)
qed

text \<open>
  C38: no run hangs and no goroutine leaks.  Whatever fails and whenever the signal comes, a run of the
  servers has at most twelve steps; when the program can make none, either nothing has happened
  yet and all servers are serving, or \<^verbatim>\<open>listenAndServe\<close> has returned and all goroutines are finished.
\<close>

theorem listenAndServe_ends:
  assumes "(serve_step admin ^^ n) (lifecycleStart admin) c"
  shows "n \<le> 12 \<and>
    ((\<exists>c'. main_step admin c c') \<or>
     main c = Selecting \<and> \<not> ctxDone c \<and> errCh c = [] \<and> (\<forall>s \<in> started admin. goroutines c s = Serving) \<or>
     (\<exists>e. main c = Returned e) \<and> (\<forall>s. goroutines c s = Finished))"
proof -
  have inv: "lifecycle_inv admin c" and n: "n \<le> 12" using lifecycle_run [OF assms] by auto
  have "\<exists>c'. main_step admin c c'" if "goroutines c s = Sending" for s
    using send [OF that send_possible [OF inv that]] by blast
  moreover have "main c = Selecting \<and> \<not> ctxDone c \<and> errCh c = [] \<and> (\<forall>s \<in> started admin. goroutines c s = Serving) \<or>
     (\<exists>e. main c = Returned e) \<and> (\<forall>s. goroutines c s = Finished)"
    if stuck: "\<nexists>c'. main_step admin c c'" and quiet: "\<And>s. goroutines c s \<noteq> Sending"
  proof (cases "main c")
    case Selecting
    have "errCh c = []" using stuck pick_error [OF Selecting] by (cases "errCh c") blast+
    moreover have "\<not> ctxDone c" using stuck pick_done [OF Selecting] by blast
    moreover have "goroutines c s = Serving" if "s \<in> started admin" for s
      using that inv quiet [of s] Selecting calculation(1)
      by (cases "goroutines c s") (auto simp: lifecycle_inv_def finished_def)
    ultimately show ?thesis using Selecting by blast
  next
    case (ShuttingDown e ss)
    then show ?thesis using stuck shutdown return by (cases ss) blast+
  next
    case (Returned e)
    have "goroutines c s = Finished" for s
    proof (cases "goroutines c s")
      case Serving
      then have "s \<in> shut c" using inv Returned by (auto simp: lifecycle_inv_def finished_def)
      then show ?thesis using stuck closed [OF Serving] by blast
    qed (use quiet in blast)+
    then show ?thesis using Returned by blast
  qed
  ultimately show ?thesis using n by blast
qed

theorem listenAndServe_ends_witness:
  "(\<exists>c'. main_step False (lifecycleStart False) c') \<or>
   main (lifecycleStart False) = Selecting \<and> (\<forall>s \<in> started False. goroutines (lifecycleStart False) s = Serving) \<or>
   (\<forall>s. goroutines (lifecycleStart False) s = Finished)"
  using listenAndServe_ends [of 0 False "lifecycleStart False"] by auto

text \<open>A run: the signal arrives, and all servers are shut down.\<close>

definition demoStopped :: lifecycle where
  "demoStopped = (lifecycleStart False)\<lparr>ctxDone := True, shut := {ProxySrv, MetricsSrv}, main := Returned None\<rparr>"

lemma demoStopped_reached: "(serve_step False)\<^sup>*\<^sup>* (lifecycleStart False) demoStopped"
proof -
  let ?c = "lifecycleStart False"
  have "(serve_step False)\<^sup>*\<^sup>* ?c (?c\<lparr>ctxDone := True\<rparr>)"
    using signal [of ?c] by (intro r_into_rtranclp) (simp add: serve_step_def lifecycleStart_def)
  also have "serve_step False \<dots> (?c\<lparr>ctxDone := True, main := ShuttingDown None [MetricsSrv, ProxySrv]\<rparr>)"
    using pick_done [of "?c\<lparr>ctxDone := True\<rparr>" False]
    by (simp add: serve_step_def lifecycleStart_def shutdownOrder_def)
  also have "serve_step False \<dots> (?c\<lparr>ctxDone := True, shut := {MetricsSrv}, main := ShuttingDown None [ProxySrv]\<rparr>)"
    using shutdown [of "?c\<lparr>ctxDone := True, main := ShuttingDown None [MetricsSrv, ProxySrv]\<rparr>" None MetricsSrv "[ProxySrv]" False]
    by (simp add: serve_step_def lifecycleStart_def)
  also have "serve_step False \<dots> (?c\<lparr>ctxDone := True, shut := {ProxySrv, MetricsSrv}, main := ShuttingDown None []\<rparr>)"
    using shutdown [of "?c\<lparr>ctxDone := True, shut := {MetricsSrv}, main := ShuttingDown None [ProxySrv]\<rparr>" None ProxySrv "[]" False]
    by (simp add: serve_step_def lifecycleStart_def)
  also have "serve_step False \<dots> demoStopped"
    using return [of "?c\<lparr>ctxDone := True, shut := {ProxySrv, MetricsSrv}, main := ShuttingDown None []\<rparr>" None False]
    by (simp add: serve_step_def lifecycleStart_def demoStopped_def)
  finally show ?thesis .
qed

theorem listenAndServe_stops_all_witness: "{ProxySrv, MetricsSrv} \<subseteq> shut demoStopped \<and> ctxDone demoStopped"
  using listenAndServe_stops_all [OF demoStopped_reached, of None] by (simp add: demoStopped_def)


section \<open>Starting up\<close>

text \<open>
  \<^verbatim>\<open>runServe\<close> opens its resources one after the other and defers their release.  What it depends on
  besides the configuration is the record \<open>host\<close>: whether the tracer starts, the migrations are found,
  a DSN and an audit log open, how URLs parse, the plugin binaries, and what \<^verbatim>\<open>listenAndServe\<close> returns.
\<close>

record host =
  h_tracing :: bool
  h_migrations :: "string option"
  h_stat :: "string \<Rightarrow> bool"
  h_openDB :: "string \<Rightarrow> string \<Rightarrow> bool"
  h_openLog :: "string \<Rightarrow> bool"
  h_parseURL :: "string \<Rightarrow> url option"
  h_binaries :: "string \<Rightarrow> plugin_binary"
  h_memory :: "nat \<Rightarrow> pluginInstance"
  h_served :: "server option"

datatype key_store_kind = PostgresStore | MemoryStore

definition openKeyStore :: "host \<Rightarrow> string \<Rightarrow> string + key_store_kind" where
  "openKeyStore h dsn =
     (if dsn \<noteq> '''' then
        (case h_migrations h of
           None \<Rightarrow> Inl ''resolve migrations path''
         | Some path \<Rightarrow>
             (if \<not> h_stat h path then Inl ''migrations directory''
              else if \<not> h_openDB h dsn path then Inl ''open postgres store''
              else Inr PostgresStore))
      else Inr MemoryStore)"

datatype audit_kind = NoopAudit | FileAudit

definition openAuditLog :: "host \<Rightarrow> string \<Rightarrow> string + audit_kind" where
  "openAuditLog h path =
     (if path = '''' then Inr NoopAudit
      else if \<not> h_openLog h path then Inl ''open audit log''
      else Inr FileAudit)"

text \<open>
  The body of \<^verbatim>\<open>runServe\<close>, statement by statement: acquiring a resource (with the error it fails with, if
  it does), deferring its release, a check that returns an error, starting a goroutine, the call of
  \<^verbatim>\<open>listenAndServe\<close> (with its error), and ending the goroutine for \<^verbatim>\<open>SIGHUP\<close> by closing its channel.  The
  goroutine of the key cleanup ends when the signal context is released.
\<close>

datatype resource = Tracer | KeyStoreR | AuditLogR | PluginsR | BackendR | LimiterR | SignalR

datatype background = SighupG | KeyCleanupG

datatype serve_stmt =
  Acquire resource "string option"
| Defer resource
| Ensure "string option"
| Go background
| Listen "string option"
| CloseDone background

datatype serve_event = Open resource | Close resource | Started background | Serve | Ended background

text \<open>
  The run of a function body: \<open>ds\<close> are the deferred releases, last one first, which run whenever the
  function returns, and \<open>err\<close> is the variable that the last statement returns.
\<close>

fun runBody :: "serve_stmt list \<Rightarrow> resource list \<Rightarrow> string option \<Rightarrow> string option \<times> serve_event list" where
  "runBody [] ds err = (err, map Close ds)"
| "runBody (Acquire res failure # ss) ds err =
     (case failure of
        Some e \<Rightarrow> (Some e, map Close ds)
      | None \<Rightarrow> (let (r, l) = runBody ss ds err in (r, Open res # l)))"
| "runBody (Defer res # ss) ds err = runBody ss (res # ds) err"
| "runBody (Ensure failure # ss) ds err =
     (case failure of Some e \<Rightarrow> (Some e, map Close ds) | None \<Rightarrow> runBody ss ds err)"
| "runBody (Go g # ss) ds err = (let (r, l) = runBody ss ds err in (r, Started g # l))"
| "runBody (Listen failure # ss) ds err = (let (r, l) = runBody ss ds failure in (r, Serve # l))"
| "runBody (CloseDone g # ss) ds err = (let (r, l) = runBody ss ds err in (r, Ended g # l))"

definition failureOf :: "string + 'a \<Rightarrow> string option" where
  "failureOf x = (case x of Inl e \<Rightarrow> Some e | Inr _ \<Rightarrow> None)"

definition failsWith :: "string \<Rightarrow> bool \<Rightarrow> string option" where
  "failsWith e ok = (if ok then None else Some e)"

definition serveBody :: "host \<Rightarrow> Config \<Rightarrow> serve_stmt list" where
  "serveBody h c =
     (if tr_Enabled (cfg_Tracing c) then [Acquire Tracer (failsWith ''init tracing'' (h_tracing h)), Defer Tracer] else []) @
     [Acquire KeyStoreR (failureOf (openKeyStore h (db_DSN (cfg_DB c)))),
      Defer KeyStoreR,
      Acquire AuditLogR (failureOf (openAuditLog h (AuditLog c))),
      Defer AuditLogR,
      Acquire PluginsR (failureOf (fst (openPluginManager (h_binaries h) (h_memory h) c))),
      Defer PluginsR,
      Acquire BackendR (failsWith ''open backend'' (openBackend (h_parseURL h) (cfg_Upstreams c) \<noteq> None)),
      Defer BackendR,
      Acquire LimiterR None,
      Defer LimiterR,
      Ensure (failsWith ''build client IP resolver'' (clientip_New (TrustedProxies c) \<noteq> None)),
      Ensure (failsWith ''hmac secret'' (CurrentHmacSecret c \<noteq> None)),
      Acquire SignalR None,
      Defer SignalR,
      Go SighupG] @
     (if KeyCleanupInterval c > 0 then [Go KeyCleanupG] else []) @
     [Listen (map_option (\<lambda>_. ''server'') (h_served h)),
      CloseDone SighupG]"

definition runServe :: "host \<Rightarrow> config_error + Config \<Rightarrow> string option \<times> serve_event list" where
  "runServe h loaded =
     (case loaded of
        Inl e \<Rightarrow> (Some (fst e), [])
      | Inr c \<Rightarrow> runBody (serveBody h c) [] None)"

text \<open>The specification: what has to succeed, in the order of the start-up, and what is open then.\<close>

definition startable :: "host \<Rightarrow> Config \<Rightarrow> bool list" where
  "startable h c =
     [tr_Enabled (cfg_Tracing c) \<longrightarrow> h_tracing h,
      \<exists>kind. openKeyStore h (db_DSN (cfg_DB c)) = Inr kind,
      \<exists>kind. openAuditLog h (AuditLog c) = Inr kind,
      \<exists>u. fst (openPluginManager (h_binaries h) (h_memory h) c) = Inr u,
      openBackend (h_parseURL h) (cfg_Upstreams c) \<noteq> None,
      clientip_New (TrustedProxies c) \<noteq> None,
      CurrentHmacSecret c \<noteq> None]"

definition allResources :: "Config \<Rightarrow> resource list" where
  "allResources c =
     (if tr_Enabled (cfg_Tracing c) then [Tracer] else []) @
     [KeyStoreR, AuditLogR, PluginsR, BackendR, LimiterR, SignalR]"

lemma failureOf_None: "failureOf x = None \<longleftrightarrow> (\<exists>y. x = Inr y)"
  by (cases x) (simp_all add: failureOf_def)

lemma failsWith_None [simp]: "failsWith e ok = None \<longleftrightarrow> ok"
  by (simp add: failsWith_def)

text \<open>
  How the rest of the body ends when \<open>pre\<close> is open and deferred and \<open>rs\<close> is still to be opened: with
  everything open, if all of it succeeds (\<open>ok\<close>), and otherwise with an error and what was opened closed again.
\<close>

definition starts_up ::
  "string option \<Rightarrow> serve_event list \<Rightarrow> serve_stmt list \<Rightarrow> resource list \<Rightarrow> resource list \<Rightarrow> bool \<Rightarrow> bool" where
  "starts_up err mid ss pre rs ok \<longleftrightarrow>
     (if ok then runBody ss (rev pre) None = (err, map Open rs @ mid @ map Close (rev (pre @ rs)))
      else \<exists>e k. runBody ss (rev pre) None = (Some e, map Open (take k rs) @ map Close (rev (pre @ take k rs))))"

lemma starts_up_failed:
  assumes "runBody ss (rev pre) None = (Some e, map Open (take k rs) @ map Close (rev (pre @ take k rs)))" and "\<not> ok"
  shows "starts_up err mid ss pre rs ok"
  unfolding starts_up_def if_not_P [OF assms(2)] using assms(1) by blast

lemma starts_up_acquire:
  assumes "starts_up err mid ss (pre @ [res]) rs ok"
  shows "starts_up err mid (Acquire res failure # Defer res # ss) pre (res # rs) (failure = None \<and> ok)"
proof (cases failure)
  case None
  show ?thesis
  proof (cases ok)
    case True
    then show ?thesis using assms None by (simp add: starts_up_def)
  next
    case False
    then obtain e k where "runBody ss (rev (pre @ [res])) None =
        (Some e, map Open (take k rs) @ map Close (rev (pre @ res # take k rs)))"
      using assms by (auto simp: starts_up_def)
    then have "runBody (Acquire res failure # Defer res # ss) (rev pre) None =
        (Some e, map Open (take (Suc k) (res # rs)) @ map Close (rev (pre @ take (Suc k) (res # rs))))"
      using None by simp
    then show ?thesis by (rule starts_up_failed) (simp add: False)
  qed
next
  case (Some e)
  then have "runBody (Acquire res failure # Defer res # ss) (rev pre) None =
      (Some e, map Open (take 0 (res # rs)) @ map Close (rev (pre @ take 0 (res # rs))))"
    by simp
  then show ?thesis by (rule starts_up_failed) (simp add: Some)
qed

lemma starts_up_ensure:
  assumes "starts_up err mid ss pre rs ok"
  shows "starts_up err mid (Ensure failure # ss) pre rs (failure = None \<and> ok)"
proof (cases failure)
  case None
  then have "runBody (Ensure failure # ss) (rev pre) None = runBody ss (rev pre) None" by simp
  then show ?thesis using assms unfolding starts_up_def by (simp only: None simp_thms)
next
  case (Some e)
  then have "runBody (Ensure failure # ss) (rev pre) None = (Some e, map Open (take 0 rs) @ map Close (rev (pre @ take 0 rs)))"
    by simp
  then show ?thesis by (rule starts_up_failed) (simp add: Some)
qed

text \<open>
  C39: the start-up is all or nothing, and nothing stays open.  If the configuration loads and every
  step succeeds (tracer, key store, audit log, plugins, backend, client address resolver, HMAC secret),
  \<^verbatim>\<open>runServe\<close> serves with all resources open, starts the key cleanup if an interval is configured, returns
  what \<^verbatim>\<open>listenAndServe\<close> returns, and releases the resources in the opposite order after the \<^verbatim>\<open>SIGHUP\<close>
  goroutine was told to end.  If any step fails, it returns an error without serving, and releases exactly
  the resources that it had opened, in the opposite order.
\<close>

theorem runServe_releases:
  "fst (runServe h (Inl e)) \<noteq> None \<and> snd (runServe h (Inl e)) = [] \<and>
   (if list_all (\<lambda>ok. ok) (startable h c)
    then runServe h (Inr c) =
      (map_option (\<lambda>_. ''server'') (h_served h),
       map Open (allResources c) @
       [Started SighupG] @ (if 0 < KeyCleanupInterval c then [Started KeyCleanupG] else []) @ [Serve, Ended SighupG] @
       map Close (rev (allResources c)))
    else \<exists>err k. runServe h (Inr c) =
      (Some err, map Open (take k (allResources c)) @ map Close (rev (take k (allResources c)))))"
proof -
  let ?err = "map_option (\<lambda>_. ''server'') (h_served h)"
  let ?mid = "Started SighupG # (if 0 < KeyCleanupInterval c then [Started KeyCleanupG] else []) @ [Serve, Ended SighupG]"
  have final: "starts_up ?err ?mid (Go SighupG # (if 0 < KeyCleanupInterval c then [Go KeyCleanupG] else []) @
      [Listen ?err, CloseDone SighupG]) pre [] True" for pre
    by (simp add: starts_up_def)
  let ?ok = "failureOf (openKeyStore h (db_DSN (cfg_DB c))) = None \<and> failureOf (openAuditLog h (AuditLog c)) = None \<and>
    failureOf (fst (openPluginManager (h_binaries h) (h_memory h) c)) = None \<and>
    failsWith ''open backend'' (openBackend (h_parseURL h) (cfg_Upstreams c) \<noteq> None) = None \<and>
    (None :: string option) = None \<and>
    failsWith ''build client IP resolver'' (clientip_New (TrustedProxies c) \<noteq> None) = None \<and>
    failsWith ''hmac secret'' (CurrentHmacSecret c \<noteq> None) = None \<and> (None :: string option) = None \<and> True"
  have "starts_up ?err ?mid (serveBody h c) [] (allResources c) (list_all (\<lambda>ok. ok) (startable h c))"
  proof (cases "tr_Enabled (cfg_Tracing c)")
    case True
    then have "list_all (\<lambda>ok. ok) (startable h c) = (failsWith ''init tracing'' (h_tracing h) = None \<and> ?ok)"
      by (simp add: startable_def failureOf_None)
    then show ?thesis
      unfolding serveBody_def allResources_def if_P [OF True] append_Cons append_Nil
      by (simp only:) (intro starts_up_acquire starts_up_ensure final)
  next
    case False
    then have "list_all (\<lambda>ok. ok) (startable h c) = ?ok"
      by (simp add: startable_def failureOf_None)
    then show ?thesis
      unfolding serveBody_def allResources_def if_not_P [OF False] append_Cons append_Nil
      by (simp only:) (intro starts_up_acquire starts_up_ensure final)
  qed
  then show ?thesis unfolding starts_up_def by (simp add: runServe_def split: if_splits)
qed

end
