(* ===== verification/Cli.thy ===== *)
theory Cli
  imports Gateway
begin

text \<open>
  The command line \<^verbatim>\<open>src/cmd/pdag\<close>: \<^verbatim>\<open>main.go\<close>, \<^verbatim>\<open>key.go\<close>, \<^verbatim>\<open>validate.go\<close> and \<^verbatim>\<open>version.go\<close>.  A command
  is a function of its arguments and of the state of the key manager that it opens.  What it
  needs of its surroundings is the record \<open>cli_env\<close>.
\<close>

section \<open>Results and flags\<close>

datatype cli_error =
  ConfigError config_error
| CliError string
| KeyStoreError store_error

text \<open>A command ends the process with a status, returns an error, or succeeds with what it printed.\<close>

datatype cli_result = Exit int | Failed cli_error | Printed string

text \<open>
  \<^verbatim>\<open>flag.FlagSet.Parse\<close> with \<^verbatim>\<open>ExitOnError\<close> for flags that all take a string: the values in the order
  in which they are set and the arguments that are left, or the exit status.
\<close>

datatype flag_result = FlagExit int | Flags "(string \<times> string) list" "string list"

fun setFlag :: "string \<Rightarrow> string \<Rightarrow> flag_result \<Rightarrow> flag_result" where
  "setFlag name v (FlagExit n) = FlagExit n"
| "setFlag name v (Flags fs rest) = Flags ((name, v) # fs) rest"

definition undefinedFlag :: "string \<Rightarrow> flag_result" where
  "undefinedFlag name = FlagExit (if name = ''help'' \<or> name = ''h'' then 0 else 2)"

fun flag_Parse :: "string list \<Rightarrow> string list \<Rightarrow> flag_result" where
  "flag_Parse names [] = Flags [] []"
| "flag_Parse names (s # args) =
     (if length s < 2 \<or> s ! 0 \<noteq> CHR ''-'' then Flags [] (s # args)
      else if s = ''--'' then Flags [] args
      else
        (let name = (if s ! 1 = CHR ''-'' then drop 2 s else drop 1 s)
         in if name = [] \<or> hd name = CHR ''-'' \<or> hd name = CHR ''='' then FlagExit 2
            else
              (case strings_Cut name CHR ''='' of
                 Some (n, v) \<Rightarrow>
                   (if n \<notin> set names then undefinedFlag n else setFlag n v (flag_Parse names args))
               | None \<Rightarrow>
                   (if name \<notin> set names then undefinedFlag name
                    else case args of
                           [] \<Rightarrow> FlagExit 2
                         | v # args' \<Rightarrow> setFlag name v (flag_Parse names args')))))"

definition flagValue :: "(string \<times> string) list \<Rightarrow> string \<Rightarrow> string" where
  "flagValue fs name = (case map_of (rev fs) name of None \<Rightarrow> '''' | Some v \<Rightarrow> v)"


section \<open>The environment of the key commands\<close>

text \<open>
  \<open>ce_load\<close> is \<^verbatim>\<open>config.Load\<close>; \<open>ce_abs\<close> the absolute path of the migrations, \<^const>\<open>None\<close> an error;
  \<open>ce_open\<close> whether \<^verbatim>\<open>postgres.NewStore\<close> opens a DSN; \<open>ce_clk\<close> the clock of the store; \<open>ce_rand1\<close> and
  \<open>ce_rand2\<close> what the random source yields; \<open>ce_fmtTime\<close> the text of an instant.
\<close>

record cli_env =
  ce_load :: "string \<Rightarrow> config_error + Config"
  ce_abs :: "string option"
  ce_open :: "string \<Rightarrow> string \<Rightarrow> bool"
  ce_clk :: clock
  ce_rand1 :: "bytes option"
  ce_rand2 :: "bytes option"
  ce_fmtTime :: "gotime \<Rightarrow> string"

definition openKeyEnv :: "cli_env \<Rightarrow> string \<Rightarrow> cli_error + Generator" where
  "openKeyEnv env configPath =
     (case ce_load env configPath of
        Inl e \<Rightarrow> Inl (ConfigError e)
      | Inr c \<Rightarrow>
          (if db_DSN (cfg_DB c) = '''' then Inl (CliError ''key management requires a database: set db.dsn'')
           else
             (case ce_abs env of
                None \<Rightarrow> Inl (CliError ''resolve migrations path'')
              | Some migrations \<Rightarrow>
                  (if \<not> ce_open env (db_DSN (cfg_DB c)) migrations then Inl (CliError ''open store'')
                   else
                     (case CurrentHmacSecret c of
                        None \<Rightarrow> Inl (CliError ''no hmac_secrets configured'')
                      | Some current \<Rightarrow> Inr (NewGenerator (hs_ID current) (hs_Secret current)))))))"

text \<open>Parsing the flags and opening the environment, which every key command starts with.\<close>

definition withKeyEnv ::
  "string list \<Rightarrow> cli_env \<Rightarrow> string list \<Rightarrow>
   ((string \<times> string) list \<Rightarrow> string list \<Rightarrow> Generator \<Rightarrow> 's \<Rightarrow> cli_result \<times> 's) \<Rightarrow> 's \<Rightarrow> cli_result \<times> 's" where
  "withKeyEnv names env args body s =
     (case flag_Parse names args of
        FlagExit n \<Rightarrow> (Exit n, s)
      | Flags fs rest \<Rightarrow>
          (case openKeyEnv env (flagValue fs ''config'') of
             Inl e \<Rightarrow> (Failed e, s)
           | Inr g \<Rightarrow> body fs rest g s))"


section \<open>The key commands\<close>

definition createdText :: "string \<Rightarrow> string \<Rightarrow> string" where
  "createdText keyID secret =
     ''Key ID:  '' @ keyID @ [CHR 0x0A] @ ''Secret:  '' @ secret @ [CHR 0x0A] @
     ''Header:  X-API-Key: '' @ keyID @ '':'' @ secret @ [CHR 0x0A] @
     [CHR 0x0A] @ ''This secret will not be shown again.'' @ [CHR 0x0A]"

definition roleList :: "string \<Rightarrow> string list" where
  "roleList roles = map strings_TrimSpace (strings_Split roles CHR '','')"

definition runKeyCreate :: "'s KeyManager \<Rightarrow> cli_env \<Rightarrow> string list \<Rightarrow> 's \<Rightarrow> cli_result \<times> 's" where
  "runKeyCreate mgr env args =
     withKeyEnv [''config'', ''principal'', ''roles''] env args (\<lambda>fs _ g s.
       let prin = flagValue fs ''principal''; roles = flagValue fs ''roles''
       in if prin = '''' \<or> roles = '''' then (Failed (CliError ''--principal and --roles are required''), s)
          else
            (case GenerateKeyID (ce_rand1 env) of
               None \<Rightarrow> (Failed (CliError ''generate key ID''), s)
             | Some keyID \<Rightarrow>
                 (case GenerateSecret (ce_rand2 env) of
                    None \<Rightarrow> (Failed (CliError ''generate secret''), s)
                  | Some secret \<Rightarrow>
                      (let rec = \<lparr>KID = keyID, KeyHash = Hash g secret, HmacKeyID = hmacKeyID g, KPrincipal = prin,
                                  KRoles = roleList roles, AllowedCIDRs = [], Enabled = True, ExpiresAt = None,
                                  CreatedAt = 0, UpdatedAt = 0\<rparr>
                       in case m_Create mgr (ce_clk env) rec s of
                            (Inl e, s) \<Rightarrow> (Failed (KeyStoreError e), s)
                          | (Inr _, s) \<Rightarrow> (Printed (createdText keyID secret), s)))))"

text \<open>\<^verbatim>\<open>%-ns\<close> pads to \<open>n\<close> runes.\<close>

definition padTo :: "nat \<Rightarrow> string \<Rightarrow> string" where
  "padTo n s = s @ replicate (n - length (range_runes s)) (CHR '' '')"

definition listLine :: "string \<Rightarrow> string \<Rightarrow> string \<Rightarrow> string \<Rightarrow> string \<Rightarrow> string" where
  "listLine a b c d e =
     padTo 20 a @ '' '' @ padTo 20 b @ '' '' @ padTo 30 c @ '' '' @ padTo 8 d @ '' '' @ padTo 20 e @ [CHR 0x0A]"

definition keyLine :: "cli_env \<Rightarrow> KeyRecord \<Rightarrow> string" where
  "keyLine env k =
     listLine (KID k) (KPrincipal k) (strings_Join (KRoles k) '','') (if Enabled k then ''true'' else ''false'')
       (case ExpiresAt k of None \<Rightarrow> ''never'' | Some t \<Rightarrow> ce_fmtTime env t)"

definition runKeyList :: "'s KeyManager \<Rightarrow> cli_env \<Rightarrow> string list \<Rightarrow> 's \<Rightarrow> cli_result \<times> 's" where
  "runKeyList mgr env args =
     withKeyEnv [''config''] env args (\<lambda>_ _ _ s.
       case m_List mgr s of
         Inl e \<Rightarrow> (Failed (KeyStoreError e), s)
       | Inr ks \<Rightarrow>
           (if ks = [] then (Printed (''No keys found.'' @ [CHR 0x0A]), s)
            else (Printed (listLine ''ID'' ''PRINCIPAL'' ''ROLES'' ''ENABLED'' ''EXPIRES'' @ concat (map (keyLine env) ks)), s)))"

definition runKeySetEnabled :: "'s KeyManager \<Rightarrow> cli_env \<Rightarrow> bool \<Rightarrow> string list \<Rightarrow> 's \<Rightarrow> cli_result \<times> 's" where
  "runKeySetEnabled mgr env enabled args =
     withKeyEnv [''config''] env args (\<lambda>_ rest _ s.
       case rest of
         [] \<Rightarrow> (Failed (CliError ''key ID required''), s)
       | keyID # _ \<Rightarrow>
           (case m_SetEnabled mgr (ce_clk env) keyID enabled s of
              (Inl e, s) \<Rightarrow> (Failed (KeyStoreError e), s)
            | (Inr _, s) \<Rightarrow>
                (Printed (''Key '' @ keyID @ (if enabled then '' enabled.'' else '' disabled.'') @ [CHR 0x0A]), s)))"

definition runKeyDelete :: "'s KeyManager \<Rightarrow> cli_env \<Rightarrow> string list \<Rightarrow> 's \<Rightarrow> cli_result \<times> 's" where
  "runKeyDelete mgr env args =
     withKeyEnv [''config''] env args (\<lambda>_ rest _ s.
       case rest of
         [] \<Rightarrow> (Failed (CliError ''key ID required''), s)
       | keyID # _ \<Rightarrow>
           (case m_Delete mgr keyID s of
              (Inl e, s) \<Rightarrow> (Failed (KeyStoreError e), s)
            | (Inr _, s) \<Rightarrow> (Printed (''Key '' @ keyID @ '' deleted.'' @ [CHR 0x0A]), s)))"

definition runKey :: "'s KeyManager \<Rightarrow> cli_env \<Rightarrow> string list \<Rightarrow> 's \<Rightarrow> cli_result \<times> 's" where
  "runKey mgr env args s =
     (case args of
        [] \<Rightarrow> (Exit 1, s)
      | sub # args \<Rightarrow>
          (if sub = ''create'' then runKeyCreate mgr env args s
           else if sub = ''list'' then runKeyList mgr env args s
           else if sub = ''disable'' then runKeySetEnabled mgr env False args s
           else if sub = ''enable'' then runKeySetEnabled mgr env True args s
           else if sub = ''delete'' then runKeyDelete mgr env args s
           else (Failed (CliError (''unknown key subcommand: '' @ sub)), s)))"


section \<open>The other commands\<close>

definition runValidate :: "cli_env \<Rightarrow> string list \<Rightarrow> cli_result" where
  "runValidate env args =
     (case flag_Parse [''config''] args of
        FlagExit n \<Rightarrow> Exit n
      | Flags fs _ \<Rightarrow>
          (case ce_load env (flagValue fs ''config'') of
             Inl e \<Rightarrow> Failed (ConfigError e)
           | Inr _ \<Rightarrow> Printed (''config OK'' @ [CHR 0x0A])))"

text \<open>The link-time variables and the settings of \<^verbatim>\<open>debug.ReadBuildInfo\<close> (empty if there is none).\<close>

fun buildInfo :: "(string \<times> string) list \<Rightarrow> string \<times> string \<times> string \<Rightarrow> string \<times> string \<times> string" where
  "buildInfo [] (v, c, d) = (v, c, d)"
| "buildInfo ((key, x) # ss) (v, c, d) =
     buildInfo ss (v, if key = ''vcs.revision'' \<and> c = '''' then x else c, if key = ''vcs.time'' \<and> d = '''' then x else d)"

definition versionString :: "(string \<times> string) list \<Rightarrow> string \<times> string \<times> string \<Rightarrow> string" where
  "versionString settings vars =
     (let (v, c, d) = buildInfo settings vars
      in v @ (if c \<noteq> '''' then '' ('' @ take 12 c @ '')'' else '''') @ (if d \<noteq> '''' then '' '' @ d else ''''))"

definition runVersion :: "(string \<times> string) list \<Rightarrow> string \<times> string \<times> string \<Rightarrow> cli_result" where
  "runVersion settings vars = Printed (''pdag '' @ versionString settings vars @ [CHR 0x0A])"

text \<open>
  \<^verbatim>\<open>main\<close>: the exit status, what was printed, and the state of the store; \<open>serve\<close> is \<^verbatim>\<open>runServe\<close>.
\<close>

definition exitStatus :: "cli_result \<times> 's \<Rightarrow> int \<times> string \<times> 's" where
  "exitStatus res =
     (case res of
        (Exit n, s) \<Rightarrow> (n, '''', s)
      | (Failed _, s) \<Rightarrow> (1, '''', s)
      | (Printed out, s) \<Rightarrow> (0, out, s))"

definition pdag_main ::
  "'s KeyManager \<Rightarrow> cli_env \<Rightarrow> (string list \<Rightarrow> 's \<Rightarrow> cli_result \<times> 's) \<Rightarrow> (string \<times> string) list \<Rightarrow>
   string \<times> string \<times> string \<Rightarrow> string list \<Rightarrow> 's \<Rightarrow> int \<times> string \<times> 's" where
  "pdag_main mgr env serve settings vars args s =
     (case args of
        [] \<Rightarrow> (1, '''', s)
      | cmd # args \<Rightarrow>
          (if cmd = ''version'' then exitStatus (runVersion settings vars, s)
           else if cmd = ''serve'' then exitStatus (serve args s)
           else if cmd = ''key'' then exitStatus (runKey mgr env args s)
           else if cmd = ''validate'' then exitStatus (runValidate env args, s)
           else (1, '''', s)))"


section \<open>Properties\<close>

lemma openKeyEnv_Inr:
  assumes "openKeyEnv env path = Inr g"
  obtains c s where "ce_load env path = Inr c" and "CurrentHmacSecret c = Some s"
    and "hmacKeyID g = hs_ID s" and "hmacSecret g = hs_Secret s"
  using assms that by (auto simp: openKeyEnv_def NewGenerator_def split: sum.splits if_splits option.splits)

text \<open>What a successful \<^verbatim>\<open>pdag key create\<close> has done.\<close>

lemma runKeyCreate_Printed:
  assumes "runKeyCreate mgr env args s = (Printed out, s')"
  obtains fs rest g rec secret where
    "flag_Parse [''config'', ''principal'', ''roles''] args = Flags fs rest"
    and "openKeyEnv env (flagValue fs ''config'') = Inr g"
    and "GenerateKeyID (ce_rand1 env) = Some (KID rec)" and "GenerateSecret (ce_rand2 env) = Some secret"
    and "out = createdText (KID rec) secret" and "m_Create mgr (ce_clk env) rec s = (Inr (), s')"
    and "KPrincipal rec = flagValue fs ''principal''" and "KPrincipal rec \<noteq> ''''"
    and "KRoles rec = roleList (flagValue fs ''roles'')"
    and "KeyHash rec = Hash g secret" and "HmacKeyID rec = hmacKeyID g"
    and "Enabled rec" and "AllowedCIDRs rec = []" and "ExpiresAt rec = None"
proof -
  obtain fs rest where f: "flag_Parse [''config'', ''principal'', ''roles''] args = Flags fs rest"
    using assms by (cases "flag_Parse [''config'', ''principal'', ''roles''] args") (auto simp: runKeyCreate_def withKeyEnv_def)
  obtain g where g: "openKeyEnv env (flagValue fs ''config'') = Inr g"
    using assms f by (cases "openKeyEnv env (flagValue fs ''config'')") (auto simp: runKeyCreate_def withKeyEnv_def)
  note body = assms [unfolded runKeyCreate_def withKeyEnv_def f flag_result.case g sum.case Let_def]
  have p: "flagValue fs ''principal'' \<noteq> ''''" "flagValue fs ''roles'' \<noteq> ''''" using body by (auto split: if_splits)
  obtain keyID where k: "GenerateKeyID (ce_rand1 env) = Some keyID"
    using body p by (cases "GenerateKeyID (ce_rand1 env)") auto
  obtain secret where sec: "GenerateSecret (ce_rand2 env) = Some secret"
    using body p k by (cases "GenerateSecret (ce_rand2 env)") auto
  define rec where "rec = \<lparr>KID = keyID, KeyHash = Hash g secret, HmacKeyID = hmacKeyID g,
      KPrincipal = flagValue fs ''principal'', KRoles = roleList (flagValue fs ''roles''), AllowedCIDRs = [],
      Enabled = True, ExpiresAt = None, CreatedAt = 0, UpdatedAt = 0\<rparr>"
  have "(case m_Create mgr (ce_clk env) rec s of (Inl e, s) \<Rightarrow> (Failed (KeyStoreError e), s)
      | (Inr _, s) \<Rightarrow> (Printed (createdText keyID secret), s)) = (Printed out, s')"
    using body p k sec by (simp add: rec_def)
  then have "m_Create mgr (ce_clk env) rec s = (Inr (), s')" "out = createdText keyID secret"
    by (auto split: prod.splits sum.splits)
  then show thesis using that [of fs rest g rec secret] f g k sec p by (simp add: rec_def)
qed

text \<open>
  C11: a key that \<^verbatim>\<open>pdag key create\<close> prints works at the gateway.  Over every store that meets the
  contract of a key manager, a request with the printed header is admitted, with the principal and
  the roles of the command line, by a gateway that was started from the same configuration,
  provided that its HMAC secrets have distinct IDs and are not empty.
\<close>

theorem cli_created_key_works:
  assumes "key_manager mgr view invar storable storable_time" and "invar s"
    and "runKeyCreate mgr env args s = (Printed out, s')"
    and "flag_Parse [''config'', ''principal'', ''roles''] args = Flags fs rest"
    and "ce_load env (flagValue fs ''config'') = Inr c"
    and "distinct (map hs_ID (HmacSecrets c))" and "\<forall>x \<in> set (HmacSecrets c). hs_Secret x \<noteq> ''''"
    and "list_all storable (roleList (flagValue fs ''roles''))"
    and "global st = s'"
  shows "\<exists>keyID secret. out = createdText keyID secret \<and>
    (\<forall>r now next w resolver found.
       header_Get (r_Header r) ''X-API-Key'' = keyID @ CHR '':'' # secret \<and> m_GetByID mgr keyID s' = Inr found \<longrightarrow>
       authn_Middleware (m_GetByID mgr) (Authenticate (NewHmacService (hmacSecrets c))) resolver now next w r st =
         next w (r\<lparr>r_ctx := (r_ctx r)\<lparr>c_principal := flagValue fs ''principal'', c_keyID := keyID,
                     c_roles := roleList (flagValue fs ''roles'')\<rparr>\<rparr>) st)"
proof -
  obtain g rec secret where
      k: "openKeyEnv env (flagValue fs ''config'') = Inr g" "GenerateKeyID (ce_rand1 env) = Some (KID rec)"
        "GenerateSecret (ce_rand2 env) = Some secret" "out = createdText (KID rec) secret"
        "m_Create mgr (ce_clk env) rec s = (Inr (), s')" "KPrincipal rec = flagValue fs ''principal''"
        "KRoles rec = roleList (flagValue fs ''roles'')" "KeyHash rec = Hash g secret" "HmacKeyID rec = hmacKeyID g"
        "Enabled rec" "AllowedCIDRs rec = []" "ExpiresAt rec = None"
    using assms(3,4) by (elim runKeyCreate_Printed) auto
  obtain cur where cur: "CurrentHmacSecret c = Some cur" "hmacKeyID g = hs_ID cur" "hmacSecret g = hs_Secret cur"
    using k(1) assms(5) by (elim openKeyEnv_Inr) auto
  have map: "secretMap (NewHmacService (hmacSecrets c)) (hmacKeyID g) = Some (hmacSecret g)" "hmacSecret g \<noteq> ''''"
    using hmacSecrets_current [OF cur(1) assms(6)] cur assms(7)
    by (auto simp: NewHmacService_def CurrentHmacSecret_def split: list.splits)
  have "authn_Middleware (m_GetByID mgr) (Authenticate (NewHmacService (hmacSecrets c))) resolver now next w r st =
      next w (admitted r rec) st"
    if hdr: "header_Get (r_Header r) ''X-API-Key'' = KID rec @ CHR '':'' # secret"
      and found: "m_GetByID mgr (KID rec) s' = Inr found" for r now "next" w resolver found
  proof -
    obtain ca ua where "found = Some (rec\<lparr>CreatedAt := ca, UpdatedAt := ua\<rparr>)"
      using key_manager.GetByID_after_Create [OF assms(1,2) k(5) found] assms(8) k(7,11,12) by auto
    then show ?thesis
      using k map hdr found assms(9) by (intro created_key_admitted) auto
  qed
  then show ?thesis using k(4,6,7) by (intro exI [of _ "KID rec"] exI [of _ secret]) simp
qed

text \<open>
  What the command line reports about a revocation is true.  Once \<^verbatim>\<open>pdag key disable\<close> or
  \<^verbatim>\<open>pdag key delete\<close> has reported success for a key ID, a gateway over the same store rejects every
  request that presents it.
\<close>

theorem cli_revoked_key_rejected:
  assumes "key_manager mgr view invar storable storable_time" and "invar s"
    and "flag_Parse [''config''] args = Flags fs (keyID # rest)"
    and "runKeySetEnabled mgr env False args s = (Printed out, s') \<or> runKeyDelete mgr env args s = (Printed out, s')"
    and "strings_Cut (header_Get (r_Header q) ''X-API-Key'') CHR '':'' = Some (keyID, secret)"
    and "global st = s'"
  shows "is_rejection w st (authn_Middleware (m_GetByID mgr) (Authenticate h) resolver now next w q st)"
proof -
  note km = assms(1)
  have view: "invar s' \<and> (\<forall>rec. view s' keyID = Some rec \<longrightarrow> \<not> Enabled rec)"
    using assms(4)
  proof
    assume "runKeySetEnabled mgr env False args s = (Printed out, s')"
    then have "m_SetEnabled mgr (ce_clk env) keyID False s = (Inr (), s')"
      using assms(3) by (auto simp: runKeySetEnabled_def withKeyEnv_def split: sum.splits prod.splits)
    then show ?thesis
      using key_manager.call_invar [OF km assms(2), of "ce_clk env" "CallSetEnabled keyID False"]
        key_manager.SetEnabled_view [OF km assms(2), of "ce_clk env" keyID False s'] by auto
  next
    assume "runKeyDelete mgr env args s = (Printed out, s')"
    then have "m_Delete mgr keyID s = (Inr (), s')"
      using assms(3) by (auto simp: runKeyDelete_def withKeyEnv_def split: sum.splits prod.splits)
    then show ?thesis
      using key_manager.call_invar [OF km assms(2), of _ "CallDelete keyID"]
        key_manager.Delete_view [OF km assms(2), of keyID s'] by auto
  qed
  have "\<not> Enabled rec" if "m_GetByID mgr keyID (global st) = Inr (Some rec)" for rec
  proof -
    have "Some rec = view s' keyID"
      using key_store.GetByID_view [OF key_manager.axioms(1) [OF km]] view that assms(6) by metis
    with view show ?thesis by metis
  qed
  then show ?thesis by (rule authn_revoked [OF assms(5)])
qed

text \<open>
  Finding: none of the commands writes an audit event.  Over a manager that records its audit events
  the list of events never changes, although the admin API records one for each of these changes.
\<close>

lemma cli_unaudited: "snd (snd (runKey (recording mgr) env args s)) = snd s"
proof -
  have lift: "snd (snd (liftS f s)) = snd s" for f :: "'a \<Rightarrow> 'b \<times> 'a" by (simp add: liftS_def split: prod.split)
  have env: "snd (snd (withKeyEnv names env args body s)) = snd s"
    if "\<And>fs rest g. snd (snd (body fs rest g s)) = snd s" for names args body
    using that by (auto simp: withKeyEnv_def split: flag_result.split sum.split)
  have keep: "snd s' = snd s" if "liftS f s = (res, s')" for f :: "'a \<Rightarrow> unit sres \<times> 'a" and res s'
    using that by (auto simp: liftS_def split: prod.splits)
  have "snd (snd (runKeyCreate (recording mgr) env as s)) = snd s" for as
    unfolding runKeyCreate_def
    by (rule env) (auto simp: recording_def Let_def split: option.split prod.split sum.split dest: keep)
  moreover have "snd (snd (runKeyList (recording mgr) env as s)) = snd s" for as
    unfolding runKeyList_def by (rule env) (simp split: sum.split)
  moreover have "snd (snd (runKeySetEnabled (recording mgr) env b as s)) = snd s" for b as
    unfolding runKeySetEnabled_def
    by (rule env) (auto simp: recording_def split: list.split prod.split sum.split dest: keep)
  moreover have "snd (snd (runKeyDelete (recording mgr) env as s)) = snd s" for as
    unfolding runKeyDelete_def
    by (rule env) (auto simp: recording_def split: list.split prod.split sum.split dest: keep)
  ultimately show ?thesis by (simp add: runKey_def split: list.split)
qed

text \<open>Finding: the command line accepts a role list with blanks, which the admin API refuses.\<close>

lemma cli_blank_role:
  "roleList ''a,,b'' = [''a'', '''', ''b'']" "\<exists>e. validateRoles (Some (roleList ''a,,b'')) = Inl e"
proof -
  show roles: "roleList ''a,,b'' = [''a'', '''', ''b'']" by code_simp
  have "validateRoles (Some [''a'', '''', ''b'']) = Inl (the (case validateRoles (Some [''a'', '''', ''b'']) of Inl e \<Rightarrow> Some e | _ \<Rightarrow> None))"
    by code_simp
  then show "\<exists>e. validateRoles (Some (roleList ''a,,b'')) = Inl e" unfolding roles by blast
qed

definition demoCliEnv :: cli_env where
  "demoCliEnv =
     \<lparr>ce_load = (\<lambda>_. Inr (demoConfig\<lparr>cfg_DB := \<lparr>db_Driver = ''postgres'', db_DSN = ''dsn''\<rparr>\<rparr>)), ce_abs = Some ''/m'',
      ce_open = (\<lambda>_ _. True), ce_clk = (\<lambda>_. 1), ce_rand1 = Some ''a'', ce_rand2 = Some ''b'', ce_fmtTime = (\<lambda>_. '''')\<rparr>"

definition demoArgs :: "string list" where
  "demoArgs = [''--principal'', ''bob'', ''--roles=admin'']"

lemma demoArgs_flags:
  "flag_Parse [''config'', ''principal'', ''roles''] demoArgs = Flags [(''principal'', ''bob''), (''roles'', ''admin'')] []"
  by code_simp

lemma demoFlags [simp]:
  "flagValue [(''principal'', ''bob''), (''roles'', ''admin'')] ''principal'' = ''bob''"
  "flagValue [(''principal'', ''bob''), (''roles'', ''admin'')] ''roles'' = ''admin''"
  "flagValue [(''principal'', ''bob''), (''roles'', ''admin'')] ''config'' = ''''"
  by (simp_all add: flagValue_def)

lemma demoCreate_printed:
  "\<exists>s'. runKeyCreate Admin.demoManager demoCliEnv demoArgs NewStore = (Printed (createdText ''k_61'' ''pdg_62''), s')"
proof -
  have "GenerateKeyID (Some ''a'') = Some ''k_61''" "GenerateSecret (Some ''b'') = Some ''pdg_62''" by code_simp+
  then show ?thesis
    by (simp add: runKeyCreate_def withKeyEnv_def demoArgs_flags openKeyEnv_def demoCliEnv_def demoConfig_def
        CurrentHmacSecret_def Create_def NewStore_def Let_def)
qed

theorem cli_created_key_works_witness:
  "\<exists>s' keyID secret. runKeyCreate Admin.demoManager demoCliEnv demoArgs NewStore = (Printed (createdText keyID secret), s')"
proof -
  obtain s' where s': "runKeyCreate Admin.demoManager demoCliEnv demoArgs NewStore = (Printed (createdText ''k_61'' ''pdg_62''), s')"
    using demoCreate_printed by blast
  show ?thesis
    using cli_created_key_works [OF mem_key_manager store_wf_NewStore s' demoArgs_flags, of
        "demoConfig\<lparr>cfg_DB := \<lparr>db_Driver = ''postgres'', db_DSN = ''dsn''\<rparr>\<rparr>" "freshState s'"] s'
    by (auto simp: demoCliEnv_def demoConfig_def freshState_def list_all_iff)
qed

theorem cli_revoked_key_rejected_witness:
  "is_rejection RawWriter (freshState (snd (runKeyDelete Admin.demoManager demoCliEnv [''k1''] demoStore)))
     (authn_Middleware (m_GetByID Admin.demoManager) (Authenticate demoService) \<lparr>trusted = []\<rparr> 0 (\<lambda>w r st. st)
       RawWriter (demoRequest ''k1:pdg_x'') (freshState (snd (runKeyDelete Admin.demoManager demoCliEnv [''k1''] demoStore))))"
proof -
  have f: "flag_Parse [''config''] [''k1''] = Flags [] [''k1'']" by code_simp
  have "runKeyDelete Admin.demoManager demoCliEnv [''k1''] demoStore =
      (Printed (''Key k1 deleted.'' @ [CHR 0x0A]), snd (runKeyDelete Admin.demoManager demoCliEnv [''k1''] demoStore))"
    by (simp add: runKeyDelete_def withKeyEnv_def f openKeyEnv_def demoCliEnv_def demoConfig_def CurrentHmacSecret_def
        Delete_def demoStore_def)
  then show ?thesis
    using demoRequest_header [of "''k1''" "''pdg_x''"]
    by (intro cli_revoked_key_rejected [OF mem_key_manager demoStore_wf f, where secret = "''pdg_x''"], intro disjI2)
       (assumption, simp_all add: freshState_def)
qed

end
