(* ===== verification/Spec2Isabelle.thy ===== *)
theory Spec2Isabelle
  imports Authn Fan_Out Authz Ratelimit Httproute Plugins Pg_Array Proxy Request_Audit Audit_File Config Postgres
    Admin Letsencrypt Gateway Lifecycle Cli
begin

text \<open>
  A verification library for PDAG, a gateway in front of the HTTP API of PowerDNS
  (\<^verbatim>\<open>src/\<close>, written in Go).  A request passes a chain of middlewares: request ID, metrics, tracing,
  audit, authentication by API key, rate limit, body buffer, authorization by plugin processes;
  only then it is forwarded to a PowerDNS server.  An admin API and a command line manage the keys.

  \<^bold>\<open>How Go is modelled.\<close>  A Go string and a byte slice are a \<^typ>\<open>string\<close> (a list of bytes), an instant is
  a number of nanoseconds since the zero time, a duration a number of nanoseconds.  An interface
  value is a record of functions over a state type; a handler is a function of the response
  writer, the request and the state of the request (\<open>Http\<close>), which holds the cells behind the
  pointers in the context, the response so far, whether a panic unwinds the stack, and the state
  \<open>'g\<close> of the gateway.  Errors are values of \<^typ>\<open>'a option\<close> or a sum type.  The order in which a range
  visits a map, the readings of the clock, the results of the random source, of the network, of
  the file system, of the database and of a plugin process are arguments.  Goroutines are step relations or
  lists of atomic actions, so statements about all runs are statements about all interleavings.
  Integers are unbounded where the code cannot overflow, and wrap where it can (\<open>wrap64\<close> in
  \<open>Middleware\<close>, saturating \<open>time_Sub\<close> in \<open>Prelude\<close>); \<^verbatim>\<open>float64\<close> rounds after every operation (\<open>Float64\<close>).

  \<^bold>\<open>The standard library.\<close>  \<open>Prelude\<close> (strings, hex, UTF-8), \<open>Http\<close> (headers, requests, writers), \<open>Go_Net\<close>
  (addresses and networks), \<open>Go_Time\<close> (RFC 3339), \<open>Hmac_Sha256\<close>, \<open>Float64\<close>, \<open>Json\<close> (scanner, decoder,
  encoder), \<open>Json_Decode\<close> (decoding into structs).

  \<^bold>\<open>Keys.\<close>  \<open>Key_Store\<close> has the interfaces of \<^verbatim>\<open>internal/store/store.go\<close>, the in-memory store
  \<^verbatim>\<open>internal/store/memory\<close>, and the contract that both stores meet: the locale \<open>key_manager\<close>, over a
  \<open>view\<close> of the state as a map from key IDs to records.  \<open>Pg_Array\<close> and \<open>Postgres\<close> model
  \<^verbatim>\<open>internal/store/postgres\<close> over any database that satisfies the locale \<open>postgres_db\<close>, the documented
  behaviour of the statements that the store sends; it is interpreted by a reference database.  The
  lemmas show that both stores refine the contract, that every call keeps the invariant, and, for keys
  with distinct creation times, that pages concatenate to the sorted list and that filtered pages of
  both stores agree.

  \<^bold>\<open>Who may do what.\<close>  \<open>Client_IP\<close> (\<^verbatim>\<open>internal/clientip\<close>), \<open>Authn\<close> (\<^verbatim>\<open>internal/authn\<close>,
  \<^verbatim>\<open>internal/admin/hmac\<close>), \<open>Ratelimit\<close> (\<^verbatim>\<open>internal/ratelimit\<close>), \<open>Authz\<close>, \<open>Plugin_Manager\<close>, \<open>Fan_Out\<close> and
  \<open>Circuit_Breaker\<close> (\<^verbatim>\<open>internal/authz\<close>), \<open>Sdk\<close>, \<open>Plugins\<close> and \<open>Letsencrypt\<close> (\<^verbatim>\<open>sdk\<close>, \<^verbatim>\<open>plugins\<close>).  The lemmas
  show that the middlewares let exactly the right requests pass, that denials of authentication
  look the same unless the lookup fails or the key's HMAC secret is not configured, how many requests of
  a principal the limiter admits in a stretch of time, with its cleanup running and racing, that the
  authorizer sees all of a request but its credentials, that the fan-out over the roles is sound and returns
  under every interleaving, when a breaker opens and how it recovers, and what the plugins allow.

  \<^bold>\<open>The way to the backend and the audit trail.\<close>  \<open>Middleware\<close> (\<^verbatim>\<open>internal/middleware\<close>), \<open>Httproute\<close>, \<open>Proxy\<close>
  (\<^verbatim>\<open>internal/proxy\<close>), \<open>Request_Audit\<close> (\<^verbatim>\<open>internal/audit\<close>) and \<open>Audit_File\<close> (\<^verbatim>\<open>internal/audit/file\<close>).  The
  lemmas show what headers leave the gateway, to how many backends a request goes, that the
  retry loop is a failover over the healthy backends, that in fail-closed mode every request that
  is served has exactly one entry, that a logged JSON body has markers exactly at the members of sensitive
  names (\<open>redaction\<close>, stated over paths into the value), and that the logger is an append-only queue
  (locale \<open>append_log\<close>) whose \<^verbatim>\<open>Close\<close> drains and returns.

  \<^bold>\<open>Putting it together.\<close>  \<open>Config\<close> (\<^verbatim>\<open>internal/config\<close>), \<open>Admin\<close> (\<^verbatim>\<open>internal/admin\<close>), \<open>Gateway\<close> and
  \<open>Lifecycle\<close> (\<^verbatim>\<open>cmd/pdag/serve.go\<close>, \<^verbatim>\<open>internal/tracing/middleware.go\<close>) and \<open>Cli\<close> (\<^verbatim>\<open>cmd/pdag\<close>).  The
  lemmas are about several components at once: nothing reaches the backend except through every
  check and nobody is kept out who passes them; the admin API needs its token, records every
  change and takes back what it cannot record; keys that the admin API or the command line hand out work
  at the gateway and revoked keys do not, over every store that meets the contract; the
  background cleanup admits and rejects nobody; start-up serves exactly if every step succeeds and
  otherwise closes what it opened (\<open>serveBody\<close> lists the statements of \<^verbatim>\<open>runServe\<close>, with the deferred
  releases apart from the openings); the servers stop together and nothing stays open.

  \<^bold>\<open>Bounds and fuel.\<close>  All definitions are total.  The JSON parser takes fuel, and \<open>parseFuel\<close>, twice the
  length of the text plus a constant, is proved enough for every document that the encoder writes;
  its nesting limit is that of Go.  The restart loop of a plugin, the attempts of the balancer and the
  steps of \<^verbatim>\<open>listenAndServe\<close> are bounded by constants of the code.

  \<^bold>\<open>Findings.\<close>  Lemmas under the heading Finding prove behaviour that a comment or a document of the
  repository contradicts: among others entries without principal (\<open>gateway_audit_anonymous\<close>), ambiguous
  bodies that the ACME plugin accepts (\<open>letsencrypt_ambiguous\<close>), a breaker that stays half-open
  (\<open>cancelled_probe_sticks\<close>), a role that makes all keys unreadable (\<open>null_role_unreadable\<close>), key
  commands that leave no audit event (\<open>cli_unaudited\<close>), pages that lose keys of equal creation time
  (\<open>ListFiltered_ties\<close>), and configurations that validate and do not start (\<open>validated_without_plugins\<close>).

  \<^bold>\<open>Not modelled.\<close>  Log lines and Prometheus metrics (\<^verbatim>\<open>internal/metrics\<close> apart from its middleware), which no code
  path reads, except the counters that a property mentions; the exporter of
  \<^verbatim>\<open>internal/tracing/tracing.go\<close>, which configures a library; the generated code of \<^verbatim>\<open>proto\<close> and the gRPC glue
  of \<^verbatim>\<open>sdk/plugin.go\<close>, whose transport is the argument \<open>rpc_answer\<close> of a call; the benchmark
  \<^verbatim>\<open>bench\<close>; reading and merging of configuration sources by viper, an argument of \<open>Load\<close>; encoded slashes in paths.
  The time that a step takes is modelled only where the code measures it.  Rates in the configuration are
  rational numbers, without NaN and infinities.  A call of the limiter is one step, and the balancer reads the
  flags of the backends it skips at once.
\<close>

end
